(* ===== verification/Fmma_Prelude.thy ===== *)
theory Fmma_Prelude
  imports Main "HOL-Library.Word" "HOL-Library.Monad_Syntax"
begin

text \<open>
  Prelude of the FMMA development: the C integer types, the C string
  conventions, the integer operations whose C meaning differs from HOL's, and
  the generic lemmas the component theories share.

  \<^item> \<open>uint32_t\<close> and \<open>uint64_t\<close> are words, so their arithmetic wraps.
  \<^item> \<open>int32_t\<close>, \<open>int64_t\<close> and, on the 32-bit ARM target of the build,
    \<open>long\<close> are integers; every arithmetic result is put back into the type by
    \<open>s32\<close> or \<open>s64\<close> (two's complement, what the compiler emits for the target).
    The component theories prove where the wrap can never happen.
  \<^item> A C string is a \<open>string\<close> without its terminating NUL; a \<open>const char *\<close>
    that may be NULL is a \<open>string option\<close>; a pointer into the middle of a string is
    the suffix it points at.
\<close>

unbundle bit_operations_syntax

type_synonym u32 = "32 word"
type_synonym u64 = "64 word"

section \<open>Signed machine integers\<close>

definition s32 :: "int \<Rightarrow> int" where
  "s32 x = signed_take_bit 31 x"

definition s64 :: "int \<Rightarrow> int" where
  "s64 x = signed_take_bit 63 x"

definition int64_min :: int where
  "int64_min = - (2 ^ 63)"

text \<open>Division of signed integers truncates towards zero in C.\<close>

definition cdiv :: "int \<Rightarrow> int \<Rightarrow> int" where
  "cdiv a b = (if (a < 0) = (b < 0) then \<bar>a\<bar> div \<bar>b\<bar> else - (\<bar>a\<bar> div \<bar>b\<bar>))"

section \<open>Characters and strings\<close>

definition char_code :: "char \<Rightarrow> int" where
  "char_code c = int (of_char c)"

definition is_digit :: "char \<Rightarrow> bool" where
  "is_digit c \<longleftrightarrow> 48 \<le> char_code c \<and> char_code c \<le> 57"

definition digit_val :: "char \<Rightarrow> int" where
  "digit_val c = char_code c - 48"

text \<open>Reading \<open>s[i]\<close> of a C string: the terminating NUL is at index \<open>length s\<close>.\<close>

definition c_at :: "string \<Rightarrow> nat \<Rightarrow> char" where
  "c_at s i = (if i < length s then s ! i else CHR 0x00)"

text \<open>\<open>strncmp (s, t, n) == 0\<close> for \<open>n = strlen (t)\<close> is a prefix test.\<close>

fun starts_with :: "string \<Rightarrow> string \<Rightarrow> bool" where
  "starts_with [] s = True"
| "starts_with (p # ps) [] = False"
| "starts_with (p # ps) (c # cs) = (p = c \<and> starts_with ps cs)"

text \<open>\<open>strstr\<close>: the suffix at the first occurrence, \<open>None\<close> for NULL.\<close>

fun strstr :: "string \<Rightarrow> string \<Rightarrow> string option" where
  "strstr [] pat = (if pat = [] then Some [] else None)"
| "strstr (c # cs) pat = (if starts_with pat (c # cs) then Some (c # cs) else strstr cs pat)"

text \<open>\<open>strchr (s, q) - s\<close>: the offset of the first \<open>q\<close>, \<open>None\<close> for NULL.\<close>

fun strchr_off :: "string \<Rightarrow> char \<Rightarrow> nat option" where
  "strchr_off [] q = None"
| "strchr_off (c # cs) q = (if c = q then Some 0 else map_option Suc (strchr_off cs q))"

text \<open>\<open>snprintf (buf, n, ...)\<close> stores at most \<open>n - 1\<close> characters of the text.\<close>

definition snprintf_store :: "nat \<Rightarrow> string \<Rightarrow> string" where
  "snprintf_store n text = take (n - 1) text"

text \<open>The decimal digits \<open>%u\<close>, \<open>%llu\<close> and \<open>%0*llu\<close> print.\<close>

definition digit_char :: "nat \<Rightarrow> char" where
  "digit_char d = char_of (48 + d)"

function dec_digits :: "nat \<Rightarrow> string" where
  "dec_digits n = (if n < 10 then [digit_char n]
                   else dec_digits (n div 10) @ [digit_char (n mod 10)])"
  by pat_completeness auto
termination
  by (relation "measure id") auto

declare dec_digits.simps [simp del]

definition zero_pad :: "nat \<Rightarrow> string \<Rightarrow> string" where
  "zero_pad w s = replicate (w - length s) (CHR ''0'') @ s"

section \<open>Collections of facts\<close>

named_theorems no_wrap \<open>the signed wrap is the identity in range\<close>
named_theorems frame \<open>what an operation leaves unchanged\<close>

lemma s32_id [no_wrap]: "- (2 ^ 31) \<le> x \<Longrightarrow> x < 2 ^ 31 \<Longrightarrow> s32 x = x"
  by (simp add: s32_def signed_take_bit_int_eq_self)

lemma s64_id [no_wrap]: "- (2 ^ 63) \<le> x \<Longrightarrow> x < 2 ^ 63 \<Longrightarrow> s64 x = x"
  by (simp add: s64_def signed_take_bit_int_eq_self)

lemma s32_ge: "- (2 ^ 31) \<le> s32 x"
  unfolding s32_def by (rule signed_take_bit_int_greater_eq_minus_exp)

lemma s32_less: "s32 x < 2 ^ 31"
  unfolding s32_def by (rule signed_take_bit_int_less_exp)

lemma s64_ge: "- (2 ^ 63) \<le> s64 x"
  unfolding s64_def by (rule signed_take_bit_int_greater_eq_minus_exp)

lemma s64_less: "s64 x < 2 ^ 63"
  unfolding s64_def by (rule signed_take_bit_int_less_exp)

lemma s32_bounds: "- 2147483648 \<le> s32 x" "s32 x \<le> 2147483647"
  using s32_ge [of x] s32_less [of x] by simp_all

lemma s64_bounds: "- 9223372036854775808 \<le> s64 x" "s64 x \<le> 9223372036854775807"
  using s64_ge [of x] s64_less [of x] by simp_all

section \<open>Words\<close>

lemma uint_of_int_u32: "0 \<le> x \<Longrightarrow> x < 2 ^ 32 \<Longrightarrow> uint (word_of_int x :: u32) = x"
  by (simp add: uint_word_of_int)

lemma uint_of_int_u64: "0 \<le> x \<Longrightarrow> x < 2 ^ 64 \<Longrightarrow> uint (word_of_int x :: u64) = x"
  by (simp add: uint_word_of_int)

lemma unat_of_int_u32: "0 \<le> x \<Longrightarrow> x < 2 ^ 32 \<Longrightarrow> unat (word_of_int x :: u32) = nat x"
  using uint_of_int_u32 [of x] by (simp only: unat_eq_nat_uint)

lemma unat_of_int_u64: "0 \<le> x \<Longrightarrow> x < 2 ^ 64 \<Longrightarrow> unat (word_of_int x :: u64) = nat x"
  using uint_of_int_u64 [of x] by (simp only: unat_eq_nat_uint)

lemma uint_u32_less: "uint (x :: u32) < 2 ^ 32"
  using uint_lt2p [of x] by simp

lemma uint_u64_less: "uint (x :: u64) < 2 ^ 64"
  using uint_lt2p [of x] by simp

lemma uint_ucast_u32_u64: "uint (ucast (x :: u32) :: u64) = uint x"
  using uint_u32_less [of x] by (simp add: unsigned_ucast_eq take_bit_int_eq_self)

lemma unat_ucast_u32_u64: "unat (ucast (x :: u32) :: u64) = unat x"
  using uint_ucast_u32_u64 [of x] by (simp only: unat_eq_nat_uint)

lemma unat_u32_less: "unat (x :: u32) < 2 ^ 32"
  using unsigned_less [of x] by simp

lemma unat_u64_less: "unat (x :: u64) < 2 ^ 64"
  using unsigned_less [of x] by simp

lemma uint_u32_bounds: "0 \<le> uint (x :: u32)" "uint x < 4294967296"
  using uint_u32_less [of x] by simp_all

lemma uint_u64_bounds: "0 \<le> uint (x :: u64)" "uint x < 18446744073709551616"
  using uint_u64_less [of x] by simp_all

text \<open>The conversion \<open>(int32_t) x\<close>: the identity below \<open>2 ^ 31\<close>.\<close>

lemma sint_u32_bounds: "- 2147483648 \<le> sint (x :: u32)" "sint x < 2147483648"
  using sint_range_size [of x] by (simp_all add: word_size)

lemma sint_u32_small: "uint (x :: u32) < 2 ^ 31 \<Longrightarrow> sint x = uint x"
proof -
  assume "uint x < 2 ^ 31"
  then have "signed_take_bit 31 (uint x) = uint x"
    using uint_u32_bounds(1) [of x] by (intro signed_take_bit_int_eq_self) linarith+
  then show ?thesis by (simp add: sint_uint)
qed

lemma s32_lim: "- 2147483648 \<le> x \<Longrightarrow> x \<le> 2147483647 \<Longrightarrow> s32 x = x"
  by (simp add: s32_id)

lemma s64_lim:
  "- 9223372036854775808 \<le> x \<Longrightarrow> x \<le> 9223372036854775807 \<Longrightarrow> s64 x = x"
  by (simp add: s64_id)

lemma sint_of_int_u32: "- (2 ^ 31) \<le> x \<Longrightarrow> x < 2 ^ 31 \<Longrightarrow> sint (word_of_int x :: u32) = x"
  by (simp add: sint_word_ariths sint_sbintrunc' signed_take_bit_int_eq_self)

section \<open>Printing\<close>

text \<open>\<open>%d\<close> and \<open>%lld\<close>; \<open>%u\<close> and \<open>%llu\<close>; the newline.\<close>

definition fmt_int :: "int \<Rightarrow> string" where
  "fmt_int x = (if x < 0 then CHR ''-'' # dec_digits (nat (- x)) else dec_digits (nat x))"

definition fmt_word :: "'a::len word \<Rightarrow> string" where
  "fmt_word w = dec_digits (unat w)"

abbreviation nl :: string where "nl \<equiv> [CHR 0x0A]"

lemma filter_length_mono:
  "(\<And>x. x \<in> set xs \<Longrightarrow> P x \<Longrightarrow> Q x) \<Longrightarrow> length (filter P xs) \<le> length (filter Q xs)"
  by (induction xs) (auto simp: le_SucI)

lemma unat_of_nat_u32: "a < 2 ^ 32 \<Longrightarrow> unat (word_of_nat a :: u32) = a"
  by (simp add: unsigned_of_nat take_bit_nat_eq_self)

lemma word_of_nat_inj_u32:
  "(word_of_nat a :: u32) = word_of_nat b \<Longrightarrow> a < 2 ^ 32 \<Longrightarrow> b < 2 ^ 32 \<Longrightarrow> a = b"
  by (metis unat_of_nat_u32)

end
