(* ===== verification/Fmma_Protocol.thy ===== *)
theory Fmma_Protocol
  imports Fmma_Prelude
begin

text \<open>
  The shared-memory protocol, \<open>Software/fmma_protocol.h\<close>: the word indices of the shared
  RAM and the values that travel through it. The RAM is a function from word indices to
  words. What a piece of host code does to it is an explicit list of accesses in program
  order, stores and barriers, so that the order in which the stores become visible can be
  reasoned about; \<open>run_accesses\<close> is their combined effect.
\<close>

abbreviation FMMA_PROTOCOL_VERSION :: u32 where "FMMA_PROTOCOL_VERSION \<equiv> 2"
abbreviation FMMA_MEM_WORDS :: nat where "FMMA_MEM_WORDS \<equiv> 1024"
abbreviation FMMA_PROGRAM_BASE :: nat where "FMMA_PROGRAM_BASE \<equiv> 8"
abbreviation FMMA_PROGRAM_LIMIT :: nat where "FMMA_PROGRAM_LIMIT \<equiv> 256"
abbreviation FMMA_INPUT_BASE :: nat where "FMMA_INPUT_BASE \<equiv> 256"
abbreviation FMMA_OUTPUT_BASE :: nat where "FMMA_OUTPUT_BASE \<equiv> 320"
abbreviation FMMA_PRICE_SCALE :: u32 where "FMMA_PRICE_SCALE \<equiv> 100"
abbreviation FMMA_SIGNAL_NONE :: u32 where "FMMA_SIGNAL_NONE \<equiv> 0"
abbreviation FMMA_SIGNAL_BUY :: u32 where "FMMA_SIGNAL_BUY \<equiv> 1"
abbreviation FMMA_SIGNAL_SELL :: u32 where "FMMA_SIGNAL_SELL \<equiv> 2"
abbreviation FMMA_FILL_BOUGHT :: u32 where "FMMA_FILL_BOUGHT \<equiv> 1"
abbreviation FMMA_FILL_SOLD :: u32 where "FMMA_FILL_SOLD \<equiv> 2"
abbreviation FMMA_STATUS_RUNNING :: u32 where "FMMA_STATUS_RUNNING \<equiv> 1"
abbreviation FMMA_STATUS_DATA_VALID :: u32 where "FMMA_STATUS_DATA_VALID \<equiv> 2"
abbreviation FMMA_STATUS_RISK_BLOCKED :: u32 where "FMMA_STATUS_RISK_BLOCKED \<equiv> 4"
abbreviation FMMA_STATUS_DISABLED :: u32 where "FMMA_STATUS_DISABLED \<equiv> 8"

text \<open>HPS to FPGA.\<close>

abbreviation FMMA_TICK_SEQ :: nat where "FMMA_TICK_SEQ \<equiv> 256"
abbreviation FMMA_BID :: nat where "FMMA_BID \<equiv> 257"
abbreviation FMMA_ASK :: nat where "FMMA_ASK \<equiv> 258"
abbreviation FMMA_BID_SIZE :: nat where "FMMA_BID_SIZE \<equiv> 259"
abbreviation FMMA_ASK_SIZE :: nat where "FMMA_ASK_SIZE \<equiv> 260"
abbreviation FMMA_CFG_THRESH :: nat where "FMMA_CFG_THRESH \<equiv> 261"
abbreviation FMMA_CFG_MAX_POS :: nat where "FMMA_CFG_MAX_POS \<equiv> 262"
abbreviation FMMA_CFG_ENABLE :: nat where "FMMA_CFG_ENABLE \<equiv> 263"
abbreviation FMMA_CFG_HALF_SPREAD :: nat where "FMMA_CFG_HALF_SPREAD \<equiv> 264"
abbreviation FMMA_CFG_SKEW :: nat where "FMMA_CFG_SKEW \<equiv> 265"
abbreviation FMMA_CFG_RESTART :: nat where "FMMA_CFG_RESTART \<equiv> 266"
abbreviation FMMA_FILL_SEQ :: nat where "FMMA_FILL_SEQ \<equiv> 267"
abbreviation FMMA_FILL_SIDE :: nat where "FMMA_FILL_SIDE \<equiv> 268"
abbreviation FMMA_FILL_QTY :: nat where "FMMA_FILL_QTY \<equiv> 269"
abbreviation FMMA_CFG_POSITION :: nat where "FMMA_CFG_POSITION \<equiv> 270"

text \<open>FPGA to HPS.\<close>

abbreviation FMMA_HEARTBEAT :: nat where "FMMA_HEARTBEAT \<equiv> 320"
abbreviation FMMA_SIGNAL :: nat where "FMMA_SIGNAL \<equiv> 321"
abbreviation FMMA_SIGNAL_TICK :: nat where "FMMA_SIGNAL_TICK \<equiv> 322"
abbreviation FMMA_SIGNAL_SEQ :: nat where "FMMA_SIGNAL_SEQ \<equiv> 323"
abbreviation FMMA_POSITION :: nat where "FMMA_POSITION \<equiv> 324"
abbreviation FMMA_STATUS :: nat where "FMMA_STATUS \<equiv> 325"
abbreviation FMMA_REJECTS :: nat where "FMMA_REJECTS \<equiv> 326"
abbreviation FMMA_FW_VERSION :: nat where "FMMA_FW_VERSION \<equiv> 327"
abbreviation FMMA_QUOTE_BID :: nat where "FMMA_QUOTE_BID \<equiv> 328"
abbreviation FMMA_QUOTE_ASK :: nat where "FMMA_QUOTE_ASK \<equiv> 329"

section \<open>The shared RAM\<close>

type_synonym ram = "nat \<Rightarrow> u32"

datatype access = Store nat u32 | Barrier

fun do_access :: "access \<Rightarrow> ram \<Rightarrow> ram" where
  "do_access (Store a v) m = m(a := v)"
| "do_access Barrier m = m"

fun run_accesses :: "access list \<Rightarrow> ram \<Rightarrow> ram" where
  "run_accesses [] m = m"
| "run_accesses (x # xs) m = run_accesses xs (do_access x m)"

text \<open>The words a list of accesses writes.\<close>

fun store_addrs :: "access list \<Rightarrow> nat set" where
  "store_addrs [] = {}"
| "store_addrs (Store a v # xs) = insert a (store_addrs xs)"
| "store_addrs (Barrier # xs) = store_addrs xs"

lemma run_accesses_append [simp]: "run_accesses (xs @ ys) m = run_accesses ys (run_accesses xs m)"
  by (induction xs arbitrary: m) simp_all

lemma store_addrs_append [simp]: "store_addrs (xs @ ys) = store_addrs xs \<union> store_addrs ys"
  by (induction xs rule: store_addrs.induct) simp_all

lemma run_accesses_frame [frame]: "a \<notin> store_addrs xs \<Longrightarrow> run_accesses xs m a = m a"
  by (induction xs arbitrary: m rule: store_addrs.induct) auto

end
