(* ===== verification/Fmma_Position.thy ===== *)
theory Fmma_Position
  imports Fmma_Protocol
begin

text \<open>
  The interface between a source of fills and the components that keep a position. The
  broker's fills arrive as a side, a quantity in lots and a price; the software strategy, the
  risk module and the CPU in the fabric each fold them into an inventory of their own, and
  the system is right only when the copies agree. The locale \<open>position_keeper\<close> states what
  a keeper promises about one fill; its lemmas are about whole fill sequences and are proved
  once.
\<close>

type_synonym fill = "u32 \<times> u32 \<times> int"

text \<open>
  The signed change of a fill: \<open>(int32_t) qty\<close> for a buy, its negation for anything else.
\<close>

definition fill_delta :: "u32 \<Rightarrow> u32 \<Rightarrow> int" where
  "fill_delta side qty = (if side = FMMA_FILL_BOUGHT then sint qty else - sint qty)"

fun net_fills :: "fill list \<Rightarrow> int" where
  "net_fills [] = 0"
| "net_fills ((side, qty, price) # fs) = fill_delta side qty + net_fills fs"

text \<open>The total quantity, whatever the side.\<close>

fun gross_fills :: "fill list \<Rightarrow> int" where
  "gross_fills [] = 0"
| "gross_fills ((side, qty, price) # fs) = \<bar>fill_delta side qty\<bar> + gross_fills fs"

definition in32 :: "int \<Rightarrow> bool" where
  "in32 x \<longleftrightarrow> - 2147483648 \<le> x \<and> x \<le> 2147483647"

lemma in32_s32 [simp]: "in32 (s32 x)"
  using s32_bounds [of x] by (simp add: in32_def)

definition in64 :: "int \<Rightarrow> bool" where
  "in64 x \<longleftrightarrow> - 9223372036854775808 \<le> x \<and> x \<le> 9223372036854775807"

lemma in64_s64 [simp]: "in64 (s64 x)"
  using s64_bounds [of x] by (simp add: in64_def)

lemma in64_0 [simp]: "in64 0"
  by (simp add: in64_def)

lemma s32_in32: "in32 x \<Longrightarrow> s32 x = x"
  by (simp add: in32_def s32_lim)

lemma s32_add_left: "s32 (s32 x + y) = s32 (x + y)"
  unfolding s32_def by (metis signed_take_bit_add signed_take_bit_signed_take_bit min.idem)

lemma s32_add_right: "s32 (x + s32 y) = s32 (x + y)"
  unfolding s32_def by (metis signed_take_bit_add signed_take_bit_signed_take_bit min.idem)

lemma gross_fills_ge: "\<bar>net_fills fs\<bar> \<le> gross_fills fs"
  by (induction fs rule: net_fills.induct) auto

text \<open>A keeper fed with a sequence of fills.\<close>

fun apply_fills :: "('s \<Rightarrow> u32 \<Rightarrow> u32 \<Rightarrow> int \<Rightarrow> 's) \<Rightarrow> 's \<Rightarrow> fill list \<Rightarrow> 's" where
  "apply_fills f s [] = s"
| "apply_fills f s ((side, qty, price) # fs) = apply_fills f (f s side qty price) fs"

locale position_keeper =
  fixes pos :: "'s \<Rightarrow> int" and apply_fill :: "'s \<Rightarrow> u32 \<Rightarrow> u32 \<Rightarrow> int \<Rightarrow> 's"
  assumes pos_fill: "in32 (pos s) \<Longrightarrow>
    pos (apply_fill s side qty price) = s32 (pos s + fill_delta side qty)"
begin

lemma pos_fills:
  "in32 (pos s) \<Longrightarrow> pos (apply_fills apply_fill s fs) = s32 (pos s + net_fills fs)"
proof (induction fs arbitrary: s rule: net_fills.induct)
  case (2 side qty price fs)
  then show ?case by (simp add: pos_fill s32_add_left add.assoc)
qed (simp add: s32_in32)

lemma pos_fills_exact:
  assumes "in32 (pos s)" "\<bar>pos s\<bar> + gross_fills fs \<le> 2147483647"
  shows "pos (apply_fills apply_fill s fs) = pos s + net_fills fs"
proof -
  have "in32 (pos s + net_fills fs)"
    using assms(2) gross_fills_ge [of fs] by (auto simp: in32_def)
  then show ?thesis using pos_fills [OF assms(1)] by (simp add: s32_in32)
qed

end

text \<open>Two keepers that are fed the same fills agree.\<close>

locale two_keepers =
  a: position_keeper pos_a fill_a + b: position_keeper pos_b fill_b
  for pos_a :: "'a \<Rightarrow> int" and fill_a and pos_b :: "'b \<Rightarrow> int" and fill_b
begin

lemma agree: "in32 (pos_a s) \<Longrightarrow> pos_a s = pos_b r \<Longrightarrow>
    pos_a (apply_fills fill_a s fs) = pos_b (apply_fills fill_b r fs)"
  by (simp add: a.pos_fills b.pos_fills)

end

end
