(* ===== verification/Fmma_Strategy.thy ===== *)
theory Fmma_Strategy
  imports Fmma_Position
begin

text \<open>
  The software strategy, \<open>Software/src/fmma_strategy.c\<close>: mean reversion on twice the mid
  price with a position limit. Its state is the C struct; prices are 32-bit words, the anchor
  an \<open>int64_t\<close>, the position an \<open>int32_t\<close>. The safety theorems are about runs: sequences
  of quotes, fills and changes of the master switch.
\<close>

section \<open>The code\<close>

record fmma_strategy =
  strat_anchor :: int
  strat_threshold :: u32
  strat_max_position :: u32
  strat_position :: int
  strat_enabled :: bool
  strat_rejects :: u64

definition fmma_strategy_init :: "u32 \<Rightarrow> u32 \<Rightarrow> int \<Rightarrow> fmma_strategy" where
  "fmma_strategy_init threshold max_position start_position =
     \<lparr>strat_anchor = 0, strat_threshold = threshold, strat_max_position = max_position,
      strat_position = start_position, strat_enabled = True, strat_rejects = 0\<rparr>"

text \<open>The band test: which side the move from the anchor asks for.\<close>

definition strategy_want :: "int \<Rightarrow> int \<Rightarrow> int \<Rightarrow> u32" where
  "strategy_want sm anchor band =
     (if sm < s64 (anchor - band) then FMMA_SIGNAL_BUY
      else if sm > s64 (anchor + band) then FMMA_SIGNAL_SELL
      else FMMA_SIGNAL_NONE)"

definition fmma_strategy_on_quote ::
    "fmma_strategy \<Rightarrow> u32 \<Rightarrow> u32 \<Rightarrow> fmma_strategy \<times> u32" where
  "fmma_strategy_on_quote s bid ask =
     (if bid = 0 \<or> ask = 0 then (s, FMMA_SIGNAL_NONE)
      else
        let sm = s64 (uint bid + uint ask);
            band = s64 (2 * uint (strat_threshold s))
        in if strat_anchor s = 0 then (s\<lparr>strat_anchor := sm\<rparr>, FMMA_SIGNAL_NONE)
        else
          let want = strategy_want sm (strat_anchor s) band;
              s1 = s\<lparr>strat_anchor := sm\<rparr>;
              rejected = (s1\<lparr>strat_rejects := strat_rejects s1 + 1\<rparr>, FMMA_SIGNAL_NONE)
          in if want = FMMA_SIGNAL_NONE then (s1, FMMA_SIGNAL_NONE)
          else if \<not> strat_enabled s1 then rejected
          else if want = FMMA_SIGNAL_BUY \<and> strat_position s1 \<ge> sint (strat_max_position s1) then rejected
          else if want = FMMA_SIGNAL_SELL \<and> strat_position s1 \<le> s32 (- sint (strat_max_position s1))
               then rejected
          else (s1, want))"

definition fmma_strategy_on_fill :: "fmma_strategy \<Rightarrow> u32 \<Rightarrow> u32 \<Rightarrow> fmma_strategy" where
  "fmma_strategy_on_fill s side qty =
     (if side = FMMA_FILL_BOUGHT
      then s\<lparr>strat_position := s32 (strat_position s + sint qty)\<rparr>
      else s\<lparr>strat_position := s32 (strat_position s - sint qty)\<rparr>)"

section \<open>What a quote does\<close>

text \<open>The anchor of a strategy that runs on 32-bit prices: at most the sum of two.\<close>

definition anchor_ok :: "fmma_strategy \<Rightarrow> bool" where
  "anchor_ok s \<longleftrightarrow> 0 \<le> strat_anchor s \<and> strat_anchor s < 2 ^ 33"

text \<open>A limit that is a nonnegative \<open>int32_t\<close>.\<close>

definition limit_ok :: "fmma_strategy \<Rightarrow> bool" where
  "limit_ok s \<longleftrightarrow> uint (strat_max_position s) < 2 ^ 31"

lemma quote_sum:
  "s64 (uint (bid::u32) + uint (ask::u32)) = uint bid + uint ask"
  "0 \<le> uint bid + uint ask" "uint bid + uint ask < 8589934592"
  using uint_u32_bounds [of bid] uint_u32_bounds [of ask] by ((intro s64_lim)?; linarith)+

lemma band_value: "s64 (2 * uint (t::u32)) = 2 * uint t"
  using uint_u32_bounds [of t] by (intro s64_lim) linarith+

lemma limit_values:
  assumes "limit_ok s"
  shows "sint (strat_max_position s) = uint (strat_max_position s)"
    "s32 (- uint (strat_max_position s)) = - uint (strat_max_position s)"
proof -
  have lt: "uint (strat_max_position s) < 2147483648" using assms by (simp add: limit_ok_def)
  then show "sint (strat_max_position s) = uint (strat_max_position s)"
    by (simp add: sint_u32_small)
  show "s32 (- uint (strat_max_position s)) = - uint (strat_max_position s)"
    using lt uint_u32_bounds(1) [of "strat_max_position s"] by (intro s32_lim) linarith+
qed

lemma strategy_want_exact:
  assumes "0 \<le> anchor" "anchor < 8589934592"
  shows "strategy_want sm anchor (2 * uint (t::u32)) =
    (if sm < anchor - 2 * uint t then FMMA_SIGNAL_BUY
     else if sm > anchor + 2 * uint t then FMMA_SIGNAL_SELL else FMMA_SIGNAL_NONE)"
proof -
  have "s64 (anchor - 2 * uint t) = anchor - 2 * uint t" "s64 (anchor + 2 * uint t) = anchor + 2 * uint t"
    using assms uint_u32_bounds [of t] by (intro s64_lim; linarith)+
  then show ?thesis by (simp only: strategy_want_def)
qed

lemma on_quote_frame [frame]:
  "strat_threshold (fst (fmma_strategy_on_quote s b a)) = strat_threshold s"
  "strat_max_position (fst (fmma_strategy_on_quote s b a)) = strat_max_position s"
  "strat_position (fst (fmma_strategy_on_quote s b a)) = strat_position s"
  "strat_enabled (fst (fmma_strategy_on_quote s b a)) = strat_enabled s"
  by (auto simp: fmma_strategy_on_quote_def Let_def)

lemma on_fill_frame [frame]:
  "strat_threshold (fmma_strategy_on_fill s side q) = strat_threshold s"
  "strat_max_position (fmma_strategy_on_fill s side q) = strat_max_position s"
  "strat_anchor (fmma_strategy_on_fill s side q) = strat_anchor s"
  "strat_enabled (fmma_strategy_on_fill s side q) = strat_enabled s"
  "strat_rejects (fmma_strategy_on_fill s side q) = strat_rejects s"
  by (auto simp: fmma_strategy_on_fill_def)

lemma on_quote_anchor:
  "strat_anchor (fst (fmma_strategy_on_quote s b a)) =
     (if b = 0 \<or> a = 0 then strat_anchor s else uint b + uint a)"
  by (auto simp: fmma_strategy_on_quote_def Let_def quote_sum)

lemma anchor_ok_init [simp]: "anchor_ok (fmma_strategy_init t m p)"
  by (simp add: anchor_ok_def fmma_strategy_init_def)

lemma anchor_ok_quote: "anchor_ok s \<Longrightarrow> anchor_ok (fst (fmma_strategy_on_quote s b a))"
  using quote_sum(2,3) [of b a] by (simp add: anchor_ok_def on_quote_anchor)

lemma anchor_ok_fill: "anchor_ok s \<Longrightarrow> anchor_ok (fmma_strategy_on_fill s side q)"
  by (simp add: anchor_ok_def frame)

text \<open>
  The decision in plain integers. The specification has no machine arithmetic: it is the
  strategy as \<open>docs/08-trading-strategy.md\<close> states it.
\<close>

datatype decision = Buy | Sell | Hold | Rejected

definition decide :: "int \<Rightarrow> int \<Rightarrow> int \<Rightarrow> int \<Rightarrow> int \<Rightarrow> bool \<Rightarrow> decision" where
  "decide anchor sm thresh pos limit on =
     (if anchor = 0 \<or> \<bar>sm - anchor\<bar> \<le> 2 * thresh then Hold
      else if \<not> on then Rejected
      else if sm < anchor then (if pos < limit then Buy else Rejected)
      else (if - limit < pos then Sell else Rejected))"

fun signal_of :: "decision \<Rightarrow> u32" where
  "signal_of Buy = FMMA_SIGNAL_BUY"
| "signal_of Sell = FMMA_SIGNAL_SELL"
| "signal_of Hold = FMMA_SIGNAL_NONE"
| "signal_of Rejected = FMMA_SIGNAL_NONE"

abbreviation quote_decision :: "fmma_strategy \<Rightarrow> u32 \<Rightarrow> u32 \<Rightarrow> decision" where
  "quote_decision s b a \<equiv>
     decide (strat_anchor s) (uint b + uint a) (uint (strat_threshold s)) (strat_position s)
       (uint (strat_max_position s)) (strat_enabled s)"

lemma on_quote_decides:
  assumes "anchor_ok s" "limit_ok s" "b \<noteq> 0" "a \<noteq> 0"
  shows "fmma_strategy_on_quote s b a =
    (s\<lparr>strat_anchor := uint b + uint a,
       strat_rejects := strat_rejects s + (if quote_decision s b a = Rejected then 1 else 0)\<rparr>,
     signal_of (quote_decision s b a))"
proof -
  define sm t n where "sm = uint b + uint a" and "t = uint (strat_threshold s)"
    and "n = uint (strat_max_position s)"
  have t: "0 \<le> t" by (simp add: t_def)
  have want: "strategy_want sm (strat_anchor s) (2 * t) =
    (if sm < strat_anchor s - 2 * t then FMMA_SIGNAL_BUY
     else if sm > strat_anchor s + 2 * t then FMMA_SIGNAL_SELL else FMMA_SIGNAL_NONE)"
    unfolding t_def using assms(1) by (intro strategy_want_exact) (simp_all add: anchor_ok_def)
  have lim: "sint (strat_max_position s) = n" "s32 (- n) = - n"
    using limit_values [OF assms(2)] by (simp_all add: n_def)
  have sm: "s64 (uint b + uint a) = sm" "s64 (2 * uint (strat_threshold s)) = 2 * t"
    by (simp_all add: sm_def t_def quote_sum band_value)
  have sm': "s64 sm = sm" "s64 (2 * t) = 2 * t"
    unfolding sm_def t_def by (rule quote_sum(1), rule band_value)
  consider (first) "strat_anchor s = 0" | (flat) "strat_anchor s \<noteq> 0" "\<bar>sm - strat_anchor s\<bar> \<le> 2 * t"
    | (down) "strat_anchor s \<noteq> 0" "sm < strat_anchor s - 2 * t"
    | (up) "strat_anchor s \<noteq> 0" "sm > strat_anchor s + 2 * t" by linarith
  then show ?thesis
  proof cases
    case first
    then show ?thesis using assms(3,4)
      by (simp add: fmma_strategy_on_quote_def Let_def sm decide_def sm_def)
  next
    case flat
    then have "\<not> sm < strat_anchor s - 2 * t" "\<not> sm > strat_anchor s + 2 * t" by linarith+
    then have "strategy_want sm (strat_anchor s) (2 * t) = FMMA_SIGNAL_NONE" using want by simp
    then show ?thesis using assms(3,4) flat
      by (simp add: fmma_strategy_on_quote_def Let_def sm decide_def sm_def t_def)
  next
    case down
    then have "strategy_want sm (strat_anchor s) (2 * t) = FMMA_SIGNAL_BUY" using want by simp
    moreover have "\<not> \<bar>sm - strat_anchor s\<bar> \<le> 2 * t" "sm < strat_anchor s" using down t by linarith+
    ultimately show ?thesis using assms(3,4) down
      by (simp add: fmma_strategy_on_quote_def Let_def sm' lim decide_def
            flip: sm_def t_def n_def)
  next
    case up
    then have "strategy_want sm (strat_anchor s) (2 * t) = FMMA_SIGNAL_SELL" using want t by simp
    moreover have "\<not> \<bar>sm - strat_anchor s\<bar> \<le> 2 * t" "\<not> sm < strat_anchor s" using up t by linarith+
    ultimately show ?thesis using assms(3,4) up
      by (simp add: fmma_strategy_on_quote_def Let_def sm' lim decide_def
            flip: sm_def t_def n_def)
  qed
qed

section \<open>Fills\<close>

lemma strategy_fill_position:
  "strat_position (fmma_strategy_on_fill s side qty) = s32 (strat_position s + fill_delta side qty)"
  by (simp add: fmma_strategy_on_fill_def fill_delta_def)

abbreviation strategy_fill :: "fmma_strategy \<Rightarrow> u32 \<Rightarrow> u32 \<Rightarrow> int \<Rightarrow> fmma_strategy" where
  "strategy_fill s side qty price \<equiv> fmma_strategy_on_fill s side qty"

interpretation strategy_pos: position_keeper strat_position strategy_fill
  by unfold_locales (rule strategy_fill_position)

section \<open>Runs\<close>

text \<open>
  A run feeds the strategy quotes and fills in some order; its output is the list of signals,
  one per quote.
\<close>

datatype strat_event = Quote u32 u32 | Fill u32 u32

fun strat_run :: "fmma_strategy \<Rightarrow> strat_event list \<Rightarrow> fmma_strategy \<times> u32 list" where
  "strat_run s [] = (s, [])"
| "strat_run s (Quote b a # es) =
     (let (s1, x) = fmma_strategy_on_quote s b a; (s2, xs) = strat_run s1 es in (s2, x # xs))"
| "strat_run s (Fill side qty # es) = strat_run (fmma_strategy_on_fill s side qty) es"

text \<open>
  The abstract machine: the last two-sided quote (none at first), the inventory and the number
  of refused decisions, all unbounded, with the limit and the threshold fixed.
\<close>

record spec_state =
  spec_last :: "int option"
  spec_position :: int
  spec_rejects :: nat

definition spec_decide :: "int \<Rightarrow> int \<Rightarrow> bool \<Rightarrow> spec_state \<Rightarrow> int \<Rightarrow> decision" where
  "spec_decide t limit on \<sigma> sm =
     (case spec_last \<sigma> of None \<Rightarrow> Hold | Some prev \<Rightarrow> decide prev sm t (spec_position \<sigma>) limit on)"

fun spec_run :: "int \<Rightarrow> int \<Rightarrow> bool \<Rightarrow> spec_state \<Rightarrow> strat_event list \<Rightarrow> spec_state \<times> decision list" where
  "spec_run t limit on \<sigma> [] = (\<sigma>, [])"
| "spec_run t limit on \<sigma> (Quote b a # es) =
     (if b = 0 \<or> a = 0 then let (\<sigma>', ds) = spec_run t limit on \<sigma> es in (\<sigma>', Hold # ds)
      else
        let d = spec_decide t limit on \<sigma> (uint b + uint a);
            (\<sigma>', ds) = spec_run t limit on
              (\<sigma>\<lparr>spec_last := Some (uint b + uint a),
                 spec_rejects := spec_rejects \<sigma> + (if d = Rejected then 1 else 0)\<rparr>) es
        in (\<sigma>', d # ds))"
| "spec_run t limit on \<sigma> (Fill side qty # es) =
     spec_run t limit on (\<sigma>\<lparr>spec_position := spec_position \<sigma> + fill_delta side qty\<rparr>) es"

definition strat_abs :: "fmma_strategy \<Rightarrow> spec_state" where
  "strat_abs s =
     \<lparr>spec_last = (if strat_anchor s = 0 then None else Some (strat_anchor s)),
      spec_position = strat_position s, spec_rejects = unat (strat_rejects s)\<rparr>"

text \<open>The lots a run moves, an upper bound of how far the position can travel.\<close>

fun run_lots :: "strat_event list \<Rightarrow> int" where
  "run_lots [] = 0"
| "run_lots (Quote b a # es) = run_lots es"
| "run_lots (Fill side qty # es) = \<bar>fill_delta side qty\<bar> + run_lots es"

lemma run_lots_nonneg: "0 \<le> run_lots es"
  by (induction es rule: run_lots.induct) auto

lemma abs_quote:
  assumes "anchor_ok s" "limit_ok s" "b \<noteq> 0" "a \<noteq> 0" "unat (strat_rejects s) + 1 < 2 ^ 64"
  shows "strat_abs (fst (fmma_strategy_on_quote s b a)) =
      (strat_abs s)\<lparr>spec_last := Some (uint b + uint a),
        spec_rejects := unat (strat_rejects s) + (if quote_decision s b a = Rejected then 1 else 0)\<rparr>"
    "spec_decide (uint (strat_threshold s)) (uint (strat_max_position s)) (strat_enabled s)
       (strat_abs s) (uint b + uint a) = quote_decision s b a"
proof -
  have "uint b + uint a \<noteq> 0"
    using assms(3) uint_u32_bounds(1) [of b] uint_u32_bounds(1) [of a]
    by (auto simp: add_nonneg_eq_0_iff uint_0_iff)
  moreover have "unat (strat_rejects s + 1) = unat (strat_rejects s) + 1"
    using assms(5) by (simp add: unat_word_ariths)
  ultimately show "strat_abs (fst (fmma_strategy_on_quote s b a)) =
      (strat_abs s)\<lparr>spec_last := Some (uint b + uint a),
        spec_rejects := unat (strat_rejects s) + (if quote_decision s b a = Rejected then 1 else 0)\<rparr>"
    unfolding on_quote_decides [OF assms(1-4)] by (simp add: strat_abs_def)
  show "spec_decide (uint (strat_threshold s)) (uint (strat_max_position s)) (strat_enabled s)
       (strat_abs s) (uint b + uint a) = quote_decision s b a"
    by (simp add: spec_decide_def strat_abs_def decide_def)
qed

text \<open>
  C5. Refinement over whole runs: fed any sequence of quotes and fills, the C strategy with
  its 64-bit anchor, 32-bit position and 64-bit reject counter emits exactly the signals of
  the abstract machine and ends in a state that represents its state, provided the limit is a
  nonnegative \<open>int32_t\<close>, the run moves fewer than \<open>2 ^ 31\<close> lots and the reject counter does
  not run over. In particular no quote, threshold or anchor makes the band arithmetic wrap.
\<close>

theorem strategy_run_refines:
  assumes "anchor_ok s" "limit_ok s" "\<bar>strat_position s\<bar> + run_lots es \<le> 2147483647"
    "unat (strat_rejects s) + length es < 2 ^ 64"
  shows "strat_abs (fst (strat_run s es)) =
      fst (spec_run (uint (strat_threshold s)) (uint (strat_max_position s)) (strat_enabled s)
             (strat_abs s) es)
    \<and> snd (strat_run s es) = map signal_of
      (snd (spec_run (uint (strat_threshold s)) (uint (strat_max_position s)) (strat_enabled s)
             (strat_abs s) es))"
  using assms
proof (induction es arbitrary: s rule: run_lots.induct)
  case 1
  then show ?case by simp
next
  case (2 b a es)
  show ?case
  proof (cases "b = 0 \<or> a = 0")
    case True
    then have "fmma_strategy_on_quote s b a = (s, 0)" by (simp add: fmma_strategy_on_quote_def)
    then show ?thesis using True 2 by (simp add: split_beta)
  next
    case False
    let ?s = "fst (fmma_strategy_on_quote s b a)"
    have r: "unat (strat_rejects s) + 1 < 2 ^ 64" using "2.prems"(4) by simp
    note q = abs_quote [OF "2.prems"(1,2) _ _ r, of b a]
    have out: "snd (fmma_strategy_on_quote s b a) = signal_of (quote_decision s b a)"
      using False by (simp add: on_quote_decides [OF "2.prems"(1,2)])
    have "unat (strat_rejects ?s) \<le> unat (strat_rejects s) + 1"
      using q(1) False by (simp add: strat_abs_def split: if_splits)
    then have "unat (strat_rejects ?s) + length es < 2 ^ 64" using "2.prems"(4) by simp
    moreover have "limit_ok ?s" using "2.prems"(2) by (simp add: limit_ok_def frame)
    moreover have "\<bar>strat_position ?s\<bar> + run_lots es \<le> 2147483647"
      using "2.prems"(3) by (simp add: frame)
    ultimately have "strat_abs (fst (strat_run ?s es)) =
      fst (spec_run (uint (strat_threshold s)) (uint (strat_max_position s)) (strat_enabled s)
             (strat_abs ?s) es)
    \<and> snd (strat_run ?s es) = map signal_of
      (snd (spec_run (uint (strat_threshold s)) (uint (strat_max_position s)) (strat_enabled s)
             (strat_abs ?s) es))"
      using "2.IH" [OF anchor_ok_quote [OF "2.prems"(1), of b a]] by (simp add: frame)
    then show ?thesis using False out q
      by (simp add: split_beta Let_def strat_abs_def)
  qed
next
  case (3 side qty es)
  let ?s = "fmma_strategy_on_fill s side qty"
  have "\<bar>strat_position s + fill_delta side qty\<bar> + run_lots es \<le> 2147483647"
    using "3.prems"(3) by simp
  moreover from this have "strat_position ?s = strat_position s + fill_delta side qty"
    using run_lots_nonneg [of es] by (simp add: strategy_fill_position s32_lim)
  ultimately show ?case
    using "3.IH" [OF anchor_ok_fill [OF "3.prems"(1), of side qty]] "3.prems"(2,4)
    by (simp add: frame limit_ok_def strat_abs_def)
qed

theorem strategy_run_refines_witness:
  "snd (strat_run (fmma_strategy_init 100 1 0)
     [Quote 10000 10010, Quote 9800 9810, Fill 1 1, Quote 9600 9610, Quote 9900 9910, Fill 2 1]) =
   map signal_of [Hold, Buy, Rejected, Sell]"
proof -
  let ?s = "fmma_strategy_init 100 1 0"
  let ?es = "[Quote 10000 10010, Quote 9800 9810, Fill 1 1, Quote 9600 9610, Quote 9900 9910, Fill 2 1]"
  have "snd (spec_run (uint (strat_threshold ?s)) (uint (strat_max_position ?s)) (strat_enabled ?s)
      (strat_abs ?s) ?es) = [Hold, Buy, Rejected, Sell]"
    by (simp add: fmma_strategy_init_def strat_abs_def spec_decide_def decide_def Let_def fill_delta_def)
  then show ?thesis
    using strategy_run_refines [of ?s ?es]
    by (simp add: anchor_ok_def limit_ok_def fmma_strategy_init_def fill_delta_def)
qed

text \<open>
  When exactly the strategy signals: a buy is signalled if and only if both sides of the
  book are present, there is an earlier quote, the mid fell by more than the threshold since
  it, trading is enabled and the position is below the limit; a sell is the mirror image with
  the position above minus the limit. So the position limit never blocks the reducing side.
\<close>

theorem strategy_signal_iff:
  assumes "anchor_ok s" "limit_ok s"
  shows "(snd (fmma_strategy_on_quote s b a) = FMMA_SIGNAL_BUY \<longleftrightarrow>
      b \<noteq> 0 \<and> a \<noteq> 0 \<and> strat_anchor s \<noteq> 0 \<and> strat_enabled s \<and>
      strat_position s < uint (strat_max_position s) \<and>
      strat_anchor s - (uint b + uint a) > 2 * uint (strat_threshold s)) \<and>
    (snd (fmma_strategy_on_quote s b a) = FMMA_SIGNAL_SELL \<longleftrightarrow>
      b \<noteq> 0 \<and> a \<noteq> 0 \<and> strat_anchor s \<noteq> 0 \<and> strat_enabled s \<and>
      strat_position s > - uint (strat_max_position s) \<and>
      (uint b + uint a) - strat_anchor s > 2 * uint (strat_threshold s))"
proof (cases "b = 0 \<or> a = 0")
  case True
  then show ?thesis by (auto simp: fmma_strategy_on_quote_def)
next
  case False
  then have eq: "snd (fmma_strategy_on_quote s b a) = signal_of (quote_decision s b a)"
    by (simp add: on_quote_decides [OF assms])
  obtain t where t: "uint (strat_threshold s) = t" "0 \<le> t" by simp
  show ?thesis unfolding eq t(1) using False t(2) by (auto simp: decide_def)
qed

theorem strategy_signal_iff_witness:
  "snd (fmma_strategy_on_quote (fst (fmma_strategy_on_quote (fmma_strategy_init 100 1 0) 10000 10010)) 9800 9810)
     = FMMA_SIGNAL_BUY"
proof -
  let ?s = "fst (fmma_strategy_on_quote (fmma_strategy_init 100 1 0) 10000 10010)"
  have "anchor_ok ?s" by (intro anchor_ok_quote) simp
  moreover have "limit_ok ?s" by (simp add: limit_ok_def frame) (simp add: fmma_strategy_init_def)
  moreover have "strat_anchor ?s = 20010" by (simp add: on_quote_anchor)
  ultimately show ?thesis
    using strategy_signal_iff [of ?s 9800 9810]
    by (simp add: frame) (simp add: fmma_strategy_init_def)
qed

text \<open>
  One move fires once: whatever the state, a quote that repeats the previous one never
  signals and is never counted as a refused decision.
\<close>

theorem strategy_fires_once:
  "fmma_strategy_on_quote (fst (fmma_strategy_on_quote s b a)) b a =
     (fst (fmma_strategy_on_quote s b a), FMMA_SIGNAL_NONE)"
proof (cases "b = 0 \<or> a = 0")
  case True
  then show ?thesis by (simp add: fmma_strategy_on_quote_def)
next
  case False
  let ?s = "fst (fmma_strategy_on_quote s b a)"
  have an: "strat_anchor ?s = uint b + uint a" using False by (simp add: on_quote_anchor)
  have "strategy_want (uint b + uint a) (uint b + uint a) (2 * uint (strat_threshold ?s)) = FMMA_SIGNAL_NONE"
    using quote_sum(2,3) [of b a] uint_u32_bounds(1) [of "strat_threshold ?s"]
    by (subst strategy_want_exact) auto
  then have "fmma_strategy_on_quote ?s b a = (?s\<lparr>strat_anchor := uint b + uint a\<rparr>, FMMA_SIGNAL_NONE)"
    unfolding fmma_strategy_on_quote_def [of ?s] using False
    by (simp add: Let_def an quote_sum band_value)
  then show ?thesis by (simp flip: an)
qed

end
