(* ===== verification/Fmma_Risk.thy ===== *)
theory Fmma_Risk
  imports Fmma_Position
begin

text \<open>
  Host-side risk, \<open>Software/src/fmma_risk.c\<close>: average-cost profit and loss, the loss limit and
  the stale-feed watchdog. All arithmetic is that of \<open>int64_t\<close>, \<open>int32_t\<close> and, for \<open>labs\<close> and
  the casts to \<open>long\<close>, of the 32-bit \<open>long\<close> of the target. Log lines are omitted; the one-line
  summary is the string it prints.
\<close>

section \<open>The code\<close>

datatype fmma_risk_verdict = FMMA_RISK_OK | FMMA_RISK_LOSS_LIMIT | FMMA_RISK_STALE_FEED | FMMA_RISK_HALTED

record fmma_risk =
  risk_position :: int
  risk_avg_price :: int
  risk_realised :: int
  risk_unrealised :: int
  risk_max_loss :: int
  risk_stale_feed_ms :: u32
  risk_halted :: bool
  risk_halt_reason :: "string option"

definition fmma_risk_init :: "int \<Rightarrow> u32 \<Rightarrow> int \<Rightarrow> fmma_risk" where
  "fmma_risk_init max_loss stale_feed_ms start_position =
     \<lparr>risk_position = start_position, risk_avg_price = 0, risk_realised = 0, risk_unrealised = 0,
      risk_max_loss = max_loss, risk_stale_feed_ms = stale_feed_ms, risk_halted = False,
      risk_halt_reason = None\<rparr>"

definition labs :: "int \<Rightarrow> int" where
  "labs x = s32 \<bar>x\<bar>"

definition fmma_risk_on_fill :: "fmma_risk \<Rightarrow> u32 \<Rightarrow> u32 \<Rightarrow> int \<Rightarrow> fmma_risk" where
  "fmma_risk_on_fill r side qty price =
     (if qty = 0 then r
      else
        let signed_qty = (if side = FMMA_FILL_BOUGHT then sint qty else s32 (- sint qty));
            old = risk_position r;
            newpos = s32 (old + signed_qty);
            adding = (old = 0 \<or> ((old > 0) = (signed_qty > 0)));
            r1 =
             (if adding then
                let total = s64 (s64 (risk_avg_price r * labs old) + s64 (price * sint qty));
                    units = s32 (labs old + sint qty)
                in r\<lparr>risk_avg_price := (if units \<noteq> 0 then s64 (cdiv total units) else 0)\<rparr>
              else
                let closed = (if labs signed_qty < labs old then labs signed_qty else labs old);
                    per_lot = (if old > 0 then s64 (price - risk_avg_price r)
                               else s64 (risk_avg_price r - price));
                    r' = r\<lparr>risk_realised := s64 (risk_realised r + s64 (per_lot * closed))\<rparr>
                in if (old > 0) \<noteq> (newpos > 0) \<and> newpos \<noteq> 0 then r'\<lparr>risk_avg_price := price\<rparr>
                   else if newpos = 0 then r'\<lparr>risk_avg_price := 0\<rparr>
                   else r')
        in r1\<lparr>risk_position := newpos\<rparr>)"

definition fmma_risk_mark :: "fmma_risk \<Rightarrow> int \<Rightarrow> fmma_risk" where
  "fmma_risk_mark r mid =
     (if risk_position r = 0 \<or> risk_avg_price r = 0 then r\<lparr>risk_unrealised := 0\<rparr>
      else r\<lparr>risk_unrealised := s64 (s64 (mid - risk_avg_price r) * risk_position r)\<rparr>)"

definition fmma_risk_pnl :: "fmma_risk \<Rightarrow> int" where
  "fmma_risk_pnl r = s64 (risk_realised r + risk_unrealised r)"

definition fmma_risk_halt :: "fmma_risk \<Rightarrow> string \<Rightarrow> fmma_risk" where
  "fmma_risk_halt r reason =
     (if \<not> risk_halted r then r\<lparr>risk_halted := True, risk_halt_reason := Some reason\<rparr> else r)"

definition fmma_risk_check :: "fmma_risk \<Rightarrow> u64 \<Rightarrow> fmma_risk \<times> fmma_risk_verdict" where
  "fmma_risk_check r feed_age_us =
     (if risk_halted r then (r, FMMA_RISK_HALTED)
      else if risk_max_loss r > 0 \<and> fmma_risk_pnl r \<le> s64 (- risk_max_loss r)
        then (fmma_risk_halt r ''loss limit reached'', FMMA_RISK_LOSS_LIMIT)
      else if risk_stale_feed_ms r > 0 \<and> feed_age_us > ucast (risk_stale_feed_ms r) * 1000
        then (r, FMMA_RISK_STALE_FEED)
      else (r, FMMA_RISK_OK))"

fun fmma_risk_verdict_text :: "fmma_risk_verdict \<Rightarrow> string" where
  "fmma_risk_verdict_text FMMA_RISK_OK = ''ok''"
| "fmma_risk_verdict_text FMMA_RISK_LOSS_LIMIT = ''loss limit reached''"
| "fmma_risk_verdict_text FMMA_RISK_STALE_FEED = ''market data is stale''"
| "fmma_risk_verdict_text FMMA_RISK_HALTED = ''halted''"

definition fmma_risk_report :: "fmma_risk \<Rightarrow> string" where
  "fmma_risk_report r =
     ''  position '' @ fmt_int (risk_position r) @ '' lots @ '' @ fmt_int (risk_avg_price r) @
     ''   P&L realised '' @ fmt_int (risk_realised r) @ ''  unrealised '' @ fmt_int (risk_unrealised r) @
     ''  total '' @ fmt_int (fmma_risk_pnl r) @ (if risk_halted r then ''   [HALTED]'' else '''') @ nl"

section \<open>One fill\<close>

lemma risk_fill_position:
  assumes "in32 (risk_position r)"
  shows "risk_position (fmma_risk_on_fill r side qty price) = s32 (risk_position r + fill_delta side qty)"
  using assms by (auto simp: fmma_risk_on_fill_def Let_def fill_delta_def s32_add_right s32_in32)

interpretation risk_pos: position_keeper risk_position fmma_risk_on_fill
  by unfold_locales (rule risk_fill_position)

lemma on_fill_keeps [frame]:
  "risk_halted (fmma_risk_on_fill r side qty price) = risk_halted r"
  "risk_halt_reason (fmma_risk_on_fill r side qty price) = risk_halt_reason r"
  "risk_max_loss (fmma_risk_on_fill r side qty price) = risk_max_loss r"
  "risk_stale_feed_ms (fmma_risk_on_fill r side qty price) = risk_stale_feed_ms r"
  "risk_unrealised (fmma_risk_on_fill r side qty price) = risk_unrealised r"
  by (auto simp: fmma_risk_on_fill_def Let_def)

lemma mark_keeps [frame]:
  "risk_halted (fmma_risk_mark r mid) = risk_halted r"
  "risk_halt_reason (fmma_risk_mark r mid) = risk_halt_reason r"
  "risk_position (fmma_risk_mark r mid) = risk_position r"
  "risk_avg_price (fmma_risk_mark r mid) = risk_avg_price r"
  "risk_realised (fmma_risk_mark r mid) = risk_realised r"
  by (auto simp: fmma_risk_mark_def)

section \<open>The accounting in plain integers\<close>

text \<open>
  What the books should say after a fill, without machine arithmetic: a book is a position,
  the average entry price and the realised profit.
\<close>

type_synonym book = "int \<times> int \<times> int"

definition book_fill :: "book \<Rightarrow> int \<Rightarrow> int \<Rightarrow> book" where
  "book_fill bk d price =
     (case bk of (p, avg, rl) \<Rightarrow>
        if d = 0 then bk
        else if p = 0 \<or> (p > 0) = (d > 0)
          then (p + d, (avg * \<bar>p\<bar> + price * \<bar>d\<bar>) div (\<bar>p\<bar> + \<bar>d\<bar>), rl)
        else
          (p + d,
           if p + d = 0 then 0 else if (p > 0) = (p + d > 0) then avg else price,
           rl + (price - avg) * (if \<bar>d\<bar> < \<bar>p\<bar> then - d else p)))"

abbreviation book_of :: "fmma_risk \<Rightarrow> book" where
  "book_of r \<equiv> (risk_position r, risk_avg_price r, risk_realised r)"

text \<open>
  Sound books: the average is a price, zero exactly when flat, and the position and the
  realised profit are bounded by the lots \<open>K\<close> traded so far.
\<close>

definition book_ok :: "int \<Rightarrow> book \<Rightarrow> bool" where
  "book_ok K bk = (case bk of (p, avg, rl) \<Rightarrow>
     \<bar>p\<bar> \<le> K \<and> 0 \<le> avg \<and> avg < 2147483648 \<and> (avg = 0 \<longleftrightarrow> p = 0) \<and> \<bar>rl\<bar> \<le> K * 2147483648)"

lemma avg_bounds:
  fixes a b m n :: int
  assumes "0 \<le> m" "0 < n" "1 \<le> b" "b < 2147483648" "0 \<le> a" "a < 2147483648" "m \<noteq> 0 \<longrightarrow> 1 \<le> a"
  shows "1 \<le> (a * m + b * n) div (m + n)" "(a * m + b * n) div (m + n) < 2147483648"
    "m + n \<le> a * m + b * n" "a * m + b * n \<le> 2147483647 * (m + n)"
proof -
  have "m \<le> a * m" using assms by (cases "m = 0") (auto simp: mult_le_cancel_right1)
  moreover have "n \<le> b * n" using assms by (simp add: mult_le_cancel_right1)
  ultimately show lo: "m + n \<le> a * m + b * n" by linarith
  have "a * m \<le> 2147483647 * m" using assms by (intro mult_right_mono) auto
  moreover have "b * n \<le> 2147483647 * n" using assms by (intro mult_right_mono) auto
  ultimately show hi: "a * m + b * n \<le> 2147483647 * (m + n)" by (simp add: algebra_simps)
  show "1 \<le> (a * m + b * n) div (m + n)"
  proof -
    have "0 < (a * m + b * n) div (m + n)" using lo assms(1,2) by (simp add: pos_imp_zdiv_pos_iff)
    then show ?thesis by linarith
  qed
  show "(a * m + b * n) div (m + n) < 2147483648"
  proof -
    have "(a * m + b * n) div (m + n) \<le> (2147483647 * (m + n)) div (m + n)"
      using hi assms(1,2) by (intro zdiv_mono1) auto
    also have "\<dots> = 2147483647" using assms(1,2) by (intro nonzero_mult_div_cancel_right) auto
    finally show ?thesis by simp
  qed
qed

lemma close_bound:
  fixes price avg c :: int
  assumes "0 \<le> avg" "avg < 2147483648" "1 \<le> price" "price < 2147483648" "0 \<le> c"
  shows "\<bar>(price - avg) * c\<bar> \<le> 2147483648 * c"
proof -
  have "\<bar>price - avg\<bar> * \<bar>c\<bar> \<le> 2147483648 * \<bar>c\<bar>" using assms by (intro mult_right_mono) auto
  then show ?thesis using assms(5) by (simp add: abs_mult)
qed

lemma book_fill_ok:
  assumes "book_ok K bk" "1 \<le> price" "price < 2147483648"
  shows "book_ok (K + \<bar>d\<bar>) (book_fill bk d price)"
proof -
  obtain p avg rl where bk: "bk = (p, avg, rl)" by (cases bk)
  have ok: "\<bar>p\<bar> \<le> K" "0 \<le> avg" "avg < 2147483648" "avg = 0 \<longleftrightarrow> p = 0" "\<bar>rl\<bar> \<le> K * 2147483648"
    using assms(1) by (simp_all add: book_ok_def bk)
  consider "d = 0" | (add) "d \<noteq> 0" "p = 0 \<or> (p > 0) = (d > 0)"
    | (close) "d \<noteq> 0" "p \<noteq> 0" "(p > 0) \<noteq> (d > 0)" by blast
  then show ?thesis
  proof cases
    case 1
    then show ?thesis using assms(1) by (simp add: book_fill_def bk)
  next
    case add
    note a = avg_bounds [of "\<bar>p\<bar>" "\<bar>d\<bar>" price avg]
    have "1 \<le> (avg * \<bar>p\<bar> + price * \<bar>d\<bar>) div (\<bar>p\<bar> + \<bar>d\<bar>)"
      "(avg * \<bar>p\<bar> + price * \<bar>d\<bar>) div (\<bar>p\<bar> + \<bar>d\<bar>) < 2147483648"
      using a(1,2) add ok assms(2,3) by auto
    moreover have "p + d \<noteq> 0" "\<bar>p + d\<bar> \<le> K + \<bar>d\<bar>" using add ok(1) by auto
    moreover have "\<bar>rl\<bar> \<le> (K + \<bar>d\<bar>) * 2147483648" using ok(5) by (simp add: algebra_simps)
    ultimately show ?thesis using add by (simp add: book_fill_def book_ok_def bk)
  next
    case close
    define c where "c = (if \<bar>d\<bar> < \<bar>p\<bar> then - d else p)"
    have "\<bar>c\<bar> \<le> \<bar>d\<bar>" by (auto simp: c_def)
    moreover have "\<bar>(price - avg) * c\<bar> \<le> 2147483648 * \<bar>c\<bar>"
      using close_bound [of avg price "\<bar>c\<bar>"] ok assms by (simp add: abs_mult)
    ultimately have "\<bar>rl + (price - avg) * c\<bar> \<le> K * 2147483648 + 2147483648 * \<bar>d\<bar>"
      using ok(5) by linarith
    then have rl: "\<bar>rl + (price - avg) * c\<bar> \<le> (K + \<bar>d\<bar>) * 2147483648"
      by (simp add: algebra_simps)
    have "book_fill bk d price =
        (p + d, if p + d = 0 then 0 else if (p > 0) = (p + d > 0) then avg else price, rl + (price - avg) * c)"
      using close by (simp add: book_fill_def bk c_def)
    moreover have "\<bar>p + d\<bar> \<le> K + \<bar>d\<bar>" using ok(1) by auto
    ultimately show ?thesis using rl ok(2-4) assms(2,3) close(2) by (simp add: book_ok_def)
  qed
qed

text \<open>In those bounds the C code computes exactly the plain books.\<close>

lemma labs_id: "\<bar>x\<bar> \<le> 2147483647 \<Longrightarrow> labs x = \<bar>x\<bar>"
  by (simp add: labs_def s32_lim)

lemma fill_delta_small:
  assumes "uint (qty::u32) < 2147483648"
  shows "sint qty = uint qty" "\<bar>fill_delta side qty\<bar> = uint qty"
    "(if side = FMMA_FILL_BOUGHT then sint qty else s32 (- sint qty)) = fill_delta side qty"
proof -
  show eq: "sint qty = uint qty" using assms by (simp add: sint_u32_small)
  then show "\<bar>fill_delta side qty\<bar> = uint qty" by (simp add: fill_delta_def)
  have "s32 (- uint qty) = - uint qty"
    using assms uint_u32_bounds(1) [of qty] by (intro s32_lim) linarith+
  then show "(if side = FMMA_FILL_BOUGHT then sint qty else s32 (- sint qty)) = fill_delta side qty"
    by (simp add: fill_delta_def eq)
qed

lemma fill_book:
  assumes "book_ok K (book_of r)" "K + uint qty \<le> 2147483647" "1 \<le> price" "price < 2147483648"
  shows "book_of (fmma_risk_on_fill r side qty price) = book_fill (book_of r) (fill_delta side qty) price"
proof -
  define p avg rl d where "p = risk_position r" and "avg = risk_avg_price r" and "rl = risk_realised r"
    and "d = fill_delta side qty"
  have ok: "\<bar>p\<bar> \<le> K" "0 \<le> avg" "avg < 2147483648" "avg = 0 \<longleftrightarrow> p = 0" "\<bar>rl\<bar> \<le> K * 2147483648"
    using assms(1) by (simp_all add: book_ok_def p_def avg_def rl_def)
  have q: "uint qty < 2147483648" using assms(2) ok(1) by linarith
  note fd = fill_delta_small [OF q]
  have d: "sint qty = \<bar>d\<bar>" using fd(1,2) by (simp add: d_def)
  have lim: "\<bar>p\<bar> + \<bar>d\<bar> \<le> 2147483647" using assms(2) ok(1) fd(2) by (simp add: d_def)
  have wr: "s32 (p + d) = p + d" "labs p = \<bar>p\<bar>" "labs d = \<bar>d\<bar>" "s32 (\<bar>p\<bar> + \<bar>d\<bar>) = \<bar>p\<bar> + \<bar>d\<bar>"
    using lim by (auto intro!: s32_lim labs_id)
  have zero: "qty = 0 \<longleftrightarrow> d = 0" using fd(2) [of side] uint_0_iff [of qty] unfolding d_def by (metis abs_eq_0)
  have pos: "risk_position (fmma_risk_on_fill r side qty price) = p + d"
    using wr(1) lim by (subst risk_fill_position) (auto simp: in32_def p_def d_def)
  consider "d = 0" | (add) "d \<noteq> 0" "p = 0 \<or> (p > 0) = (d > 0)"
    | (close) "d \<noteq> 0" "p \<noteq> 0" "(p > 0) \<noteq> (d > 0)" by blast
  then show ?thesis
  proof cases
    case 1
    then show ?thesis using zero by (simp add: fmma_risk_on_fill_def book_fill_def fill_delta_def)
  next
    case add
    have b: "1 \<le> (avg * \<bar>p\<bar> + price * \<bar>d\<bar>) div (\<bar>p\<bar> + \<bar>d\<bar>)"
      "(avg * \<bar>p\<bar> + price * \<bar>d\<bar>) div (\<bar>p\<bar> + \<bar>d\<bar>) < 2147483648"
      "avg * \<bar>p\<bar> + price * \<bar>d\<bar> \<le> 2147483647 * (\<bar>p\<bar> + \<bar>d\<bar>)"
      using avg_bounds [of "\<bar>p\<bar>" "\<bar>d\<bar>" price avg] add ok assms(3,4) by auto
    have nn: "0 \<le> avg * \<bar>p\<bar>" "0 \<le> price * \<bar>d\<bar>" using ok(2) assms(3) by simp_all
    have "2147483647 * (\<bar>p\<bar> + \<bar>d\<bar>) \<le> 2147483647 * 2147483647" using lim by (intro mult_left_mono) simp_all
    with b(3) have hi: "avg * \<bar>p\<bar> + price * \<bar>d\<bar> \<le> 9223372036854775807" by simp
    then have w: "s64 (avg * \<bar>p\<bar>) = avg * \<bar>p\<bar>" "s64 (price * \<bar>d\<bar>) = price * \<bar>d\<bar>"
      "s64 (avg * \<bar>p\<bar> + price * \<bar>d\<bar>) = avg * \<bar>p\<bar> + price * \<bar>d\<bar>"
      using nn by (intro s64_lim; linarith)+
    have div: "s64 (cdiv (avg * \<bar>p\<bar> + price * \<bar>d\<bar>) (\<bar>p\<bar> + \<bar>d\<bar>)) =
        (avg * \<bar>p\<bar> + price * \<bar>d\<bar>) div (\<bar>p\<bar> + \<bar>d\<bar>)"
    proof -
      have "\<not> \<bar>p\<bar> + \<bar>d\<bar> < 0" by linarith
      then show ?thesis using b(1,2) nn by (simp add: cdiv_def s64_lim)
    qed
    have "fmma_risk_on_fill r side qty price =
        r\<lparr>risk_avg_price := (avg * \<bar>p\<bar> + price * \<bar>d\<bar>) div (\<bar>p\<bar> + \<bar>d\<bar>), risk_position := p + d\<rparr>"
      using add zero div by (simp add: fmma_risk_on_fill_def Let_def fd(3) d wr w
          flip: p_def avg_def d_def)
    then show ?thesis using add by (simp add: book_fill_def flip: p_def avg_def rl_def d_def)
  next
    case close
    define c where "c = (if \<bar>d\<bar> < \<bar>p\<bar> then \<bar>d\<bar> else \<bar>p\<bar>)"
    define pl where "pl = (if p > 0 then price - avg else avg - price)"
    have pl64: "(if p > 0 then s64 (price - avg) else s64 (avg - price)) = pl"
      using ok(2,3) assms(3,4) by (simp add: pl_def s64_lim)
    have cb: "0 \<le> c" "c \<le> \<bar>d\<bar>" by (auto simp: c_def)
    have "\<bar>pl * c\<bar> \<le> 2147483648 * c"
      using close_bound [OF ok(2,3) assms(3,4) cb(1)] by (auto simp: pl_def abs_mult abs_minus_commute)
    then have "\<bar>pl * c\<bar> \<le> 4611686018427387904" "\<bar>rl + pl * c\<bar> \<le> 9223372036854775807"
      using cb lim ok(1,5) assms(2) uint_u32_bounds(1) [of qty] by linarith+
    then have w: "s64 (pl * c) = pl * c" "s64 (rl + pl * c) = rl + pl * c"
      by (auto intro!: s64_lim)
    have pc: "pl * c = (price - avg) * (if \<bar>d\<bar> < \<bar>p\<bar> then - d else p)"
      using close by (auto simp: pl_def c_def algebra_simps)
    have no: "(qty = 0) = False" "(p = 0 \<or> (p > 0) = (d > 0)) = False" using close zero by simp_all
    have "fmma_risk_on_fill r side qty price =
       (let r' = r\<lparr>risk_realised := rl + pl * c\<rparr>
        in if (p > 0) \<noteq> (p + d > 0) \<and> p + d \<noteq> 0 then r'\<lparr>risk_avg_price := price\<rparr>
           else if p + d = 0 then r'\<lparr>risk_avg_price := 0\<rparr> else r')\<lparr>risk_position := p + d\<rparr>"
      unfolding fmma_risk_on_fill_def Let_def fd(3)
      by (simp only: no if_False wr pl64 w p_def [symmetric] avg_def [symmetric] d_def [symmetric]
          rl_def [symmetric] c_def [symmetric])
    then have "book_of (fmma_risk_on_fill r side qty price) =
       (p + d, if p + d = 0 then 0 else if (p > 0) = (p + d > 0) then avg else price, rl + pl * c)"
      by (auto simp: avg_def)
    then show ?thesis using close unfolding pc
      by (simp add: book_fill_def flip: p_def avg_def rl_def d_def)
  qed
qed

section \<open>Profit and loss of a trading session\<close>

text \<open>
  The money that changed hands, and the rounding the average can lose: a division loses less
  than one unit per lot held, and only when a fill adds to the position.
\<close>

fun cash :: "fill list \<Rightarrow> int" where
  "cash [] = 0"
| "cash ((side, qty, price) # fs) = - (fill_delta side qty * price) + cash fs"

fun rounding :: "int \<Rightarrow> fill list \<Rightarrow> int" where
  "rounding p [] = 0"
| "rounding p ((side, qty, price) # fs) =
     (let d = fill_delta side qty
      in (if d \<noteq> 0 \<and> p \<noteq> 0 \<and> (p > 0) = (d > 0) then \<bar>p + d\<bar> - 1 else 0) + rounding (p + d) fs)"

text \<open>Fills the code sees: whole lots, positive prices, of the right width.\<close>

fun fills_ok :: "fill list \<Rightarrow> bool" where
  "fills_ok [] = True"
| "fills_ok ((side, qty, price) # fs) =
     (uint qty < 2147483648 \<and> 1 \<le> price \<and> price < 2147483648 \<and> fills_ok fs)"

definition book_error :: "book \<Rightarrow> int \<Rightarrow> int" where
  "book_error bk c = (case bk of (p, avg, rl) \<Rightarrow> rl - c - p * avg)"

lemma div_error:
  fixes x n :: int
  assumes "0 < n"
  shows "0 \<le> x - n * (x div n)" "x - n * (x div n) \<le> n - 1"
  using pos_mod_bound [OF assms, of x] pos_mod_sign [OF assms, of x]
  by (simp_all add: minus_mult_div_eq_mod)

lemma book_fill_error:
  assumes "fst bk = p"
  shows "\<bar>book_error (book_fill bk d price) (c - d * price) - book_error bk c\<bar> \<le>
    (if d \<noteq> 0 \<and> p \<noteq> 0 \<and> (p > 0) = (d > 0) then \<bar>p + d\<bar> - 1 else 0)"
proof -
  obtain avg rl where bk: "bk = (p, avg, rl)" using assms by (cases bk) auto
  consider "d = 0" | (fresh) "d \<noteq> 0" "p = 0" | (add) "d \<noteq> 0" "p \<noteq> 0" "(p > 0) = (d > 0)"
    | (close) "d \<noteq> 0" "p \<noteq> 0" "(p > 0) \<noteq> (d > 0)" by blast
  then show ?thesis
  proof cases
    case 1
    then show ?thesis by (simp add: book_fill_def bk)
  next
    case fresh
    then show ?thesis by (simp add: book_fill_def book_error_def bk)
  next
    case add
    define n x where "n = \<bar>p\<bar> + \<bar>d\<bar>" and "x = avg * \<bar>p\<bar> + price * \<bar>d\<bar>"
    have n: "0 < n" "n = \<bar>p + d\<bar>" using add by (auto simp: n_def)
    have bf: "book_fill bk d price = (p + d, x div n, rl)"
      using add by (simp add: book_fill_def bk n_def x_def)
    show ?thesis
    proof (cases "p > 0")
      case True
      then have "book_error (book_fill bk d price) (c - d * price) - book_error bk c = x - n * (x div n)"
        using add unfolding bf by (simp add: book_error_def bk n_def x_def algebra_simps)
      then show ?thesis using add div_error [OF n(1), of x] n(2) by simp
    next
      case False
      then have "book_error (book_fill bk d price) (c - d * price) - book_error bk c = - (x - n * (x div n))"
        using add unfolding bf by (simp add: book_error_def bk n_def x_def algebra_simps)
      then show ?thesis using add div_error [OF n(1), of x] n(2) by simp
    qed
  next
    case close
    then have "book_error (book_fill bk d price) (c - d * price) - book_error bk c = 0"
      by (auto simp: book_fill_def book_error_def bk algebra_simps) (simp_all flip: distrib_right)
    then show ?thesis using close by simp
  qed
qed

lemma fills_books:
  assumes "book_ok K (book_of r)" "fills_ok fs" "K + gross_fills fs \<le> 2147483647"
  shows "book_ok (K + gross_fills fs) (book_of (apply_fills fmma_risk_on_fill r fs)) \<and>
    \<bar>book_error (book_of (apply_fills fmma_risk_on_fill r fs)) (c + cash fs) - book_error (book_of r) c\<bar>
      \<le> rounding (risk_position r) fs"
  using assms
proof (induction fs arbitrary: r K c rule: net_fills.induct)
  case 1
  then show ?case by simp
next
  case (2 side qty price fs)
  let ?d = "fill_delta side qty" and ?r = "fmma_risk_on_fill r side qty price"
  have q: "\<bar>?d\<bar> = uint qty" using "2.prems"(2) by (simp add: fill_delta_small)
  have "0 \<le> gross_fills fs" using gross_fills_ge [of fs] by linarith
  then have b: "book_of ?r = book_fill (book_of r) ?d price"
    using "2.prems" q by (intro fill_book [of K]) auto
  have ok: "book_ok (K + \<bar>?d\<bar>) (book_of ?r)"
    unfolding b using "2.prems" by (intro book_fill_ok) auto
  have pos: "risk_position ?r = risk_position r + ?d"
    using arg_cong [OF b, of fst] by (auto simp: book_fill_def)
  have e1: "\<bar>book_error (book_of ?r) (c - ?d * price) - book_error (book_of r) c\<bar> \<le>
      (if ?d \<noteq> 0 \<and> risk_position r \<noteq> 0 \<and> (risk_position r > 0) = (?d > 0)
       then \<bar>risk_position r + ?d\<bar> - 1 else 0)"
    unfolding b by (rule book_fill_error) simp
  have IH: "book_ok (K + \<bar>?d\<bar> + gross_fills fs) (book_of (apply_fills fmma_risk_on_fill ?r fs)) \<and>
    \<bar>book_error (book_of (apply_fills fmma_risk_on_fill ?r fs)) (c - ?d * price + cash fs) -
      book_error (book_of ?r) (c - ?d * price)\<bar> \<le> rounding (risk_position r + ?d) fs"
    using "2.IH" [OF ok, of "c - ?d * price"] "2.prems" pos by simp
  have eqs: "c - ?d * price + cash fs = c + cash ((side, qty, price) # fs)"
    "K + \<bar>?d\<bar> + gross_fills fs = K + gross_fills ((side, qty, price) # fs)"
    "apply_fills fmma_risk_on_fill ?r fs = apply_fills fmma_risk_on_fill r ((side, qty, price) # fs)"
    "rounding (risk_position r) ((side, qty, price) # fs) =
      (if ?d \<noteq> 0 \<and> risk_position r \<noteq> 0 \<and> (risk_position r > 0) = (?d > 0)
       then \<bar>risk_position r + ?d\<bar> - 1 else 0) + rounding (risk_position r + ?d) fs"
    by (simp_all add: Let_def)
  show ?case using IH e1 unfolding eqs by linarith
qed

lemma mark_exact:
  assumes "book_ok K (book_of r)" "K \<le> 2147483647" "1 \<le> mid" "mid < 2147483648"
  shows "fmma_risk_pnl (fmma_risk_mark r mid) =
    risk_realised r + (mid - risk_avg_price r) * risk_position r"
proof -
  let ?x = "(mid - risk_avg_price r) * risk_position r"
  have ok: "\<bar>risk_position r\<bar> \<le> K" "0 \<le> risk_avg_price r" "risk_avg_price r < 2147483648"
    "risk_avg_price r = 0 \<longleftrightarrow> risk_position r = 0" "\<bar>risk_realised r\<bar> \<le> K * 2147483648"
    using assms(1) by (simp_all add: book_ok_def)
  have "\<bar>?x\<bar> \<le> 2147483648 * \<bar>risk_position r\<bar>"
    using close_bound [OF ok(2,3) assms(3,4), of "\<bar>risk_position r\<bar>"] by (simp add: abs_mult)
  then have x: "\<bar>?x\<bar> \<le> 4611686016279904256" "\<bar>risk_realised r + ?x\<bar> \<le> 9223372036854775807"
    using ok(1,5) assms(2) by linarith+
  have w: "s64 (mid - risk_avg_price r) = mid - risk_avg_price r" "s64 ?x = ?x"
    "s64 (risk_realised r + ?x) = risk_realised r + ?x" "s64 (risk_realised r) = risk_realised r"
    using ok x assms by (auto intro!: s64_lim)
  show ?thesis using ok(4) by (cases "risk_position r = 0") (auto simp: fmma_risk_pnl_def fmma_risk_mark_def w)
qed

text \<open>
  C6. The profit and loss that the loss limit looks at is the real one. Start flat, apply any
  sequence of fills of positive prices below \<open>2 ^ 31\<close> that moves fewer than \<open>2 ^ 31\<close> lots in
  all, then mark to any mid: the reported total differs from the money that changed hands
  plus the inventory at that mid by at most the rounding of the average price, less than one
  price unit per lot held for each fill that adds to an open position. No intermediate result
  wraps.
\<close>

theorem risk_pnl_accounting:
  assumes "fills_ok fs" "gross_fills fs \<le> 2147483647" "1 \<le> mid" "mid < 2147483648"
  shows "\<bar>fmma_risk_pnl (fmma_risk_mark (apply_fills fmma_risk_on_fill (fmma_risk_init ml st 0) fs) mid)
           - (cash fs + net_fills fs * mid)\<bar> \<le> rounding 0 fs"
proof -
  let ?init = "fmma_risk_init ml st 0"
  let ?r = "apply_fills fmma_risk_on_fill ?init fs"
  have init: "book_of ?init = (0, 0, 0)" by (simp add: fmma_risk_init_def)
  have ok0: "book_ok 0 (book_of ?init)" by (simp add: init book_ok_def)
  have p0: "risk_position ?init = 0" by (simp add: fmma_risk_init_def)
  have ok: "book_ok (0 + gross_fills fs) (book_of ?r)"
    and err: "\<bar>book_error (book_of ?r) (0 + cash fs) - book_error (book_of ?init) 0\<bar> \<le> rounding (risk_position ?init) fs"
    using fills_books [OF ok0 assms(1), of 0] assms(2) by simp_all
  have net: "risk_position ?r = net_fills fs"
    using risk_pos.pos_fills_exact [of ?init fs] assms(2) by (simp add: in32_def p0)
  have "fmma_risk_pnl (fmma_risk_mark ?r mid) - (cash fs + net_fills fs * mid) =
      book_error (book_of ?r) (0 + cash fs) - book_error (book_of ?init) 0"
    using mark_exact [OF ok _ assms(3,4)] assms(2)
    by (simp add: init net book_error_def algebra_simps)
  then show ?thesis using err by (simp only: p0)
qed

theorem risk_pnl_accounting_witness:
  "\<bar>fmma_risk_pnl (fmma_risk_mark (apply_fills fmma_risk_on_fill (fmma_risk_init 1000 5 0)
       [(1, 1, 100), (1, 2, 105), (2, 4, 110)]) 90) - 40\<bar> \<le> 2"
  using risk_pnl_accounting [of "[(1, 1, 100), (1, 2, 105), (2, 4, 110)]" 90 1000 5]
  by (simp add: fill_delta_def Let_def)

section \<open>Verdicts\<close>

text \<open>
  A position that is carried in is booked at an average price of zero: after a start with
  \<open>p\<close> lots, selling one lot at any price books the whole price as realised profit, and marking
  to market shows no open profit or loss at all.
\<close>

theorem risk_start_position_booked_at_zero:
  assumes "0 < p" "p \<le> 2147483647" "1 \<le> price" "price < 2147483648"
  shows "risk_realised (fmma_risk_on_fill (fmma_risk_init ml st p) FMMA_FILL_SOLD 1 price) = price \<and>
    fmma_risk_pnl (fmma_risk_mark (fmma_risk_init ml st p) mid) = 0"
  using assms
  by (auto simp: fmma_risk_on_fill_def fmma_risk_init_def Let_def labs_id s32_lim s64_lim
        fmma_risk_pnl_def fmma_risk_mark_def)

theorem risk_start_position_booked_at_zero_witness:
  "risk_realised (fmma_risk_on_fill (fmma_risk_init 1000 5 3) FMMA_FILL_SOLD 1 6500000) = 6500000"
  using risk_start_position_booked_at_zero [of 3 6500000 1000 5] by simp

text \<open>
  Everything a client of the module can do to it, as a step relation: the state a component
  can reach is what any sequence of calls makes of it.
\<close>

inductive risk_step :: "fmma_risk \<Rightarrow> fmma_risk \<Rightarrow> bool" where
  step_fill: "risk_step r (fmma_risk_on_fill r side qty price)"
| step_mark: "risk_step r (fmma_risk_mark r mid)"
| step_halt: "risk_step r (fmma_risk_halt r reason)"
| step_check: "risk_step r (fst (fmma_risk_check r age))"

abbreviation risk_steps :: "fmma_risk \<Rightarrow> fmma_risk \<Rightarrow> bool" where
  "risk_steps \<equiv> risk_step\<^sup>*\<^sup>*"

inductive_cases risk_stepE: "risk_step r r'"

lemma halted_step: "risk_step r r' \<Longrightarrow> risk_halted r \<Longrightarrow>
    risk_halted r' \<and> risk_halt_reason r' = risk_halt_reason r"
  by (auto elim!: risk_stepE simp: frame fmma_risk_halt_def fmma_risk_check_def)

lemma halted_steps: "risk_steps r r' \<Longrightarrow> risk_halted r \<Longrightarrow>
    risk_halted r' \<and> risk_halt_reason r' = risk_halt_reason r"
  by (induction rule: rtranclp_induct) (auto dest: halted_step)

lemma check_loss:
  assumes "\<not> risk_halted r" "0 < risk_max_loss r" "risk_max_loss r < 2 ^ 63"
    "fmma_risk_pnl r \<le> - risk_max_loss r"
  shows "fmma_risk_check r age = (fmma_risk_halt r ''loss limit reached'', FMMA_RISK_LOSS_LIMIT)"
  using assms by (simp add: fmma_risk_check_def s64_id)

text \<open>
  C15. The loss limit is final: once a check has seen a total loss of at least the limit, that
  check refuses, the module is halted with that reason, and every later check refuses too,
  whatever fills, marks, halts and checks come in between and whatever the feed does.
\<close>

theorem risk_loss_limit_final:
  assumes "0 < risk_max_loss r" "risk_max_loss r < 2 ^ 63" "\<not> risk_halted r"
    "fmma_risk_pnl r \<le> - risk_max_loss r" "risk_steps (fst (fmma_risk_check r age)) r'"
  shows "snd (fmma_risk_check r age) = FMMA_RISK_LOSS_LIMIT \<and>
    risk_halt_reason r' = Some ''loss limit reached'' \<and>
    fmma_risk_check r' age' = (r', FMMA_RISK_HALTED)"
proof -
  note c = check_loss [OF assms(3,1,2,4), of age]
  have "risk_halted (fst (fmma_risk_check r age))"
    "risk_halt_reason (fst (fmma_risk_check r age)) = Some ''loss limit reached''"
    using assms(3) by (simp_all add: c fmma_risk_halt_def)
  then have "risk_halted r'" "risk_halt_reason r' = Some ''loss limit reached''"
    using halted_steps [OF assms(5)] by simp_all
  then show ?thesis by (simp add: c) (simp add: fmma_risk_check_def)
qed

theorem risk_loss_limit_final_witness:
  "let r = fmma_risk_mark (fmma_risk_on_fill (fmma_risk_init 500 0 0) 1 10 1000) 940;
       r' = fmma_risk_mark (fst (fmma_risk_check r 0)) 2000
   in fmma_risk_check r' 0 = (r', FMMA_RISK_HALTED)"
proof -
  let ?r = "fmma_risk_mark (fmma_risk_on_fill (fmma_risk_init 500 0 0) 1 10 1000) 940"
  have r: "?r = \<lparr>risk_position = 10, risk_avg_price = 1000, risk_realised = 0, risk_unrealised = - 600,
     risk_max_loss = 500, risk_stale_feed_ms = 0, risk_halted = False, risk_halt_reason = None\<rparr>"
    by (simp add: fmma_risk_mark_def fmma_risk_on_fill_def fmma_risk_init_def Let_def labs_def cdiv_def
        s32_lim s64_lim)
  have "risk_steps (fst (fmma_risk_check ?r 0)) (fmma_risk_mark (fst (fmma_risk_check ?r 0)) 2000)"
    by (rule r_into_rtranclp) (rule step_mark)
  moreover have "fmma_risk_pnl ?r = - 600" unfolding r by (simp add: fmma_risk_pnl_def s64_lim)
  ultimately show ?thesis
    using risk_loss_limit_final [of ?r 0 "fmma_risk_mark (fst (fmma_risk_check ?r 0)) 2000" 0]
    by (simp add: Let_def) (simp add: r)
qed

text \<open>
  The verdict of a module that is not halted, in terms of the feed age in milliseconds and
  with no 64-bit overflow: the loss limit comes first, then staleness, and only the loss limit
  changes the state, so a stale feed suspends trading and a fresh quote resumes it.
\<close>

theorem risk_verdict_exact:
  assumes "\<not> risk_halted r" "risk_max_loss r < 2 ^ 63"
  shows "fmma_risk_check r age =
    (let loss = risk_max_loss r > 0 \<and> fmma_risk_pnl r \<le> - risk_max_loss r;
         stale = uint (risk_stale_feed_ms r) > 0 \<and> uint age > uint (risk_stale_feed_ms r) * 1000
     in if loss then (r\<lparr>risk_halted := True, risk_halt_reason := Some ''loss limit reached''\<rparr>, FMMA_RISK_LOSS_LIMIT)
        else (r, if stale then FMMA_RISK_STALE_FEED else FMMA_RISK_OK))"
proof -
  have "uint (ucast (risk_stale_feed_ms r) * 1000 :: u64) = uint (risk_stale_feed_ms r) * 1000"
    using uint_u32_bounds [of "risk_stale_feed_ms r"]
    by (simp add: uint_word_ariths uint_ucast_u32_u64 mod_pos_pos_trivial)
  then show ?thesis using assms
    by (auto simp: fmma_risk_check_def Let_def word_less_def s64_id fmma_risk_halt_def)
qed

theorem risk_verdict_exact_witness:
  "snd (fmma_risk_check (fmma_risk_init 500 5 0) 5001) = FMMA_RISK_STALE_FEED \<and>
   snd (fmma_risk_check (fmma_risk_init 500 5 0) 5000) = FMMA_RISK_OK"
  using risk_verdict_exact [of "fmma_risk_init 500 5 0" 5001]
    risk_verdict_exact [of "fmma_risk_init 500 5 0" 5000]
  by (simp add: fmma_risk_init_def fmma_risk_pnl_def s64_lim)

end
