(* ===== verification/Fmma_Program.thy ===== *)
theory Fmma_Program
  imports Fmma_Protocol
begin

text \<open>
  The program image the host loads into the fabric, \<open>Software/fpga_program.h\<close>: the machine
  words the assembler produced from \<open>Software/trading.asm\<close>, with the base address and the length
  the header states.
\<close>

definition FPGA_PROGRAM_BASE :: nat where "FPGA_PROGRAM_BASE = 8"
definition FPGA_PROGRAM_LEN :: nat where "FPGA_PROGRAM_LEN = 154"
definition FPGA_PROGRAM_NAME :: string where "FPGA_PROGRAM_NAME = ''trading.asm''"

definition fpga_program :: "u32 list" where
  "fpga_program =
    [0x00000030, 0x0000F101, 0x0001F200, 0x0001F340, 0x00000939, 0x00000B3B, 0x00000C3C, 0x0001F40E,
     0x00004D04, 0x0001F40B, 0x00004E04, 0x00000737, 0x0001F441, 0x00004744, 0x0001F442, 0x00004744,
     0x0001F443, 0x00004744, 0x0001F444, 0x00004D44, 0x0001F446, 0x00004744, 0x0001F448, 0x00004744,
     0x0001F449, 0x00004744, 0x0000F701, 0x0001F445, 0x00004744, 0x0000F80A, 0x00009803, 0x0000F707,
     0x000008B7, 0x0000C175, 0x0000F702, 0x0001F447, 0x00004744, 0x0000FF2E, 0x00000C51, 0x00004C43,
     0x0001F40A, 0x00004804, 0x000008B0, 0x0000C167, 0x00000451, 0x00004804, 0x000008BE, 0x0000C00D,
     0x00000EF8, 0x0001F40C, 0x00004804, 0x0001F40D, 0x00004404, 0x000008B1, 0x0000C103, 0x00000D54,
     0x0000CE02, 0x00000D94, 0x0001F444, 0x00004D44, 0x00004702, 0x000007BB, 0x0000C0E8, 0x000008F7,
     0x00000811, 0x000008B0, 0x0000C1E4, 0x000004F2, 0x00000451, 0x00004504, 0x00000451, 0x00004604,
     0x00004802, 0x000008B7, 0x0000C1DC, 0x00000BF7, 0x000005B0, 0x0000C0D9, 0x000006B0, 0x0000C0D7,
     0x000007F5, 0x00000756, 0x000009B0, 0x0000C00C, 0x0001F405, 0x00004804, 0x00000858, 0x00000AF9,
     0x00000A98, 0x000007BA, 0x0000C607, 0x00000AF9, 0x00000A58, 0x00000AB7, 0x0000C60F, 0x000009F7,
     0x00004ECF, 0x000009F7, 0x0001F407, 0x00004804, 0x000008B0, 0x0000C024, 0x0001F406, 0x00004804,
     0x00000DB8, 0x0000C602, 0x0000CE1D, 0x0000F701, 0x0000CE0F, 0x000009F7, 0x0001F407, 0x00004804,
     0x000008B0, 0x0000C018, 0x0001F406, 0x00004804, 0x00000A3A, 0x00000A98, 0x00000ABD, 0x0000C602,
     0x0000CE0F, 0x0000F702, 0x0000CE01, 0x0001F441, 0x00004744, 0x0001F442, 0x00004B44, 0x0000F701,
     0x0001F445, 0x00004744, 0x0001F443, 0x00004804, 0x00000851, 0x00004844, 0x00004ECF, 0x0000F704,
     0x0000CE02, 0x0000F708, 0x00000751, 0x0001F445, 0x00004744, 0x0001F446, 0x00004804, 0x00000851,
     0x00004844, 0x00004ECF, 0x00000838, 0x00004844, 0x0000F408, 0x00004EC4, 0x00000C51, 0x00004C43,
     0x0000F49E, 0x00004EC4]"

lemma fpga_program_length [simp]: "length fpga_program = FPGA_PROGRAM_LEN"
  by (simp add: fpga_program_def FPGA_PROGRAM_LEN_def)

end
