(* ===== verification/Fmma_Seqlock.thy ===== *)
theory Fmma_Seqlock
  imports Fmma_Protocol
begin

text \<open>
  The seqlock between the host, which writes the market-data block, and the CPU, which reads it
  with no lock in between (\<open>docs/07-shared-memory-protocol.md\<close>). A writer keeps the discipline
  \<open>seqlock_ok\<close>: every store to the sequence word adds one to it, and the data words are stored
  only while it is odd. The locale \<open>seqlock_writer\<close> is the interface: what a component that
  writes the block promises about each of its operations. The reader's guarantee is proved from
  it for every interleaving of its reads with the writer's stores.
\<close>

fun seqlock_ok :: "nat \<Rightarrow> nat list \<Rightarrow> u32 \<Rightarrow> access list \<Rightarrow> bool" where
  "seqlock_ok q ds s [] = True"
| "seqlock_ok q ds s (Barrier # xs) = seqlock_ok q ds s xs"
| "seqlock_ok q ds s (Store a v # xs) =
     (if a = q then v = s + 1 \<and> seqlock_ok q ds (s + 1) xs
      else (a \<in> set ds \<longrightarrow> odd s) \<and> seqlock_ok q ds s xs)"

text \<open>The number of stores to the sequence word.\<close>

fun seq_stores :: "nat \<Rightarrow> access list \<Rightarrow> nat" where
  "seq_stores q [] = 0"
| "seq_stores q (Barrier # xs) = seq_stores q xs"
| "seq_stores q (Store a v # xs) = (if a = q then 1 else 0) + seq_stores q xs"

text \<open>All the accesses of a sequence of operations, and the state after it.\<close>

fun trace :: "('s \<Rightarrow> 'op \<Rightarrow> 's \<times> access list) \<Rightarrow> 's \<Rightarrow> 'op list \<Rightarrow> access list" where
  "trace run s [] = []"
| "trace run s (x # xs) = snd (run s x) @ trace run (fst (run s x)) xs"

fun final :: "('s \<Rightarrow> 'op \<Rightarrow> 's \<times> access list) \<Rightarrow> 's \<Rightarrow> 'op list \<Rightarrow> 's" where
  "final run s [] = s"
| "final run s (x # xs) = final run (fst (run s x)) xs"

lemma seq_stores_append [simp]: "seq_stores q (xs @ ys) = seq_stores q xs + seq_stores q ys"
  by (induction q xs rule: seq_stores.induct) simp_all

lemma seqlock_ok_append:
  "seqlock_ok q ds s (xs @ ys) \<longleftrightarrow>
     seqlock_ok q ds s xs \<and> seqlock_ok q ds (s + word_of_nat (seq_stores q xs)) ys"
  by (induction q ds s xs rule: seqlock_ok.induct) (auto simp: algebra_simps)

lemma seqlock_seq_value:
  "seqlock_ok q ds s xs \<Longrightarrow> m q = s \<Longrightarrow> run_accesses xs m q = s + word_of_nat (seq_stores q xs)"
  by (induction q ds s xs arbitrary: m rule: seqlock_ok.induct) (auto simp: algebra_simps)

lemma seqlock_data_stable:
  assumes "seqlock_ok q ds s xs" "seq_stores q xs = 0" "even s" "a \<in> set ds"
  shows "run_accesses xs m a = m a"
  using assms by (induction q ds s xs arbitrary: m rule: seqlock_ok.induct) (auto split: if_splits)

locale seqlock_writer =
  fixes seq_addr :: nat and data_addrs :: "nat list" and inv :: "'s \<Rightarrow> bool" and cur :: "'s \<Rightarrow> u32"
    and run :: "'s \<Rightarrow> 'op \<Rightarrow> 's \<times> access list"
  assumes inv_even: "inv s \<Longrightarrow> even (cur s)"
    and run_inv: "inv s \<Longrightarrow> inv (fst (run s x))"
    and run_ok: "inv s \<Longrightarrow> seqlock_ok seq_addr data_addrs (cur s) (snd (run s x))"
    and run_cur: "inv s \<Longrightarrow>
      cur (fst (run s x)) = cur s + word_of_nat (seq_stores seq_addr (snd (run s x)))"
begin

lemma trace_ok: "inv s \<Longrightarrow> seqlock_ok seq_addr data_addrs (cur s) (trace run s xs)"
  by (induction xs arbitrary: s) (simp_all add: seqlock_ok_append run_ok run_inv flip: run_cur)

lemma final_cur: "inv s \<Longrightarrow>
    inv (final run s xs) \<and>
    cur (final run s xs) = cur s + word_of_nat (seq_stores seq_addr (trace run s xs))"
  by (induction xs arbitrary: s) (simp_all add: run_inv run_cur add.assoc)

text \<open>
  The reader: it saw an even sequence number after \<open>i\<close> accesses and the same one after \<open>j\<close>.
  Then no data word changed in between.
\<close>

lemma reader_stable:
  assumes "inv s" "m seq_addr = cur s" "i \<le> k" "k \<le> j"
    "seq_stores seq_addr (trace run s xs) < 2 ^ 32"
    "even (run_accesses (take i (trace run s xs)) m seq_addr)"
    "run_accesses (take j (trace run s xs)) m seq_addr = run_accesses (take i (trace run s xs)) m seq_addr"
    "a \<in> set data_addrs"
  shows "run_accesses (take k (trace run s xs)) m a = run_accesses (take i (trace run s xs)) m a"
proof -
  let ?t = "trace run s xs" and ?q = "seq_addr"
  have split: "take l ?t = take i ?t @ take (l - i) (drop i ?t)" if "i \<le> l" for l
    using that by (metis le_add_diff_inverse take_add)
  have ok: "seqlock_ok ?q data_addrs (cur s) (take l ?t)" for l
    using trace_ok [OF assms(1), of xs] seqlock_ok_append [of ?q data_addrs "cur s" "take l ?t" "drop l ?t"]
    by simp
  have val: "run_accesses (take l ?t) m ?q = cur s + word_of_nat (seq_stores ?q (take l ?t))" for l
    using seqlock_seq_value [OF ok [of l], of m] assms(2) by simp
  have cnt: "seq_stores ?q (take l ?t) < 2 ^ 32" for l
    using assms(5) seq_stores_append [of ?q "take l ?t" "drop l ?t"] by simp
  have "seq_stores ?q (take j ?t) = seq_stores ?q (take i ?t)"
    using assms(7) cnt [of i] cnt [of j]
    by (simp only: val add_left_cancel) (rule word_of_nat_inj_u32)
  moreover have "seq_stores ?q (take k ?t) \<le> seq_stores ?q (take j ?t)"
    using assms(4) by (metis le_add_diff_inverse le_add1 seq_stores_append take_add)
  moreover have "seq_stores ?q (take k ?t) = seq_stores ?q (take i ?t) + seq_stores ?q (take (k - i) (drop i ?t))"
    using split [OF assms(3)] by (metis seq_stores_append)
  ultimately have none: "seq_stores ?q (take (k - i) (drop i ?t)) = 0" by linarith
  have "seqlock_ok ?q data_addrs (cur s + word_of_nat (seq_stores ?q (take i ?t))) (take (k - i) (drop i ?t))"
    using ok [of k] unfolding split [OF assms(3)] seqlock_ok_append by blast
  from seqlock_data_stable [OF this none _ assms(8)] show ?thesis
    using assms(6) unfolding split [OF assms(3)] by (simp add: val)
qed

end

end
