(* ===== verification/Fmma_Fpga.thy ===== *)
theory Fmma_Fpga
  imports Fmma_Program Fmma_Seqlock
begin

text \<open>
  The host half of the shared-memory protocol, \<open>Software/src/fmma_fpga.c\<close>. A device handle is
  \<open>None\<close> for the NULL pointer. What a function stores is its list of accesses in program order;
  what it reads is an argument: a view of the RAM, the value each word had at the moment it was
  read. No function reads a word twice without a new view, so a view covers every interleaving
  with the CPU. The results of \<open>calloc\<close>, \<open>open\<close> and \<open>mmap\<close> are arguments too.
\<close>

section \<open>State\<close>

record fmma_fpga =
  fpga_regs :: bool
  fpga_map :: bool
  fpga_fd :: int
  fpga_tick_seq :: u32
  fpga_fill_seq :: u32
  fpga_signal_seq :: u32
  fpga_heartbeat :: u32

record fmma_signal =
  sig_side :: u32
  sig_tick :: u32
  sig_seq :: u32
  sig_missed :: u32

record fmma_fpga_config =
  fc_threshold :: u32
  fc_max_position :: u32
  fc_start_position :: int
  fc_half_spread :: u32
  fc_skew :: u32

record fmma_fpga_state =
  st_heartbeat :: u32
  st_position :: int
  st_status :: u32
  st_rejects :: u32
  st_version :: u32
  st_quote_bid :: u32
  st_quote_ask :: u32

section \<open>Lifecycle\<close>

definition fmma_fpga_open :: "bool \<Rightarrow> int \<Rightarrow> bool \<Rightarrow> fmma_fpga option" where
  "fmma_fpga_open calloc_ok fd mmap_ok =
     (if \<not> calloc_ok then None
      else if fd = - 1 then None
      else if \<not> mmap_ok then None
      else Some \<lparr>fpga_regs = True, fpga_map = True, fpga_fd = fd, fpga_tick_seq = 0,
                 fpga_fill_seq = 0, fpga_signal_seq = 0, fpga_heartbeat = 0\<rparr>)"

definition fmma_fpga_close :: "fmma_fpga option \<Rightarrow> access list" where
  "fmma_fpga_close f =
     (case f of None \<Rightarrow> []
      | Some d \<Rightarrow> if fpga_regs d then [Store FMMA_CFG_ENABLE 0, Barrier] else [])"

definition fmma_fpga_present :: "fmma_fpga option \<Rightarrow> bool" where
  "fmma_fpga_present f = (case f of None \<Rightarrow> False | Some d \<Rightarrow> fpga_regs d)"

definition fmma_fpga_read :: "fmma_fpga option \<Rightarrow> ram \<Rightarrow> nat \<Rightarrow> u32" where
  "fmma_fpga_read f view word = (if fmma_fpga_present f then view word else 0)"

definition fmma_fpga_write :: "fmma_fpga option \<Rightarrow> nat \<Rightarrow> u32 \<Rightarrow> access list" where
  "fmma_fpga_write f word v = (if fmma_fpga_present f then [Store word v] else [])"

section \<open>Configuration and start-up\<close>

definition fmma_fpga_push_config :: "fmma_fpga option \<Rightarrow> fmma_fpga_config option \<Rightarrow> access list" where
  "fmma_fpga_push_config f cfg =
     (case cfg of None \<Rightarrow> []
      | Some c \<Rightarrow>
          if \<not> fmma_fpga_present f then []
          else [Store FMMA_CFG_THRESH (fc_threshold c), Store FMMA_CFG_MAX_POS (fc_max_position c),
                Store FMMA_CFG_POSITION (word_of_int (fc_start_position c)),
                Store FMMA_CFG_HALF_SPREAD (fc_half_spread c), Store FMMA_CFG_SKEW (fc_skew c), Barrier])"

definition fmma_fpga_set_enabled :: "fmma_fpga option \<Rightarrow> bool \<Rightarrow> access list" where
  "fmma_fpga_set_enabled f enabled =
     (if \<not> fmma_fpga_present f then []
      else [Barrier, Store FMMA_CFG_ENABLE (if enabled then 1 else 0)])"

text \<open>\<open>write_program\<close>: the stores of the image, and whether the readback agrees.\<close>

definition program_stores :: "access list" where
  "program_stores =
     map (\<lambda>i. Store (FPGA_PROGRAM_BASE + i) (fpga_program ! i)) [1..<FPGA_PROGRAM_LEN] @
     [Barrier, Store FPGA_PROGRAM_BASE (fpga_program ! 0), Barrier]"

fun readback_from :: "ram \<Rightarrow> nat \<Rightarrow> u32 list \<Rightarrow> bool" where
  "readback_from view a [] = True"
| "readback_from view a (w # ws) = (if view a \<noteq> w then False else readback_from view (a + 1) ws)"

definition write_program :: "ram \<Rightarrow> access list \<times> int" where
  "write_program view =
     (if FPGA_PROGRAM_BASE \<noteq> FMMA_PROGRAM_BASE then ([], - 1)
      else if FPGA_PROGRAM_BASE + FPGA_PROGRAM_LEN > FMMA_PROGRAM_LIMIT then ([], - 1)
      else (program_stores, if readback_from view FPGA_PROGRAM_BASE fpga_program then 0 else - 1))"

text \<open>
  \<open>wait_for_cpu\<close>: 50 polls, the RAM seen in poll \<open>i\<close> being \<open>views i\<close>. The first component of the
  result is the updated handle.
\<close>

fun wait_loop :: "nat \<Rightarrow> nat \<Rightarrow> u32 \<Rightarrow> (nat \<Rightarrow> ram) \<Rightarrow> fmma_fpga \<Rightarrow> fmma_fpga \<times> int" where
  "wait_loop 0 i beat0 views f = (f, - 1)"
| "wait_loop (Suc left) i beat0 views f =
     (let version = views i FMMA_FW_VERSION; beat = views i FMMA_HEARTBEAT
      in if version = FMMA_PROTOCOL_VERSION \<and> beat \<noteq> beat0
         then (f\<lparr>fpga_heartbeat := beat, fpga_signal_seq := views i FMMA_SIGNAL_SEQ,
                 fpga_fill_seq := views i FMMA_FILL_SEQ,
                 fpga_tick_seq := views i FMMA_TICK_SEQ AND NOT 1\<rparr>, 0)
         else if version \<noteq> 0 \<and> version \<noteq> FMMA_PROTOCOL_VERSION then (f, - 1)
         else if beat \<noteq> beat0 \<and> version = 0 \<and> i > 20 then (f, - 1)
         else wait_loop left (i + 1) beat0 views f)"

definition wait_stores :: "access list" where
  "wait_stores = [Store FMMA_FW_VERSION 0, Barrier, Store FMMA_CFG_RESTART 1]"

definition wait_for_cpu :: "u32 \<Rightarrow> (nat \<Rightarrow> ram) \<Rightarrow> fmma_fpga \<Rightarrow> access list \<times> fmma_fpga \<times> int" where
  "wait_for_cpu beat0 views f = (wait_stores, wait_loop 50 0 beat0 views f)"

definition fmma_fpga_load ::
    "fmma_fpga option \<Rightarrow> fmma_fpga_config option \<Rightarrow> ram \<Rightarrow> u32 \<Rightarrow> (nat \<Rightarrow> ram) \<Rightarrow>
     access list \<times> fmma_fpga option \<times> int" where
  "fmma_fpga_load f cfg view beat0 views =
     (case f of None \<Rightarrow> ([], None, - 1)
      | Some d \<Rightarrow>
          if \<not> fmma_fpga_present f then ([], f, - 1)
          else
            let pre = [Store FMMA_CFG_ENABLE 0, Store FMMA_CFG_RESTART 0] @ fmma_fpga_push_config f cfg;
                (prog, rc) = write_program view
            in if rc \<noteq> 0 then (pre @ prog, f, - 1)
               else
                 let (wait, d', rc') = wait_for_cpu beat0 views d
                 in (pre @ prog @ wait, Some d', rc'))"

section \<open>The runtime protocol\<close>

definition fmma_fpga_publish_tick ::
    "fmma_fpga option \<Rightarrow> u32 \<Rightarrow> u32 \<Rightarrow> u32 \<Rightarrow> u32 \<Rightarrow> fmma_fpga option \<times> access list \<times> u32" where
  "fmma_fpga_publish_tick f bid ask bid_size ask_size =
     (case f of None \<Rightarrow> (None, [], 0)
      | Some d \<Rightarrow>
          if \<not> fmma_fpga_present f then (f, [], 0)
          else
            let odd_seq = fpga_tick_seq d + 1;
                d' = d\<lparr>fpga_tick_seq := odd_seq + 1\<rparr>
            in (Some d',
                [Store FMMA_TICK_SEQ odd_seq, Barrier,
                 Store FMMA_BID bid, Store FMMA_ASK ask,
                 Store FMMA_BID_SIZE bid_size, Store FMMA_ASK_SIZE ask_size, Barrier,
                 Store FMMA_TICK_SEQ (fpga_tick_seq d')],
                fpga_tick_seq d'))"

definition fmma_fpga_report_fill ::
    "fmma_fpga option \<Rightarrow> u32 \<Rightarrow> u32 \<Rightarrow> fmma_fpga option \<times> access list" where
  "fmma_fpga_report_fill f side qty =
     (case f of None \<Rightarrow> (None, [])
      | Some d \<Rightarrow>
          if \<not> fmma_fpga_present f then (f, [])
          else
            let d' = d\<lparr>fpga_fill_seq := fpga_fill_seq d + 1\<rparr>
            in (Some d',
                [Store FMMA_FILL_SIDE side, Store FMMA_FILL_QTY qty, Barrier,
                 Store FMMA_FILL_SEQ (fpga_fill_seq d')]))"

definition fmma_fpga_poll_signal ::
    "fmma_fpga option \<Rightarrow> ram \<Rightarrow> fmma_fpga option \<times> fmma_signal option" where
  "fmma_fpga_poll_signal f view =
     (case f of None \<Rightarrow> (None, None)
      | Some d \<Rightarrow>
          if \<not> fmma_fpga_present f then (f, None)
          else
            let seq = view FMMA_SIGNAL_SEQ
            in if seq = fpga_signal_seq d then (f, None)
               else (Some (d\<lparr>fpga_signal_seq := seq\<rparr>),
                     Some \<lparr>sig_side = view FMMA_SIGNAL, sig_tick = view FMMA_SIGNAL_TICK,
                           sig_seq = seq, sig_missed = seq - fpga_signal_seq d - 1\<rparr>))"

section \<open>Observation\<close>

definition fmma_fpga_read_state :: "fmma_fpga option \<Rightarrow> ram \<Rightarrow> fmma_fpga_state" where
  "fmma_fpga_read_state f view =
     (if \<not> fmma_fpga_present f
      then \<lparr>st_heartbeat = 0, st_position = 0, st_status = 0, st_rejects = 0, st_version = 0,
            st_quote_bid = 0, st_quote_ask = 0\<rparr>
      else \<lparr>st_heartbeat = view FMMA_HEARTBEAT, st_position = sint (view FMMA_POSITION),
            st_status = view FMMA_STATUS, st_rejects = view FMMA_REJECTS,
            st_version = view FMMA_FW_VERSION, st_quote_bid = view FMMA_QUOTE_BID,
            st_quote_ask = view FMMA_QUOTE_ASK\<rparr>)"

definition fmma_fpga_heartbeat_delta ::
    "fmma_fpga option \<Rightarrow> ram \<Rightarrow> fmma_fpga option \<times> u32" where
  "fmma_fpga_heartbeat_delta f view =
     (case f of None \<Rightarrow> (None, 0)
      | Some d \<Rightarrow>
          if \<not> fmma_fpga_present f then (f, 0)
          else (Some (d\<lparr>fpga_heartbeat := view FMMA_HEARTBEAT\<rparr>),
                view FMMA_HEARTBEAT - fpga_heartbeat d))"

section \<open>The market-data block is a seqlock\<close>

text \<open>
  What happens on the shared RAM while the system runs: the host's runtime operations, and the
  CPU's own stores, which go to the output block or clear the restart request.
\<close>

datatype shared_op =
    Tick u32 u32 u32 u32
  | ReportFill u32 u32
  | Enable bool
  | Config fmma_fpga_config
  | CpuStore nat u32

definition market_words :: "nat list" where
  "market_words = [FMMA_BID, FMMA_ASK, FMMA_BID_SIZE, FMMA_ASK_SIZE]"

definition cpu_may_store :: "nat \<Rightarrow> bool" where
  "cpu_may_store a \<longleftrightarrow> FMMA_OUTPUT_BASE \<le> a \<or> a = FMMA_CFG_RESTART"

fun shared_run :: "fmma_fpga \<Rightarrow> shared_op \<Rightarrow> fmma_fpga \<times> access list" where
  "shared_run d (Tick b a bs as) =
     (case fmma_fpga_publish_tick (Some d) b a bs as of (f, acc, seq) \<Rightarrow> (the f, acc))"
| "shared_run d (ReportFill side qty) =
     (case fmma_fpga_report_fill (Some d) side qty of (f, acc) \<Rightarrow> (the f, acc))"
| "shared_run d (Enable on) = (d, fmma_fpga_set_enabled (Some d) on)"
| "shared_run d (Config c) = (d, fmma_fpga_push_config (Some d) (Some c))"
| "shared_run d (CpuStore a v) = (d, if cpu_may_store a then [Store a v] else [])"

definition tick_inv :: "fmma_fpga \<Rightarrow> bool" where
  "tick_inv d \<longleftrightarrow> fpga_regs d \<and> even (fpga_tick_seq d)"

lemmas fpga_simps = fmma_fpga_publish_tick_def fmma_fpga_report_fill_def fmma_fpga_set_enabled_def
  fmma_fpga_push_config_def fmma_fpga_present_def cpu_may_store_def

lemma even_step: "even (s :: u32) \<Longrightarrow> odd (s + 1)" "even (s :: u32) \<Longrightarrow> even (s + 1 + 1)"
  by simp_all

interpretation market: seqlock_writer FMMA_TICK_SEQ market_words tick_inv fpga_tick_seq shared_run
proof unfold_locales
  fix d x
  assume "tick_inv d"
  then have d: "fpga_regs d" "even (fpga_tick_seq d)" by (simp_all add: tick_inv_def)
  show "even (fpga_tick_seq d)" by (rule d)
  show "tick_inv (fst (shared_run d x))"
    using d by (cases x) (simp_all add: tick_inv_def fpga_simps Let_def)
  show "seqlock_ok FMMA_TICK_SEQ market_words (fpga_tick_seq d) (snd (shared_run d x))"
    using d by (cases x) (auto simp: fpga_simps Let_def market_words_def)
  show "fpga_tick_seq (fst (shared_run d x)) =
      fpga_tick_seq d + word_of_nat (seq_stores FMMA_TICK_SEQ (snd (shared_run d x)))"
    using d by (cases x) (auto simp: fpga_simps Let_def)
qed

text \<open>The quotes a sequence of operations publishes, and the sequence number of the last one.\<close>

fun quotes :: "shared_op list \<Rightarrow> (u32 \<times> u32) list" where
  "quotes [] = []"
| "quotes (Tick b a bs as # xs) = (b, a) # quotes xs"
| "quotes (ReportFill side qty # xs) = quotes xs"
| "quotes (Enable on # xs) = quotes xs"
| "quotes (Config c # xs) = quotes xs"
| "quotes (CpuStore a v # xs) = quotes xs"

lemma stores_two_per_tick:
  "fpga_regs d \<Longrightarrow> seq_stores FMMA_TICK_SEQ (trace shared_run d xs) = 2 * length (quotes xs)"
  by (induction xs arbitrary: d rule: quotes.induct) (auto simp: fpga_simps Let_def)

lemma tick_prefix_odd:
  assumes "fpga_regs d" "even (fpga_tick_seq d)" "0 < k" "k < 8"
  shows "odd (run_accesses (take k (snd (shared_run d (Tick b a bs as)))) m FMMA_TICK_SEQ)"
proof -
  have "k \<in> {1, 2, 3, 4, 5, 6, 7}" using assms(3,4) by auto
  then show ?thesis using assms(1,2) by (auto simp: fpga_simps Let_def numeral_eq_Suc)
qed

lemma other_op_keeps_quote:
  assumes "fpga_regs d" "\<forall>b a bs as. x \<noteq> Tick b a bs as" "w \<in> {FMMA_BID, FMMA_ASK}"
  shows "run_accesses (take k (snd (shared_run d x))) m w = m w"
proof (rule run_accesses_frame)
  have sub: "store_addrs (take k xs) \<subseteq> store_addrs xs" for k xs
    by (metis append_take_drop_id store_addrs_append Un_upper1)
  have "w \<notin> store_addrs (snd (shared_run d x))"
    using assms by (cases x) (auto simp: fpga_simps Let_def)
  then show "w \<notin> store_addrs (take k (snd (shared_run d x)))" using sub by blast
qed

lemma run_keeps_regs: "fpga_regs d \<Longrightarrow> fpga_regs (fst (shared_run d x))"
  by (cases x) (simp_all add: fpga_simps Let_def)

lemma stable_quote:
  assumes "tick_inv d" "m FMMA_TICK_SEQ = fpga_tick_seq d"
    "even (run_accesses (take k (trace shared_run d xs)) m FMMA_TICK_SEQ)"
  shows "(run_accesses (take k (trace shared_run d xs)) m FMMA_BID,
          run_accesses (take k (trace shared_run d xs)) m FMMA_ASK)
         \<in> insert (m FMMA_BID, m FMMA_ASK) (set (quotes xs))"
  using assms
proof (induction xs arbitrary: d m k)
  case Nil
  then show ?case by simp
next
  case (Cons x xs)
  let ?acc = "snd (shared_run d x)" and ?d = "fst (shared_run d x)"
  have d: "fpga_regs d" "even (fpga_tick_seq d)" using Cons.prems(1) by (simp_all add: tick_inv_def)
  show ?case
  proof (cases "k < length ?acc")
    case True
    then have tk: "take k (trace shared_run d (x # xs)) = take k ?acc" by simp
    show ?thesis
    proof (cases "\<exists>b a bs as. x = Tick b a bs as")
      case tick: True
      then obtain b a bs as where x: "x = Tick b a bs as" by blast
      have "k < 8" using True by (simp add: x fpga_simps d Let_def)
      then have "k = 0" using tick_prefix_odd [OF d, of k] Cons.prems(3) unfolding tk unfolding x by blast
      then show ?thesis by simp
    next
      case False
      then show ?thesis unfolding tk using other_op_keeps_quote [OF d(1)] by simp
    qed
  next
    case False
    then have tk: "take k (trace shared_run d (x # xs)) = ?acc @ take (k - length ?acc) (trace shared_run ?d xs)"
      by simp
    let ?m = "run_accesses ?acc m"
    have seq: "?m FMMA_TICK_SEQ = fpga_tick_seq ?d"
      using seqlock_seq_value [OF market.run_ok [OF Cons.prems(1)], of m x] Cons.prems(2)
        market.run_cur [OF Cons.prems(1), of x] by simp
    have "(?m FMMA_BID, ?m FMMA_ASK) \<in> insert (m FMMA_BID, m FMMA_ASK) (set (quotes (x # xs)))"
    proof (cases "\<exists>b a bs as. x = Tick b a bs as")
      case True
      then show ?thesis using d by (auto simp: fpga_simps Let_def)
    next
      case nt: False
      then show ?thesis
        using other_op_keeps_quote [OF d(1), of x _ "length ?acc" m] by simp
    qed
    moreover have "set (quotes xs) \<subseteq> set (quotes (x # xs))" by (cases x) auto
    ultimately show ?thesis
      using Cons.IH [of ?d ?m "k - length ?acc", OF market.run_inv [OF Cons.prems(1), of x] seq] Cons.prems(3)
      unfolding tk by auto
  qed
qed

text \<open>
  C4. The CPU never acts on a torn quote. Take any sequence of quotes, fills, switch and
  configuration changes of the host, mixed with any stores of the CPU into its own words, fewer
  than \<open>2 ^ 31\<close> quotes long. If the CPU reads an even \<open>TICK_SEQ\<close> at one moment, \<open>BID\<close> and \<open>ASK\<close>
  at two later moments, and then the same \<open>TICK_SEQ\<close> again, at any four points between the
  individual stores, then the two prices it holds are the two prices of one published quote
  (or of the block as it was found).
\<close>

theorem seqlock_reader_consistent:
  assumes "tick_inv d" "m FMMA_TICK_SEQ = fpga_tick_seq d" "length (quotes xs) < 2 ^ 31"
    "k1 \<le> k2" "k2 \<le> k3" "k3 \<le> k4"
    "even (run_accesses (take k1 (trace shared_run d xs)) m FMMA_TICK_SEQ)"
    "run_accesses (take k4 (trace shared_run d xs)) m FMMA_TICK_SEQ =
     run_accesses (take k1 (trace shared_run d xs)) m FMMA_TICK_SEQ"
  shows "(run_accesses (take k2 (trace shared_run d xs)) m FMMA_BID,
          run_accesses (take k3 (trace shared_run d xs)) m FMMA_ASK)
         \<in> insert (m FMMA_BID, m FMMA_ASK) (set (quotes xs))"
proof -
  have "fpga_regs d" using assms(1) by (simp add: tick_inv_def)
  then have n: "seq_stores FMMA_TICK_SEQ (trace shared_run d xs) < 2 ^ 32"
    using assms(3) by (simp add: stores_two_per_tick)
  have in_block: "FMMA_BID \<in> set market_words" "FMMA_ASK \<in> set market_words"
    by (simp_all add: market_words_def)
  have "run_accesses (take k2 (trace shared_run d xs)) m FMMA_BID =
      run_accesses (take k1 (trace shared_run d xs)) m FMMA_BID"
    using assms(4-6) by (intro market.reader_stable [where m = m, OF assms(1,2) _ _ n assms(7,8) in_block(1)]) simp_all
  moreover have "run_accesses (take k3 (trace shared_run d xs)) m FMMA_ASK =
      run_accesses (take k1 (trace shared_run d xs)) m FMMA_ASK"
    using assms(4-6) by (intro market.reader_stable [where m = m, OF assms(1,2) _ _ n assms(7,8) in_block(2)]) simp_all
  ultimately show ?thesis using stable_quote [where m = m, OF assms(1,2,7)] by simp
qed

abbreviation demo_fpga :: fmma_fpga where
  "demo_fpga \<equiv> \<lparr>fpga_regs = True, fpga_map = True, fpga_fd = 3, fpga_tick_seq = 4, fpga_fill_seq = 0,
     fpga_signal_seq = 0, fpga_heartbeat = 0\<rparr>"

theorem seqlock_reader_consistent_witness:
  "let m = (\<lambda>_. 0)(FMMA_TICK_SEQ := 4);
       t = trace shared_run demo_fpga [Tick 100 102 1 1, Enable False, Tick 90 93 1 1]
   in (run_accesses (take 9 t) m FMMA_BID, run_accesses (take 10 t) m FMMA_ASK) \<in> {(0, 0), (100, 102), (90, 93)}"
proof -
  let ?m = "(\<lambda>_. 0)(FMMA_TICK_SEQ := 4) :: ram"
  let ?xs = "[Tick 100 102 1 1, Enable False, Tick 90 93 1 1]"
  have "tick_inv demo_fpga" by (simp add: tick_inv_def)
  moreover have "even (run_accesses (take 8 (trace shared_run demo_fpga ?xs)) ?m FMMA_TICK_SEQ)"
    by (simp add: fpga_simps Let_def numeral_eq_Suc)
  moreover have "run_accesses (take 10 (trace shared_run demo_fpga ?xs)) ?m FMMA_TICK_SEQ =
      run_accesses (take 8 (trace shared_run demo_fpga ?xs)) ?m FMMA_TICK_SEQ"
    by (simp add: fpga_simps Let_def numeral_eq_Suc)
  ultimately show ?thesis
    using seqlock_reader_consistent [of demo_fpga ?m ?xs 8 9 10 10] by (simp add: Let_def)
qed

section \<open>Loading the program\<close>

definition body_stores :: "access list" where
  "body_stores = map (\<lambda>i. Store (FPGA_PROGRAM_BASE + i) (fpga_program ! i)) [1..<FPGA_PROGRAM_LEN]"

lemma body_run:
  "run_accesses (map (\<lambda>i. Store (b + i) (f i)) is) m w =
     (if \<exists>i \<in> set is. w = b + i then f (w - b) else m w)"
  by (induction "is" arbitrary: m) (auto simp: fun_upd_def)

lemma body_prefix_entry: "run_accesses (take n body_stores) m FPGA_PROGRAM_BASE = m FPGA_PROGRAM_BASE"
proof -
  have "take n body_stores =
      map (\<lambda>i. Store (FPGA_PROGRAM_BASE + i) (fpga_program ! i)) (take n [1..<FPGA_PROGRAM_LEN])"
    by (simp add: body_stores_def take_map)
  moreover have "\<not> (\<exists>i \<in> set (take n [1..<FPGA_PROGRAM_LEN]). FPGA_PROGRAM_BASE = FPGA_PROGRAM_BASE + i)"
    using set_take_subset [of n "[1..<FPGA_PROGRAM_LEN]"] by auto
  ultimately show ?thesis by (simp only: body_run if_False)
qed

lemma body_done:
  assumes "0 < i" "i < FPGA_PROGRAM_LEN"
  shows "run_accesses body_stores m (FPGA_PROGRAM_BASE + i) = fpga_program ! i"
  unfolding body_stores_def body_run using assms by auto

lemma program_stores_split:
  "program_stores = body_stores @ [Barrier, Store FPGA_PROGRAM_BASE (fpga_program ! 0), Barrier]"
  by (simp add: program_stores_def body_stores_def)

lemma take_tail:
  "take n (xs @ [Barrier, Store a v, Barrier]) = take n xs \<or>
   take n (xs @ [Barrier, Store a v, Barrier]) = xs @ [Barrier] \<or>
   (\<exists>ys. set ys \<subseteq> {Barrier} \<and> take n (xs @ [Barrier, Store a v, Barrier]) = xs @ [Barrier, Store a v] @ ys)"
proof -
  consider "n \<le> length xs" | "n = length xs + 1" | "n = length xs + 2" | "n \<ge> length xs + 3" by linarith
  then show ?thesis
  proof cases
    case 4
    then have "take n (xs @ [Barrier, Store a v, Barrier]) = xs @ [Barrier, Store a v] @ [Barrier]" by simp
    then show ?thesis by (metis empty_subsetI insert_subset list.set(1,2) singletonI)
  qed (auto intro: exI [of _ "[]"])
qed

lemma run_barriers: "set ys \<subseteq> {Barrier} \<Longrightarrow> run_accesses ys m = m"
  by (induction ys) auto

text \<open>
  C21. A partially written program cannot start: at every moment while the image is being stored,
  either the entry word still holds what it held before (the halt instruction zero after
  configuration of the fabric), or every one of the 154 words of the program is in place.
\<close>

theorem program_entry_last:
  "run_accesses (take n program_stores) m FPGA_PROGRAM_BASE = m FPGA_PROGRAM_BASE \<or>
   map (\<lambda>i. run_accesses (take n program_stores) m (FPGA_PROGRAM_BASE + i)) [0..<FPGA_PROGRAM_LEN] = fpga_program"
proof -
  let ?P = FPGA_PROGRAM_BASE and ?e = "fpga_program ! 0"
  consider "take n program_stores = take n body_stores" | "take n program_stores = body_stores @ [Barrier]"
    | (all) ys where "set ys \<subseteq> {Barrier}" "take n program_stores = body_stores @ [Barrier, Store ?P ?e] @ ys"
    using take_tail [of n body_stores ?P ?e] unfolding program_stores_split by blast
  then show ?thesis
  proof cases
    case 1
    then show ?thesis using body_prefix_entry [of n m] by simp
  next
    case 2
    then show ?thesis using body_prefix_entry [of "length body_stores" m] by simp
  next
    case all
    then have "run_accesses (take n program_stores) m = (run_accesses body_stores m)(?P := ?e)"
      by (simp add: run_barriers)
    then have "run_accesses (take n program_stores) m (?P + i) = fpga_program ! i" if "i < FPGA_PROGRAM_LEN" for i
      using body_done [of i m] that by (cases "i = 0") auto
    then show ?thesis by (auto intro!: nth_equalityI)
  qed
qed

text \<open>Readback succeeds exactly when the view holds the image.\<close>

lemma readback_iff: "readback_from view a ws \<longleftrightarrow> (\<forall>i < length ws. view (a + i) = ws ! i)"
proof (induction view a ws rule: readback_from.induct)
  case (2 view a w ws)
  then show ?case by (auto simp: nth_Cons less_Suc_eq_0_disj split: nat.splits)
qed simp

lemma write_program_eq:
  "write_program view =
    (program_stores, if \<forall>i < FPGA_PROGRAM_LEN. view (FPGA_PROGRAM_BASE + i) = fpga_program ! i then 0 else - 1)"
  by (simp add: write_program_def readback_iff) (simp add: FPGA_PROGRAM_BASE_def FPGA_PROGRAM_LEN_def)

text \<open>One poll of the wait loop: the CPU is up; it is not up but may still come up.\<close>

definition poll_up :: "u32 \<Rightarrow> ram \<Rightarrow> bool" where
  "poll_up beat0 v \<longleftrightarrow> v FMMA_FW_VERSION = FMMA_PROTOCOL_VERSION \<and> v FMMA_HEARTBEAT \<noteq> beat0"

definition poll_again :: "u32 \<Rightarrow> nat \<Rightarrow> ram \<Rightarrow> bool" where
  "poll_again beat0 i v \<longleftrightarrow>
     v FMMA_FW_VERSION = 0 \<and> (v FMMA_HEARTBEAT = beat0 \<or> i \<le> 20) \<or>
     v FMMA_FW_VERSION = FMMA_PROTOCOL_VERSION \<and> v FMMA_HEARTBEAT = beat0"

definition comes_up :: "u32 \<Rightarrow> (nat \<Rightarrow> ram) \<Rightarrow> nat \<Rightarrow> nat \<Rightarrow> nat \<Rightarrow> bool" where
  "comes_up beat0 views i n k \<longleftrightarrow>
     i \<le> k \<and> k < i + n \<and> poll_up beat0 (views k) \<and> (\<forall>j. i \<le> j \<and> j < k \<longrightarrow> poll_again beat0 j (views j))"

lemma comes_up_Suc:
  "comes_up beat0 views i (Suc n) k \<longleftrightarrow>
     (k = i \<and> poll_up beat0 (views i)) \<or>
     (poll_again beat0 i (views i) \<and> comes_up beat0 views (Suc i) n k)"
proof (cases "k = i")
  case False
  have "(\<forall>j. i \<le> j \<and> j < k \<longrightarrow> poll_again beat0 j (views j)) \<longleftrightarrow>
      poll_again beat0 i (views i) \<and> (\<forall>j. Suc i \<le> j \<and> j < k \<longrightarrow> poll_again beat0 j (views j))"
    if "i < k" using that by (metis Suc_leD le_less_Suc_eq not_less_eq_eq le_eq_less_or_eq Suc_leI)
  then show ?thesis using False by (auto simp: comes_up_def)
qed (auto simp: comes_up_def)

lemma wait_loop_up:
  "comes_up beat0 views i left k \<Longrightarrow> wait_loop left i beat0 views f =
     (f\<lparr>fpga_heartbeat := views k FMMA_HEARTBEAT, fpga_signal_seq := views k FMMA_SIGNAL_SEQ,
        fpga_fill_seq := views k FMMA_FILL_SEQ, fpga_tick_seq := views k FMMA_TICK_SEQ AND NOT 1\<rparr>, 0)"
proof (induction left i beat0 views f rule: wait_loop.induct)
  case (1 i beat0 views f)
  then show ?case by (auto simp: comes_up_def)
next
  case (2 left i beat0 views f)
  show ?case
  proof (cases "poll_up beat0 (views i)")
    case True
    then have "\<not> poll_again beat0 i (views i)" by (auto simp: poll_up_def poll_again_def)
    then have "k = i" using 2(2) by (simp add: comes_up_Suc)
    then show ?thesis using True by (simp add: Let_def poll_up_def)
  next
    case False
    then have go: "poll_again beat0 i (views i)" "comes_up beat0 views (i + 1) left k"
      using 2(2) by (simp_all add: comes_up_Suc)
    then have "wait_loop (Suc left) i beat0 views f = wait_loop left (i + 1) beat0 views f"
      using False by (auto simp: Let_def poll_up_def poll_again_def)
    moreover have "wait_loop left (i + 1) beat0 views f =
     (f\<lparr>fpga_heartbeat := views k FMMA_HEARTBEAT, fpga_signal_seq := views k FMMA_SIGNAL_SEQ,
        fpga_fill_seq := views k FMMA_FILL_SEQ, fpga_tick_seq := views k FMMA_TICK_SEQ AND NOT 1\<rparr>, 0)"
      using go False by (intro 2) (auto simp: poll_up_def poll_again_def)
    ultimately show ?thesis by (simp only:)
  qed
qed

lemma wait_loop_down:
  "(\<And>k. \<not> comes_up beat0 views i left k) \<Longrightarrow> wait_loop left i beat0 views f = (f, - 1)"
proof (induction left i beat0 views f rule: wait_loop.induct)
  case (1 i beat0 views f)
  then show ?case by simp
next
  case (2 left i beat0 views f)
  have nu: "\<not> poll_up beat0 (views i)" using 2(2) [of i] by (simp add: comes_up_Suc)
  show ?case
  proof (cases "poll_again beat0 i (views i)")
    case True
    then have "wait_loop (Suc left) i beat0 views f = wait_loop left (i + 1) beat0 views f"
      using nu by (auto simp: Let_def poll_up_def poll_again_def)
    moreover have "wait_loop left (i + 1) beat0 views f = (f, - 1)"
      using True nu 2(2) by (intro 2(1)) (auto simp: poll_up_def poll_again_def comes_up_Suc)
    ultimately show ?thesis by (simp only:)
  next
    case False
    then show ?thesis using nu by (auto simp: Let_def poll_up_def poll_again_def)
  qed
qed

text \<open>
  C20. What a load reports is what happened: on a mapped device it succeeds if and only if the
  readback found all 154 words of the image and, in one of the 50 polls, the CPU declared
  protocol version 2 with a moving heartbeat and no earlier poll saw a foreign version or (after
  poll 20) a beating CPU that declares none. On success the handle holds the sequence numbers the
  CPU and the RAM had at that poll, and the tick counter is even; on failure it is unchanged.
\<close>

theorem load_succeeds_iff:
  assumes "fpga_regs d"
  shows "case fmma_fpga_load (Some d) cfg view beat0 views of (acc, f, rc) \<Rightarrow>
    (rc = 0 \<longleftrightarrow> (\<forall>i < FPGA_PROGRAM_LEN. view (FPGA_PROGRAM_BASE + i) = fpga_program ! i) \<and>
                (\<exists>k. comes_up beat0 views 0 50 k)) \<and>
    (rc = 0 \<longrightarrow> (\<exists>k d'. comes_up beat0 views 0 50 k \<and> f = Some d' \<and> tick_inv d' \<and>
       fpga_signal_seq d' = views k FMMA_SIGNAL_SEQ \<and> fpga_fill_seq d' = views k FMMA_FILL_SEQ)) \<and>
    (rc \<noteq> 0 \<longrightarrow> rc = - 1 \<and> f = Some d)"
proof (cases "\<forall>i < FPGA_PROGRAM_LEN. view (FPGA_PROGRAM_BASE + i) = fpga_program ! i")
  case True
  then have w: "write_program view = (program_stores, 0)" by (simp add: write_program_eq)
  show ?thesis
  proof (cases "\<exists>k. comes_up beat0 views 0 50 k")
    case up: True
    then obtain k where k: "comes_up beat0 views 0 50 k" by blast
    have ev: "even (x AND NOT 1)" for x :: u32 by (simp add: even_and_iff)
    show ?thesis using True k ev assms
      by (auto simp: fmma_fpga_load_def fmma_fpga_present_def w wait_for_cpu_def wait_loop_up [OF k] Let_def
          tick_inv_def)
  next
    case False
    then show ?thesis using True assms
      by (simp add: fmma_fpga_load_def fmma_fpga_present_def w wait_for_cpu_def wait_loop_down Let_def)
  qed
next
  case False
  then have w: "write_program view = (program_stores, - 1)" by (simp add: write_program_eq)
  then show ?thesis using assms False by (auto simp: fmma_fpga_load_def fmma_fpga_present_def Let_def)
qed

text \<open>A RAM in which the CPU has come up: the image in place, version 2, a heartbeat.\<close>

definition booted_ram :: ram where
  "booted_ram a = (if a = FMMA_FW_VERSION then 2 else if a = FMMA_HEARTBEAT then 9
     else if a < FPGA_PROGRAM_BASE + FPGA_PROGRAM_LEN then fpga_program ! (a - FPGA_PROGRAM_BASE) else 0)"

theorem load_succeeds_iff_witness:
  "snd (snd (fmma_fpga_load (Some demo_fpga) None booted_ram 5 (\<lambda>_. booted_ram))) = 0"
proof -
  have "comes_up 5 (\<lambda>_. booted_ram) 0 50 0"
    by (simp add: comes_up_def poll_up_def booted_ram_def)
  moreover have "\<forall>i < FPGA_PROGRAM_LEN. booted_ram (FPGA_PROGRAM_BASE + i) = fpga_program ! i"
    by (simp add: booted_ram_def FPGA_PROGRAM_LEN_def FPGA_PROGRAM_BASE_def)
  ultimately show ?thesis
    using load_succeeds_iff [where d = demo_fpga and cfg = None and view = booted_ram and ?beat0.0 = 5
        and views = "\<lambda>_. booted_ram"] by (auto split: prod.splits)
qed

section \<open>Who writes what\<close>

text \<open>
  Direction of the protocol: no runtime operation of the host, closing included, stores
  outside the host's own input block (words 256 to 319), whatever the arguments; in particular it
  never touches the program, the CPU's output block or a word beyond the RAM.
\<close>

theorem host_writes_input_block:
  "store_addrs (fst (snd (fmma_fpga_publish_tick f b a bs as))) \<union> store_addrs (snd (fmma_fpga_report_fill f side qty))
   \<union> store_addrs (fmma_fpga_set_enabled f on) \<union> store_addrs (fmma_fpga_push_config f cfg)
   \<union> store_addrs (fmma_fpga_close f) \<subseteq> {FMMA_INPUT_BASE..<FMMA_OUTPUT_BASE}"
  by (auto simp: fpga_simps fmma_fpga_close_def Let_def split: option.splits if_splits)

text \<open>
  The exception is start-up: a load that gets as far as waiting for the CPU does store into
  the output block, to clear \<open>FW_VERSION\<close>.
\<close>

theorem load_writes_output_block:
  assumes "fpga_regs d" "\<forall>i < FPGA_PROGRAM_LEN. view (FPGA_PROGRAM_BASE + i) = fpga_program ! i"
  shows "FMMA_FW_VERSION \<in> store_addrs (fst (fmma_fpga_load (Some d) cfg view beat0 views)) \<and>
    FMMA_OUTPUT_BASE \<le> FMMA_FW_VERSION"
  using assms by (simp add: fmma_fpga_load_def fmma_fpga_present_def write_program_eq wait_for_cpu_def
      wait_stores_def Let_def split_beta)

theorem load_writes_output_block_witness:
  "FMMA_FW_VERSION \<in> store_addrs (fst (fmma_fpga_load (Some demo_fpga) None booted_ram 5 (\<lambda>_. booted_ram)))"
  using load_writes_output_block [where d = demo_fpga and cfg = None and view = booted_ram and ?beat0.0 = 5
      and views = "\<lambda>_. booted_ram"]
  by (simp add: booted_ram_def FPGA_PROGRAM_LEN_def FPGA_PROGRAM_BASE_def)

section \<open>Reading decisions\<close>

text \<open>The decisions a sequence of polls delivers, from the views the polls had.\<close>

fun poll_all :: "fmma_fpga option \<Rightarrow> ram list \<Rightarrow> fmma_fpga option \<times> fmma_signal list" where
  "poll_all f [] = (f, [])"
| "poll_all f (v # vs) =
     (case fmma_fpga_poll_signal f v of (f1, s) \<Rightarrow>
        case poll_all f1 vs of (f2, ss) \<Rightarrow> (f2, (case s of None \<Rightarrow> [] | Some x \<Rightarrow> [x]) @ ss))"

fun accounted :: "fmma_signal list \<Rightarrow> u32" where
  "accounted [] = 0"
| "accounted (s # ss) = 1 + sig_missed s + accounted ss"

lemma poll_signal_cases:
  assumes "fpga_regs d"
  shows "fmma_fpga_poll_signal (Some d) v =
    (if v FMMA_SIGNAL_SEQ = fpga_signal_seq d then (Some d, None)
     else (Some (d\<lparr>fpga_signal_seq := v FMMA_SIGNAL_SEQ\<rparr>),
           Some \<lparr>sig_side = v FMMA_SIGNAL, sig_tick = v FMMA_SIGNAL_TICK, sig_seq = v FMMA_SIGNAL_SEQ,
                 sig_missed = v FMMA_SIGNAL_SEQ - fpga_signal_seq d - 1\<rparr>))"
  using assms by (simp add: fmma_fpga_poll_signal_def fmma_fpga_present_def Let_def)

text \<open>
  C22. No decision disappears silently: over any sequence of polls, each with its own view of the
  RAM, the decisions delivered plus the decisions reported as missed add up to exactly the
  distance \<open>SIGNAL_SEQ\<close> travelled (modulo the \<open>2 ^ 32\<close> of the counter), and a poll that sees no
  new \<open>SIGNAL_SEQ\<close> delivers nothing.
\<close>

theorem poll_accounts_for_every_decision:
  assumes "fpga_regs d" "vs \<noteq> []"
  shows "accounted (snd (poll_all (Some d) vs)) = last vs FMMA_SIGNAL_SEQ - fpga_signal_seq d \<and>
    length (snd (poll_all (Some d) vs)) \<le> length vs"
  using assms
proof (induction vs arbitrary: d)
  case (Cons v vs)
  define d' where "d' = (if v FMMA_SIGNAL_SEQ = fpga_signal_seq d then d
    else d\<lparr>fpga_signal_seq := v FMMA_SIGNAL_SEQ\<rparr>)"
  have d': "fpga_regs d'" "fpga_signal_seq d' = v FMMA_SIGNAL_SEQ"
    using Cons.prems(1) by (auto simp: d'_def)
  show ?case
  proof (cases vs)
    case Nil
    then show ?thesis using Cons.prems(1) by (simp add: poll_signal_cases)
  next
    case (Cons w ws)
    then have IH: "accounted (snd (poll_all (Some d') vs)) = last vs FMMA_SIGNAL_SEQ - fpga_signal_seq d'"
      "length (snd (poll_all (Some d') vs)) \<le> length vs"
      using Cons.IH [OF d'(1)] by simp_all
    have "fmma_fpga_poll_signal (Some d) v = (Some d',
        if v FMMA_SIGNAL_SEQ = fpga_signal_seq d then None
        else Some \<lparr>sig_side = v FMMA_SIGNAL, sig_tick = v FMMA_SIGNAL_TICK, sig_seq = v FMMA_SIGNAL_SEQ,
                 sig_missed = v FMMA_SIGNAL_SEQ - fpga_signal_seq d - 1\<rparr>)"
      using Cons.prems(1) by (simp add: poll_signal_cases d'_def)
    then show ?thesis using IH d'(2) Cons by (auto simp: split_beta)
  qed
qed simp

theorem poll_accounts_for_every_decision_witness:
  "accounted (snd (poll_all (Some demo_fpga) [(\<lambda>_. 1), (\<lambda>_. 1), (\<lambda>_. 4)])) = 4"
  using poll_accounts_for_every_decision [of demo_fpga "[(\<lambda>_. 1), (\<lambda>_. 1), (\<lambda>_. 4)]"] by simp

text \<open>
  With no device every operation is harmless: nothing is stored, no decision is delivered, and
  the sequence numbers and counters read as zero.
\<close>

theorem absent_device_is_inert:
  assumes "\<not> fmma_fpga_present f"
  shows "fmma_fpga_publish_tick f b a bs as = (f, [], 0) \<and> fmma_fpga_report_fill f side qty = (f, []) \<and>
    fmma_fpga_set_enabled f on = [] \<and> fmma_fpga_push_config f cfg = [] \<and> fmma_fpga_write f w v = [] \<and>
    fmma_fpga_read f view w = 0 \<and> fmma_fpga_poll_signal f view = (f, None) \<and>
    fmma_fpga_heartbeat_delta f view = (f, 0) \<and> fmma_fpga_load f cfg view beat0 views = ([], f, - 1)"
  using assms by (cases f) (auto simp: fpga_simps fmma_fpga_write_def fmma_fpga_read_def
      fmma_fpga_poll_signal_def fmma_fpga_heartbeat_delta_def fmma_fpga_load_def split: option.splits)

theorem absent_device_is_inert_witness:
  "fmma_fpga_publish_tick None 1 2 3 4 = (None, [], 0)"
  using absent_device_is_inert [of None] by (simp add: fmma_fpga_present_def)

end
