(* ===== verification/Fmma_Fixed.thy ===== *)
theory Fmma_Fixed
  imports Fmma_Prelude
begin

text \<open>
  Fixed-point decimal conversion, \<open>Software/src/fmma_fixed.c\<close>: parsing a decimal
  string into a scaled integer, formatting it back, and clamping a price into the range
  the fabric's signed comparisons can represent. The padding loop of the parser compares
  32-bit products and may not end for a scale above \<open>10 ^ 9\<close>, so the parser returns an
  \<open>option\<close>, where \<open>None\<close> means that the call does not return.
\<close>

section \<open>The code\<close>

definition FMMA_PARSE_ERROR :: int where
  "FMMA_PARSE_ERROR = int64_min"

definition WHOLE_SATURATE :: int where
  "WHOLE_SATURATE = 100000000"

definition FMMA_PRICE_MAX :: int where
  "FMMA_PRICE_MAX = 0x3FFFFFFF"

text \<open>The optional sign: is it negative, and where the digits start.\<close>

definition parse_sign :: "string \<Rightarrow> bool \<times> string" where
  "parse_sign p =
     (if c_at p 0 = CHR ''-'' then (True, tl p)
      else if c_at p 0 = CHR ''+'' then (False, tl p)
      else (False, p))"

text \<open>The loop over the integer part, with its saturation test.\<close>

fun scan_whole :: "int \<Rightarrow> string \<Rightarrow> int \<times> string" where
  "scan_whole whole [] = (whole, [])"
| "scan_whole whole (c # p) =
     (if is_digit c then
        scan_whole (if whole < WHOLE_SATURATE then s64 (s64 (whole * 10) + digit_val c) else whole) p
      else (whole, c # p))"

text \<open>The loop over the digits after the point: \<open>frac\<close> and \<open>div\<close>.\<close>

fun scan_frac :: "u32 \<Rightarrow> int \<Rightarrow> u32 \<Rightarrow> string \<Rightarrow> int \<times> u32" where
  "scan_frac scale frac dv [] = (frac, dv)"
| "scan_frac scale frac dv (c # p) =
     (if is_digit c then
        (if dv < scale then scan_frac scale (s64 (s64 (frac * 10) + digit_val c)) (dv * 10) p
         else scan_frac scale frac dv p)
      else (frac, dv))"

text \<open>The loop that pads a short fraction: \<open>while (div < scale)\<close>.\<close>

partial_function (option) pad_frac :: "u32 \<Rightarrow> int \<Rightarrow> u32 \<Rightarrow> int option" where
  "pad_frac scale frac dv =
     (if dv < scale then pad_frac scale (s64 (frac * 10)) (dv * 10) else Some frac)"

definition fmma_parse_scaled :: "string option \<Rightarrow> u32 \<Rightarrow> int option" where
  "fmma_parse_scaled s scale =
     (case s of
        None \<Rightarrow> Some FMMA_PARSE_ERROR
      | Some p0 \<Rightarrow>
          if scale = 0 then Some FMMA_PARSE_ERROR
          else
            let (neg, p1) = parse_sign p0 in
            if \<not> is_digit (c_at p1 0) then Some FMMA_PARSE_ERROR
            else
              let (whole, p2) = scan_whole 0 p1;
                  (frac, dv) = (if c_at p2 0 = CHR ''.'' then scan_frac scale 0 1 (tl p2) else (0, 1))
              in do {
                frac' \<leftarrow> pad_frac scale frac dv;
                let v = s64 (s64 (whole * uint scale) + frac');
                Some (if neg then s64 (- v) else v)
              })"

text \<open>
  The number of digits a scale implies: the loop
  \<open>for (d = scale; d > 1 && digits < 9; d /= 10) digits++\<close>.
\<close>

function scale_digits :: "u32 \<Rightarrow> nat \<Rightarrow> nat" where
  "scale_digits d digits =
     (if d > 1 \<and> digits < 9 then scale_digits (d div 10) (Suc digits) else digits)"
  by pat_completeness auto
termination
  by (relation "measure (\<lambda>(d, digits). 9 - digits)") auto

declare scale_digits.simps [simp del]

text \<open>
  The text \<open>snprintf\<close> produces, before the truncation to the buffer: a sign, the whole
  part and, when the scale has digits, the point and the zero-padded fraction.
\<close>

definition format_text :: "int \<Rightarrow> u32 \<Rightarrow> string" where
  "format_text value scale0 =
     (let scale = (if scale0 = 0 then 1 else scale0);
          neg = (value < 0);
          mag = (word_of_int (if neg then s64 (- value) else value) :: u64);
          whole = mag div ucast scale;
          frac = mag mod ucast scale;
          digits = scale_digits scale 0;
          sign = (if neg then ''-'' else '''')
      in if digits > 0
         then sign @ dec_digits (unat whole) @ ''.'' @ zero_pad digits (dec_digits (unat frac))
         else sign @ dec_digits (unat whole))"

text \<open>
  \<open>fmma_format_scaled\<close> writes nothing into a NULL or empty buffer; otherwise the buffer
  holds the text, cut to its size.
\<close>

definition fmma_format_scaled :: "string option \<Rightarrow> nat \<Rightarrow> int \<Rightarrow> u32 \<Rightarrow> string option" where
  "fmma_format_scaled buf buflen value scale =
     (case buf of
        None \<Rightarrow> None
      | Some old \<Rightarrow>
          if buflen = 0 then Some old
          else Some (snprintf_store buflen (format_text value scale)))"

text \<open>\<open>fmma_clamp_price\<close> returns the clamped price and the value of \<open>*clamped\<close>.\<close>

definition fmma_clamp_price :: "int \<Rightarrow> u32 \<times> bool" where
  "fmma_clamp_price value =
     (if value < 0 then (0, True)
      else if value > FMMA_PRICE_MAX then (word_of_int FMMA_PRICE_MAX, True)
      else (word_of_int value, False))"

section \<open>Decimal values\<close>

text \<open>The value of a digit string, continued from an accumulator.\<close>

definition dec_from :: "int \<Rightarrow> string \<Rightarrow> int" where
  "dec_from v ds = foldl (\<lambda>v c. v * 10 + digit_val c) v ds"

abbreviation all_digits :: "string \<Rightarrow> bool" where
  "all_digits \<equiv> list_all is_digit"

text \<open>The text after a number: it does not continue the digits.\<close>

definition stops :: "string \<Rightarrow> bool" where
  "stops rest \<longleftrightarrow> \<not> is_digit (c_at rest 0)"

lemma dec_from_simps [simp]:
  "dec_from v [] = v"
  "dec_from v (c # ds) = dec_from (v * 10 + digit_val c) ds"
  "dec_from v (ds @ [c]) = dec_from v ds * 10 + digit_val c"
  by (simp_all add: dec_from_def)

lemma dec_from_append: "dec_from v (xs @ ys) = dec_from (dec_from v xs) ys"
  by (simp add: dec_from_def)

lemma is_digit_val: "is_digit c \<Longrightarrow> 0 \<le> digit_val c \<and> digit_val c \<le> 9"
  by (auto simp: is_digit_def digit_val_def)

lemma dec_from_ge: "all_digits ds \<Longrightarrow> 0 \<le> v \<Longrightarrow> v \<le> dec_from v ds"
proof (induction ds arbitrary: v)
  case Nil
  then show ?case by simp
next
  case (Cons c ds)
  then have d: "0 \<le> digit_val c" and ds: "all_digits ds"
    using is_digit_val [of c] by simp_all
  have "v * 10 + digit_val c \<le> dec_from (v * 10 + digit_val c) ds"
    using Cons.IH [OF ds] d Cons.prems(2) by simp
  with d Cons.prems(2) show ?case by simp
qed

lemma dec_from_linear: "dec_from v ds = v * 10 ^ length ds + dec_from 0 ds"
proof (induction ds arbitrary: v rule: rev_induct)
  case Nil
  then show ?case by simp
next
  case (snoc c ds)
  show ?case using snoc.IH [of v] by (simp add: algebra_simps)
qed

lemma dec_from_less: "all_digits ds \<Longrightarrow> dec_from 0 ds < 10 ^ length ds"
proof (induction ds rule: rev_induct)
  case Nil
  then show ?case by simp
next
  case (snoc c ds)
  then have "dec_from 0 ds + 1 \<le> 10 ^ length ds" and "digit_val c \<le> 9"
    by (auto dest: is_digit_val)
  then have "dec_from 0 ds * 10 + digit_val c < 10 * 10 ^ length ds" by linarith
  then show ?case by simp
qed

lemma nul_not_digit [simp]: "\<not> is_digit (CHR 0x00)"
  by (simp add: is_digit_def char_code_def)

lemma stops_Nil [simp]: "stops []"
  by (simp add: stops_def c_at_def)

lemma stops_Cons [simp]: "stops (c # cs) \<longleftrightarrow> \<not> is_digit c"
  by (simp add: stops_def c_at_def)

section \<open>The loops of the parser\<close>

lemma scan_whole_stops: "stops rest \<Longrightarrow> scan_whole w rest = (w, rest)"
  by (cases rest) simp_all

lemma scan_whole_exact:
  "all_digits ds \<Longrightarrow> stops rest \<Longrightarrow> 0 \<le> w \<Longrightarrow> dec_from w ds < 10 ^ 9 \<Longrightarrow>
   scan_whole w (ds @ rest) = (dec_from w ds, rest)"
proof (induction ds arbitrary: w)
  case Nil
  then show ?case by (simp add: scan_whole_stops)
next
  case (Cons c ds)
  let ?w = "w * 10 + digit_val c"
  have d: "0 \<le> digit_val c" "digit_val c \<le> 9" and ds: "all_digits ds"
    using Cons.prems(1) is_digit_val [of c] by simp_all
  have "?w \<le> dec_from ?w ds" using dec_from_ge [OF ds] d Cons.prems(3) by simp
  then have w: "w < WHOLE_SATURATE"
    using Cons.prems(4) d by (simp add: WHOLE_SATURATE_def)
  then have "s64 (s64 (w * 10) + digit_val c) = ?w"
    using d Cons.prems(3) by (simp add: s64_id WHOLE_SATURATE_def)
  with w show ?case using Cons.IH [OF ds Cons.prems(2), of ?w] Cons.prems d by simp
qed

lemma scan_whole_saturates:
  "all_digits ds \<Longrightarrow> stops rest \<Longrightarrow> 0 \<le> w \<Longrightarrow> w < 10 ^ 9 \<Longrightarrow>
   10 ^ 9 \<le> dec_from w ds \<or> WHOLE_SATURATE \<le> w \<Longrightarrow>
   \<exists>v. scan_whole w (ds @ rest) = (v, rest) \<and> WHOLE_SATURATE \<le> v \<and> v < 10 ^ 9"
proof (induction ds arbitrary: w)
  case Nil
  then show ?case by (auto simp: scan_whole_stops)
next
  case (Cons c ds)
  let ?w = "w * 10 + digit_val c"
  have d: "0 \<le> digit_val c" "digit_val c \<le> 9" and ds: "all_digits ds" and c: "is_digit c"
    using Cons.prems(1) is_digit_val [of c] by simp_all
  show ?case
  proof (cases "w < WHOLE_SATURATE")
    case True
    then have eq: "s64 (s64 (w * 10) + digit_val c) = ?w"
      using d Cons.prems(3) by (simp add: s64_id WHOLE_SATURATE_def)
    have "\<exists>v. scan_whole ?w (ds @ rest) = (v, rest) \<and> WHOLE_SATURATE \<le> v \<and> v < 10 ^ 9"
      using Cons.IH [OF ds Cons.prems(2), of ?w] Cons.prems(3,5) True d
      by (simp add: WHOLE_SATURATE_def)
    with True eq c show ?thesis by simp
  next
    case False
    with Cons.IH [OF ds Cons.prems(2), of w] Cons.prems(3,4) c show ?thesis by simp
  qed
qed

text \<open>Powers of ten up to \<open>10 ^ 9\<close> fit a \<open>uint32_t\<close>.\<close>

lemma pow10_bound: "j \<le> 9 \<Longrightarrow> (10::nat) ^ j \<le> 1000000000"
  using power_increasing [of j 9 "10::nat"] by simp

lemma int_pow10_bound: "j \<le> 9 \<Longrightarrow> (10::int) ^ j \<le> 1000000000"
  using power_increasing [of j 9 "10::int"] by simp

lemma unat_pow10: "j \<le> 9 \<Longrightarrow> unat ((10::u32) ^ j) = 10 ^ j"
proof -
  assume j: "j \<le> 9"
  have "(10::u32) ^ j = of_nat (10 ^ j)" by simp
  then have "unat ((10::u32) ^ j) = unat (of_nat (10 ^ j) :: u32)" by (simp only:)
  also have "\<dots> = 10 ^ j mod 2 ^ 32" by (simp only: unat_of_nat) simp
  also have "\<dots> = 10 ^ j" using pow10_bound [OF j] by simp
  finally show ?thesis .
qed

lemma uint_pow10: "j \<le> 9 \<Longrightarrow> uint ((10::u32) ^ j) = 10 ^ j"
  by (simp add: uint_nat unat_pow10)

lemma pow10_less_iff: "j \<le> 9 \<Longrightarrow> k \<le> 9 \<Longrightarrow> (10::u32) ^ j < 10 ^ k \<longleftrightarrow> j < k"
  by (simp add: word_less_nat_alt unat_pow10)

lemma scan_frac_stops: "stops rest \<Longrightarrow> scan_frac scale f dv rest = (f, dv)"
  by (cases rest) simp_all

lemma scan_frac_full: 
  "all_digits fs \<Longrightarrow> stops rest \<Longrightarrow> \<not> dv < scale \<Longrightarrow> scan_frac scale f dv (fs @ rest) = (f, dv)"
  by (induction fs) (simp_all add: scan_frac_stops)

lemma scan_frac_pow10:
  "all_digits fs \<Longrightarrow> stops rest \<Longrightarrow> j \<le> k \<Longrightarrow> k \<le> 9 \<Longrightarrow> 0 \<le> f \<Longrightarrow> f < 10 ^ j \<Longrightarrow>
   scan_frac (10 ^ k) f (10 ^ j) (fs @ rest) =
     (dec_from f (take (k - j) fs), 10 ^ min k (j + length fs))"
proof (induction fs arbitrary: f j)
  case Nil
  then show ?case by (simp add: scan_frac_stops min_def)
next
  case (Cons c fs)
  let ?f = "f * 10 + digit_val c"
  have d: "0 \<le> digit_val c" "digit_val c \<le> 9" and fs: "all_digits fs" and c: "is_digit c"
    using Cons.prems(1) is_digit_val [of c] by simp_all
  show ?case
  proof (cases "j < k")
    case True
    have "f + 1 \<le> 10 ^ j" using Cons.prems(6) by simp
    moreover have "(10::int) ^ j \<le> 10 ^ 9"
      using Cons.prems(3,4) by (intro power_increasing) auto
    ultimately have bnd: "?f < 10 ^ Suc j" "f < 10 ^ 9" using d by simp_all
    then have eq: "s64 (s64 (f * 10) + digit_val c) = ?f"
      using d Cons.prems(5) by (simp add: s64_id)
    have lt: "(10::u32) ^ j < 10 ^ k" using True Cons.prems(4) by (simp add: pow10_less_iff)
    have "scan_frac (10 ^ k) ?f (10 ^ Suc j) (fs @ rest) =
        (dec_from ?f (take (k - Suc j) fs), 10 ^ min k (Suc j + length fs))"
      using Cons.IH [OF fs Cons.prems(2), of "Suc j" ?f] True Cons.prems bnd d by simp
    moreover have "take (k - j) (c # fs) = c # take (k - Suc j) fs"
      using True by (simp add: take_Cons')
    ultimately show ?thesis using c lt eq True by (simp add: mult.commute)
  next
    case False
    then have "j = k" using Cons.prems(3) by simp
    then show ?thesis using scan_frac_full [OF fs Cons.prems(2)] c by simp
  qed
qed

lemma pad_frac_done: "\<not> dv < scale \<Longrightarrow> pad_frac scale f dv = Some f"
  by (simp add: pad_frac.simps)

lemma pad_frac_pow10:
  "m \<le> k \<Longrightarrow> k \<le> 9 \<Longrightarrow> 0 \<le> f \<Longrightarrow> f < 10 ^ m \<Longrightarrow>
   pad_frac (10 ^ k) f (10 ^ m) = Some (f * 10 ^ (k - m))"
proof (induction "k - m" arbitrary: f m)
  case 0
  then show ?case by (simp add: pad_frac_done)
next
  case (Suc n)
  then have mk: "m < k" by simp
  have lt: "(10::u32) ^ m < 10 ^ k" using mk Suc.prems(2) by (simp add: pow10_less_iff)
  have b: "f * 10 < 10 ^ Suc m" using Suc.prems(4) by simp
  have "f < 10 ^ 9" using int_pow10_bound [of m] Suc.prems mk by simp
  then have eq: "s64 (f * 10) = f * 10" using Suc.prems(3) by (simp add: s64_id)
  have "pad_frac (10 ^ k) (f * 10) (10 ^ Suc m) = Some (f * 10 * 10 ^ (k - Suc m))"
    using Suc.hyps(1) [of "Suc m" "f * 10"] Suc.hyps(2) Suc.prems mk b by simp
  moreover have "k - m = Suc (k - Suc m)" using mk by simp
  ultimately show ?case using lt eq
    by (simp add: pad_frac.simps [of "10 ^ k" f "10 ^ m"] mult.commute mult.left_commute)
qed

section \<open>What the parser computes\<close>

text \<open>
  The text of a number: an optional sign, at least one digit, optionally a point and more
  digits, and then anything that does not continue it.
\<close>

fun frac_part :: "string option \<Rightarrow> string" where
  "frac_part None = ''''"
| "frac_part (Some fs) = CHR ''.'' # fs"

fun frac_digits :: "string option \<Rightarrow> string" where
  "frac_digits None = ''''"
| "frac_digits (Some fs) = fs"

definition number_parts :: "string \<Rightarrow> string \<Rightarrow> string option \<Rightarrow> string \<Rightarrow> bool" where
  "number_parts sign ws fo rest \<longleftrightarrow>
     sign \<in> {'''', ''-'', ''+''} \<and> ws \<noteq> [] \<and> all_digits ws \<and> all_digits (frac_digits fo) \<and>
     stops rest \<and> (fo = None \<longrightarrow> c_at rest 0 \<noteq> CHR ''.'')"

text \<open>The digits after the point, cut or padded to \<open>k\<close> places.\<close>

definition frac_value :: "nat \<Rightarrow> string \<Rightarrow> int" where
  "frac_value k fs = dec_from 0 (take k fs) * 10 ^ (k - length fs)"

definition apply_sign :: "string \<Rightarrow> int \<Rightarrow> int" where
  "apply_sign sign v = (if sign = ''-'' then - v else v)"

text \<open>The exact decimal, scaled by \<open>10 ^ k\<close> and truncated towards zero.\<close>

definition decimal_scaled :: "nat \<Rightarrow> string \<Rightarrow> string \<Rightarrow> string option \<Rightarrow> int" where
  "decimal_scaled k sign ws fo =
     apply_sign sign (dec_from 0 ws * 10 ^ k + frac_value k (frac_digits fo))"

lemma all_digits_take: "all_digits fs \<Longrightarrow> all_digits (take k fs)"
  by (auto simp: list_all_iff dest: in_set_takeD)

lemma frac_value_bounds: "all_digits fs \<Longrightarrow> 0 \<le> frac_value k fs \<and> frac_value k fs < 10 ^ k"
proof -
  assume fs: "all_digits fs"
  let ?n = "length (take k fs)"
  have nn: "0 \<le> dec_from 0 (take k fs)" using dec_from_ge [OF all_digits_take [OF fs]] by simp
  have "dec_from 0 (take k fs) < 10 ^ ?n" by (rule dec_from_less [OF all_digits_take [OF fs]])
  then have lt: "dec_from 0 (take k fs) * 10 ^ (k - length fs) < 10 ^ ?n * 10 ^ (k - length fs)"
    by simp
  have "?n + (k - length fs) = k" by simp
  then have "(10::int) ^ ?n * 10 ^ (k - length fs) = 10 ^ k" by (simp only: power_add [symmetric])
  with lt have "dec_from 0 (take k fs) * 10 ^ (k - length fs) < 10 ^ k" by (simp only:)
  with nn show ?thesis by (simp add: frac_value_def)
qed

lemma parse_frac_part:
  assumes "all_digits (frac_digits fo)" "stops rest" "fo = None \<longrightarrow> c_at rest 0 \<noteq> CHR ''.''" "k \<le> 9"
  shows "(case (if c_at (frac_part fo @ rest) 0 = CHR ''.''
                then scan_frac (10 ^ k) 0 1 (tl (frac_part fo @ rest)) else (0, 1))
          of (frac, dv) \<Rightarrow> pad_frac (10 ^ k) frac dv) = Some (frac_value k (frac_digits fo))"
proof (cases fo)
  case None
  then show ?thesis using assms pad_frac_pow10 [of 0 k 0] by (simp add: frac_value_def)
next
  case (Some fs)
  let ?f = "dec_from 0 (take k fs)" and ?m = "min k (length fs)"
  have fs: "all_digits fs" using Some assms by simp
  have "scan_frac (10 ^ k) 0 (10 ^ 0) (fs @ rest) = (?f, 10 ^ min k (0 + length fs))"
    using scan_frac_pow10 [OF fs assms(2), of 0 k 0] assms(4) by simp
  then have scan: "scan_frac (10 ^ k) 0 1 (fs @ rest) = (?f, 10 ^ ?m)" by simp
  have "0 \<le> ?f" using dec_from_ge [OF all_digits_take [OF fs]] by simp
  moreover have "?f < 10 ^ ?m"
    using dec_from_less [OF all_digits_take [OF fs], of k] by (simp add: min.commute)
  moreover have "k - ?m = k - length fs" by simp
  ultimately have "pad_frac (10 ^ k) ?f (10 ^ ?m) = Some (frac_value k fs)"
    using pad_frac_pow10 [of ?m k ?f] assms(4) by (simp add: frac_value_def)
  then show ?thesis using Some scan by (simp add: c_at_def)
qed

lemma parse_sign_digits:
  assumes "sign \<in> {'''', ''-'', ''+''}" "ws \<noteq> []" "all_digits ws"
  shows "parse_sign (sign @ ws @ rest) = (sign = ''-'', ws @ rest)"
proof -
  obtain c cs where ws: "ws = c # cs" using assms(2) by (cases ws) auto
  then have "is_digit c" using assms(3) by simp
  then have "c \<noteq> CHR ''-''" "c \<noteq> CHR ''+''" by (auto simp: is_digit_def char_code_def)
  then show ?thesis using assms(1) ws by (auto simp: parse_sign_def c_at_def)
qed

text \<open>
  The core of the parser: on the text of a number it returns the signed, scaled sum of the
  integer part the loop computed and the fraction.
\<close>

lemma parse_scaled_core:
  assumes parts: "number_parts sign ws fo rest" and k: "k \<le> 9"
    and scan: "scan_whole 0 (ws @ frac_part fo @ rest) = (w, frac_part fo @ rest)"
    and w: "0 \<le> w" "w < 10 ^ 9"
  shows "fmma_parse_scaled (Some (sign @ ws @ frac_part fo @ rest)) (10 ^ k) =
           Some (apply_sign sign (w * 10 ^ k + frac_value k (frac_digits fo)))"
proof -
  let ?f = "frac_value k (frac_digits fo)" and ?v = "w * 10 ^ k + frac_value k (frac_digits fo)"
  have p: "sign \<in> {'''', ''-'', ''+''}" "ws \<noteq> []" "all_digits ws" "all_digits (frac_digits fo)"
    "stops rest" "fo = None \<longrightarrow> c_at rest 0 \<noteq> CHR ''.''"
    using parts by (simp_all add: number_parts_def)
  have pow: "(1::int) \<le> 10 ^ k" "(10::int) ^ k \<le> 1000000000" using int_pow10_bound [OF k] by simp_all
  have f: "0 \<le> ?f" "?f < 10 ^ k" using frac_value_bounds [OF p(4)] by simp_all
  have wp: "0 \<le> w * 10 ^ k" "w * 10 ^ k \<le> 999999999000000000"
    using w pow mult_mono [of w 999999999 "10 ^ k" 1000000000] by simp_all
  then have s: "s64 (w * 10 ^ k) = w * 10 ^ k" "s64 ?v = ?v" "s64 (- ?v) = - ?v"
    using f pow by (simp_all add: s64_id)
  have nz: "(10::u32) ^ k \<noteq> 0" using unat_pow10 [OF k] by (metis power_not_zero unat_0 zero_neq_numeral)
  have d: "is_digit (c_at (ws @ frac_part fo @ rest) 0)"
    using p(2,3) by (cases ws) (simp_all add: c_at_def)
  have pf: "(case (if c_at (frac_part fo @ rest) 0 = CHR ''.''
                then scan_frac (10 ^ k) 0 1 (tl (frac_part fo @ rest)) else (0, 1))
          of (frac, dv) \<Rightarrow> pad_frac (10 ^ k) frac dv) = Some ?f"
    by (rule parse_frac_part [OF p(4,5,6) k])
  obtain frac dv where fd: "(if c_at (frac_part fo @ rest) 0 = CHR ''.''
      then scan_frac (10 ^ k) 0 1 (tl (frac_part fo @ rest)) else (0, 1)) = (frac, dv)"
    by (cases "if c_at (frac_part fo @ rest) 0 = CHR ''.''
      then scan_frac (10 ^ k) 0 1 (tl (frac_part fo @ rest)) else (0, 1)")
  then have "pad_frac (10 ^ k) frac dv = Some ?f" using pf by (simp only: fd prod.case)
  then show ?thesis
    unfolding fmma_parse_scaled_def option.case
    by (simp add: parse_sign_digits [OF p(1,2,3)] nz d scan fd s apply_sign_def uint_pow10 [OF k]
          Let_def del: minus_add_distrib)
qed

lemma number_parts_whole:
  "number_parts sign ws fo rest \<Longrightarrow> ws \<noteq> [] \<and> all_digits ws \<and> stops (frac_part fo @ rest)"
  by (cases fo) (auto simp: number_parts_def is_digit_def char_code_def)

lemma parse_scaled_in_range:
  assumes "number_parts sign ws fo rest" "k \<le> 9" "dec_from 0 ws < 10 ^ 9"
  shows "fmma_parse_scaled (Some (sign @ ws @ frac_part fo @ rest)) (10 ^ k) =
           Some (decimal_scaled k sign ws fo)"
  using parse_scaled_core [OF assms(1,2), of "dec_from 0 ws"] number_parts_whole [OF assms(1)]
    scan_whole_exact [of ws "frac_part fo @ rest" 0] dec_from_ge [of ws 0] assms(3)
  by (simp add: decimal_scaled_def)

lemma parse_scaled_saturated:
  assumes "number_parts sign ws fo rest" "k \<le> 9" "10 ^ 9 \<le> dec_from 0 ws"
  shows "\<exists>w. WHOLE_SATURATE \<le> w \<and> w < 10 ^ 9 \<and>
           fmma_parse_scaled (Some (sign @ ws @ frac_part fo @ rest)) (10 ^ k) =
             Some (apply_sign sign (w * 10 ^ k + frac_value k (frac_digits fo)))"
proof -
  obtain w where w: "scan_whole 0 (ws @ frac_part fo @ rest) = (w, frac_part fo @ rest)"
      "WHOLE_SATURATE \<le> w" "w < 10 ^ 9"
    using scan_whole_saturates [of ws "frac_part fo @ rest" 0] number_parts_whole [OF assms(1)] assms(3)
    by auto
  have "fmma_parse_scaled (Some (sign @ ws @ frac_part fo @ rest)) (10 ^ k) =
          Some (apply_sign sign (w * 10 ^ k + frac_value k (frac_digits fo)))"
    using w by (intro parse_scaled_core [OF assms(1,2)]) (simp_all add: WHOLE_SATURATE_def)
  with w(2,3) show ?thesis by blast
qed

text \<open>Every text that has a digit where the parser looks for one is the text of a number.\<close>

lemma digits_split: "\<exists>ds rest. p = ds @ rest \<and> all_digits ds \<and> stops rest"
proof (intro exI conjI)
  show "p = takeWhile is_digit p @ dropWhile is_digit p" by simp
  show "all_digits (takeWhile is_digit p)" by (auto simp: list_all_iff dest: set_takeWhileD)
  show "stops (dropWhile is_digit p)"
    by (induction p) simp_all
qed

lemma tail_split:
  assumes "stops q"
  shows "\<exists>fo rest. q = frac_part fo @ rest \<and> all_digits (frac_digits fo) \<and> stops rest \<and>
           (fo = None \<longrightarrow> c_at rest 0 \<noteq> CHR ''.'')"
proof (cases "c_at q 0 = CHR ''.''")
  case True
  then obtain q' where q: "q = CHR ''.'' # q'" by (cases q) (simp_all add: c_at_def)
  obtain ds rest where "q' = ds @ rest" "all_digits ds" "stops rest" using digits_split by blast
  then have "q = frac_part (Some ds) @ rest \<and> all_digits (frac_digits (Some ds)) \<and> stops rest"
    using q by simp
  then show ?thesis by blast
next
  case False
  then have "q = frac_part None @ q \<and> all_digits (frac_digits None) \<and> stops q \<and> c_at q 0 \<noteq> CHR ''.''"
    using assms by simp
  then show ?thesis by blast
qed

lemma number_of_digit:
  assumes "is_digit (c_at (snd (parse_sign p)) 0)"
  shows "\<exists>sign ws fo rest. p = sign @ ws @ frac_part fo @ rest \<and> number_parts sign ws fo rest"
proof -
  let ?q = "snd (parse_sign p)"
  have "\<exists>sign \<in> {'''', ''-'', ''+''}. p = sign @ ?q"
    by (cases p) (auto simp: parse_sign_def c_at_def)
  then obtain sign where sign: "sign \<in> {'''', ''-'', ''+''}" "p = sign @ ?q" by blast
  obtain ws q where ws: "?q = ws @ q" "all_digits ws" "stops q" using digits_split by blast
  have "ws \<noteq> []" using ws assms by (auto simp: stops_def)
  moreover obtain fo rest where "q = frac_part fo @ rest" "all_digits (frac_digits fo)" "stops rest"
      "fo = None \<longrightarrow> c_at rest 0 \<noteq> CHR ''.''"
    using tail_split [OF ws(3)] by blast
  ultimately have "p = sign @ ws @ frac_part fo @ rest \<and> number_parts sign ws fo rest"
    using sign ws by (auto simp: number_parts_def)
  then show ?thesis by blast
qed

lemma apply_sign_bound: "0 \<le> v \<Longrightarrow> v < b \<Longrightarrow> \<bar>apply_sign sign v\<bar> < b"
  by (simp add: apply_sign_def)

lemma scaled_bound:
  assumes "0 \<le> w" "w < 10 ^ 9" "0 \<le> f" "f < 10 ^ k"
  shows "0 \<le> w * 10 ^ k + f \<and> w * 10 ^ k + f < (10::int) ^ (9 + k)"
proof -
  have "w * 10 ^ k + f < (w + 1) * 10 ^ k" using assms by (simp add: algebra_simps)
  also have "\<dots> \<le> 10 ^ 9 * 10 ^ k" using assms by (intro mult_right_mono) simp_all
  finally show ?thesis using assms by (simp add: power_add)
qed

lemma number_value_bound:
  assumes parts: "number_parts sign ws fo rest" and k: "k \<le> 9"
  shows "\<exists>v. fmma_parse_scaled (Some (sign @ ws @ frac_part fo @ rest)) (10 ^ k) = Some v \<and>
           \<bar>v\<bar> < 10 ^ (9 + k)"
proof -
  let ?f = "frac_value k (frac_digits fo)"
  have f: "0 \<le> ?f" "?f < 10 ^ k"
    using frac_value_bounds [of "frac_digits fo" k] parts by (auto simp: number_parts_def)
  show ?thesis
  proof (cases "dec_from 0 ws < 10 ^ 9")
    case True
    have "0 \<le> dec_from 0 ws" using dec_from_ge [of ws 0] number_parts_whole [OF parts] by simp
    then show ?thesis
      using parse_scaled_in_range [OF parts k True] scaled_bound [OF _ True f] apply_sign_bound
      by (simp add: decimal_scaled_def)
  next
    case False
    then show ?thesis
      using parse_scaled_saturated [OF parts k] scaled_bound [OF _ _ f] apply_sign_bound
      by (fastforce simp: WHOLE_SATURATE_def)
  qed
qed

lemma parse_scaled_cases:
  assumes "k \<le> 9"
  obtains (error) "fmma_parse_scaled s (10 ^ k) = Some FMMA_PARSE_ERROR"
      "case s of None \<Rightarrow> True | Some p \<Rightarrow> \<not> is_digit (c_at (snd (parse_sign p)) 0)"
  | (number) p v where "s = Some p" "is_digit (c_at (snd (parse_sign p)) 0)"
      "fmma_parse_scaled s (10 ^ k) = Some v" "\<bar>v\<bar> < 10 ^ (9 + k)"
proof (cases s)
  case None
  then show ?thesis using error by (simp add: fmma_parse_scaled_def)
next
  case (Some p)
  show ?thesis
  proof (cases "is_digit (c_at (snd (parse_sign p)) 0)")
    case True
    then show ?thesis using number_of_digit [OF True] number_value_bound [OF _ assms] number Some
      by metis
  next
    case False
    then show ?thesis using error Some
      by (cases "parse_sign p") (simp add: fmma_parse_scaled_def)
  qed
qed

section \<open>What the formatter prints\<close>

lemma digit_char_digit: "d < 10 \<Longrightarrow> is_digit (digit_char d) \<and> digit_val (digit_char d) = int d"
  by (simp add: digit_char_def is_digit_def digit_val_def char_code_def take_bit_nat_eq_self)

lemma dec_digits_ne [simp]: "dec_digits n \<noteq> []"
  by (subst dec_digits.simps) simp

lemma dec_digits_sound: "all_digits (dec_digits n) \<and> dec_from 0 (dec_digits n) = int n"
proof (induction n rule: dec_digits.induct)
  case (1 n)
  show ?case
  proof (cases "n < 10")
    case True
    then show ?thesis using digit_char_digit [of n] by (simp add: dec_digits.simps [of n])
  next
    case False
    then have "all_digits (dec_digits (n div 10)) \<and> dec_from 0 (dec_digits (n div 10)) = int (n div 10)"
      using 1 by simp
    moreover have "int (n div 10) * 10 + int (n mod 10) = int n" by (simp add: zdiv_int zmod_int)
    ultimately show ?thesis using False digit_char_digit [of "n mod 10"]
      by (simp add: dec_digits.simps [of n])
  qed
qed

lemma dec_digits_length: "length (dec_digits n) = Suc m \<Longrightarrow> m = 0 \<or> 10 ^ m \<le> n"
proof (induction n arbitrary: m rule: dec_digits.induct)
  case (1 n)
  show ?case
  proof (cases "n < 10")
    case True
    then show ?thesis using 1 by (simp add: dec_digits.simps [of n])
  next
    case False
    then have len: "length (dec_digits (n div 10)) = m"
      using 1 by (simp add: dec_digits.simps [of n])
    show ?thesis
    proof (cases m)
      case (Suc m')
      then have "m' = 0 \<or> 10 ^ m' \<le> n div 10" using 1(1) [OF False] len by simp
      then have "10 ^ m' \<le> n div 10" using False by auto
      then show ?thesis using Suc by simp
    qed simp
  qed
qed

lemma dec_digits_length_le: "n < 10 ^ k \<Longrightarrow> 0 < k \<Longrightarrow> length (dec_digits n) \<le> k"
proof (cases "length (dec_digits n)")
  case (Suc m)
  assume n: "n < 10 ^ k" "0 < k"
  have "m = 0 \<or> 10 ^ m < (10::nat) ^ k" using dec_digits_length [OF Suc] n by linarith
  then show ?thesis using Suc n by auto
qed simp

lemma dec_from_zeros: "dec_from 0 (replicate n (CHR ''0'') @ s) = dec_from 0 s"
  by (induction n) (simp_all add: digit_val_def char_code_def)

lemma zero_pad_sound:
  assumes "n < 10 ^ k" "0 < k"
  shows "length (zero_pad k (dec_digits n)) = k" "all_digits (zero_pad k (dec_digits n))"
    "dec_from 0 (zero_pad k (dec_digits n)) = int n"
  using dec_digits_length_le [OF assms] dec_digits_sound [of n]
  by (auto simp: zero_pad_def dec_from_zeros list_all_iff is_digit_def char_code_def)

lemma scale_digits_pow10: "j + k \<le> 9 \<Longrightarrow> scale_digits (10 ^ k) j = j + k"
proof (induction k arbitrary: j)
  case 0
  then show ?case by (simp add: scale_digits.simps)
next
  case (Suc k)
  have "(1::u32) < 10 ^ Suc k"
    using pow10_less_iff [of 0 "Suc k"] Suc.prems by simp
  moreover have "(10::u32) ^ Suc k div 10 = 10 ^ k"
    using unat_pow10 [of "Suc k"] unat_pow10 [of k] Suc.prems
    by (simp add: word_unat_eq_iff unat_div del: power_Suc) simp
  ultimately show ?case using Suc.IH [of "Suc j"] Suc.prems
    by (subst scale_digits.simps) simp
qed

lemma mag_parts:
  assumes "\<bar>v\<bar> < 2 ^ 63" "k \<le> 9"
  defines "mag \<equiv> (word_of_int (if v < 0 then s64 (- v) else v) :: u64)"
  shows "unat (mag div ucast ((10::u32) ^ k)) = nat \<bar>v\<bar> div 10 ^ k"
    "unat (mag mod ucast ((10::u32) ^ k)) = nat \<bar>v\<bar> mod 10 ^ k"
proof -
  have "s64 (- v) = - v" using assms(1) by (intro s64_id) simp_all
  then have "mag = word_of_int \<bar>v\<bar>" by (simp add: mag_def)
  then have m: "unat mag = nat \<bar>v\<bar>" using assms(1) by (simp add: unat_of_int_u64)
  have s: "unat (ucast ((10::u32) ^ k) :: u64) = 10 ^ k"
    by (simp only: unat_ucast_u32_u64 unat_pow10 [OF assms(2)])
  show "unat (mag div ucast ((10::u32) ^ k)) = nat \<bar>v\<bar> div 10 ^ k"
    "unat (mag mod ucast ((10::u32) ^ k)) = nat \<bar>v\<bar> mod 10 ^ k"
    by (simp_all only: unat_div unat_mod m s)
qed

lemma format_text_pow10:
  assumes "\<bar>v\<bar> < 2 ^ 63" "k \<le> 9"
  shows "format_text v (10 ^ k) =
    (if v < 0 then ''-'' else '''') @ dec_digits (nat \<bar>v\<bar> div 10 ^ k) @
    frac_part (if 0 < k then Some (zero_pad k (dec_digits (nat \<bar>v\<bar> mod 10 ^ k))) else None)"
proof -
  have nz: "(10::u32) ^ k \<noteq> 0" using unat_pow10 [OF assms(2)] by (metis power_not_zero unat_0 zero_neq_numeral)
  have d: "scale_digits (10 ^ k) 0 = k" using scale_digits_pow10 [of 0 k] assms(2) by simp
  show ?thesis
    unfolding format_text_def Let_def if_not_P [OF nz] d mag_parts [OF assms] by simp
qed

lemma parse_format:
  assumes "\<bar>v\<bar> < 10 ^ (9 + k)" "k \<le> 9"
  shows "fmma_parse_scaled (Some (format_text v (10 ^ k))) (10 ^ k) = Some v"
proof -
  let ?n = "nat \<bar>v\<bar>" and ?sign = "if v < 0 then ''-'' else ''''"
  let ?ws = "dec_digits (?n div 10 ^ k)"
  let ?fo = "if 0 < k then Some (zero_pad k (dec_digits (?n mod 10 ^ k))) else None"
  have pow: "(10::int) ^ (9 + k) \<le> 10 ^ 18" using assms(2) by (intro power_increasing) simp_all
  then have v63: "\<bar>v\<bar> < 2 ^ 63" using assms(1) by simp
  have "?n < nat (10 ^ (9 + k))" using assms(1) by linarith
  also have "\<dots> = 10 ^ (9 + k)" by (subst nat_power_eq) simp_all
  finally have "?n < 10 ^ 9 * 10 ^ k" by (simp only: power_add)
  then have "?n div 10 ^ k < 10 ^ 9" by (rule less_mult_imp_div_less)
  then have w: "int (?n div 10 ^ k) < 10 ^ 9" by simp
  have m: "?n mod 10 ^ k < 10 ^ k" by simp
  have zp: "0 < k \<Longrightarrow> all_digits (frac_digits ?fo) \<and> length (frac_digits ?fo) = k \<and>
      dec_from 0 (frac_digits ?fo) = int (?n mod 10 ^ k)"
    using zero_pad_sound [OF m] by simp
  have parts: "number_parts ?sign ?ws ?fo ''''"
    using zp dec_digits_sound by (auto simp: number_parts_def c_at_def)
  have fv: "frac_value k (frac_digits ?fo) = int (?n mod 10 ^ k)"
    using zp by (cases "k = 0") (simp_all add: frac_value_def)
  have "?n div 10 ^ k * 10 ^ k + ?n mod 10 ^ k = ?n" by (rule div_mult_mod_eq)
  then have "int (?n div 10 ^ k * 10 ^ k + ?n mod 10 ^ k) = int ?n" by (simp only:)
  then have "int (?n div 10 ^ k) * 10 ^ k + int (?n mod 10 ^ k) = \<bar>v\<bar>"
    by (simp only: of_nat_add of_nat_mult of_nat_power of_nat_numeral int_nat_eq) simp
  then have "decimal_scaled k ?sign ?ws ?fo = v"
    using dec_digits_sound [of "?n div 10 ^ k"] fv
    by (auto simp: decimal_scaled_def apply_sign_def)
  moreover have "dec_from 0 ?ws < 10 ^ 9" using dec_digits_sound w by simp
  ultimately show ?thesis
    using parse_scaled_in_range [OF parts assms(2)] format_text_pow10 [OF v63 assms(2)] by simp
qed

text \<open>The size of the text, for any value and any scale.\<close>

lemma scale_digits_le9: "j \<le> 9 \<Longrightarrow> scale_digits d j \<le> 9"
  by (induction d j rule: scale_digits.induct) (subst scale_digits.simps, simp)

lemma scale_digits_le: "scale_digits d 0 \<le> 9"
  by (rule scale_digits_le9) simp

lemma scale_digits_bound:
  "scale_digits d j = n \<Longrightarrow> j < n \<Longrightarrow> 2 * 10 ^ (n - Suc j) \<le> unat d"
proof (induction d j rule: scale_digits.induct)
  case (1 d j)
  then have go: "d > 1 \<and> j < 9" and rec: "scale_digits (d div 10) (Suc j) = n"
    by (simp_all add: scale_digits.simps [of d j] split: if_splits)
  show ?case
  proof (cases "Suc j < n")
    case True
    then have "2 * 10 ^ (n - Suc (Suc j)) \<le> unat (d div 10)"
      using 1(1) [OF go rec] by simp
    then have "2 * 10 ^ (n - Suc (Suc j)) \<le> unat d div 10" by (simp add: unat_div)
    moreover have "n - Suc j = Suc (n - Suc (Suc j))" using True by simp
    ultimately show ?thesis by simp
  next
    case False
    then show ?thesis using 1(3) go by (simp add: word_less_nat_alt)
  qed
qed

lemma format_digits_bound:
  assumes "0 < s" "whole * s \<le> 2 ^ 63" "frac < s" "s < 2 ^ 32"
    and "n = 0 \<or> 2 * 10 ^ (n - 1) \<le> s" "n \<le> 9"
  shows "length (dec_digits whole) + max n (length (dec_digits frac)) \<le> 20"
proof -
  obtain a where a: "length (dec_digits whole) = Suc a" by (cases "length (dec_digits whole)") auto
  obtain b where b: "length (dec_digits frac) = Suc b" by (cases "length (dec_digits frac)") auto
  define m where "m = max (n - 1) b"
  have "b = 0 \<or> 10 ^ b \<le> frac" by (rule dec_digits_length [OF b])
  then have b': "10 ^ b \<le> s" using assms(1,3) by auto
  have "10 ^ (n - 1) \<le> s" using assms(1,5) by auto
  with b' have m: "10 ^ m \<le> s" by (simp add: m_def max_def)
  have "10 ^ m < (10::nat) ^ 10" using m assms(4) by simp
  then have m10: "m < 10" by (rule power_less_imp_less_exp [rotated]) simp
  have am: "a + m \<le> 18"
  proof (cases "a = 0")
    case False
    then have "10 ^ a \<le> whole" using dec_digits_length [OF a] by simp
    then have "10 ^ a * 10 ^ m \<le> whole * s" using m by (rule mult_le_mono)
    also have "\<dots> < 10 ^ 19" using assms(2) by simp
    finally have "(10::nat) ^ (a + m) < 10 ^ 19" by (simp only: power_add)
    then have "a + m < 19" by (rule power_less_imp_less_exp [rotated]) simp
    then show ?thesis by simp
  qed (use m10 in simp)
  have "max n (length (dec_digits frac)) \<le> Suc m" using b by (auto simp: m_def)
  then show ?thesis using a am by linarith
qed

lemma format_text_length:
  assumes "- (2 ^ 63) \<le> v" "v < 2 ^ 63"
  shows "length (format_text v scale0) \<le> 22"
proof -
  define scale where "scale = (if scale0 = 0 then 1 else scale0)"
  define mag where "mag = (word_of_int (if v < 0 then s64 (- v) else v) :: u64)"
  let ?s = "unat scale" and ?n = "scale_digits scale 0"
  let ?w = "unat (mag div ucast scale)" and ?f = "unat (mag mod ucast scale)"
  have s0: "0 < ?s" by (simp add: scale_def unat_gt_0)
  have "unat mag \<le> 2 ^ 63"
  proof (cases "v = - (2 ^ 63)")
    case True
    have "mag = 2 ^ 63" unfolding mag_def using True by (simp add: s64_def)
    then show ?thesis by simp
  next
    case False
    then have "mag = word_of_int \<bar>v\<bar>" using assms by (simp add: mag_def s64_id)
    then show ?thesis using assms False by (simp add: unat_of_int_u64)
  qed
  moreover have w: "?w = unat mag div ?s" and f: "?f = unat mag mod ?s"
    by (simp_all add: unat_div unat_mod unat_ucast_u32_u64)
  ultimately have "?w * ?s \<le> 2 ^ 63" by (metis div_times_less_eq_dividend le_trans)
  moreover have "?f < ?s" using f s0 by simp
  moreover have "?s < 2 ^ 32" by (rule unat_u32_less)
  moreover have "?n = 0 \<or> 2 * 10 ^ (?n - 1) \<le> ?s" using scale_digits_bound [of scale 0 ?n] by auto
  moreover have n9: "?n \<le> 9" by (rule scale_digits_le)
  ultimately have b: "length (dec_digits ?w) + max ?n (length (dec_digits ?f)) \<le> 20"
    by (intro format_digits_bound [OF s0])
  have "length (zero_pad ?n (dec_digits ?f)) = max ?n (length (dec_digits ?f))"
    by (simp add: zero_pad_def)
  then show ?thesis using b
    by (simp add: format_text_def Let_def flip: scale_def mag_def)
qed

section \<open>Clamping\<close>

lemma clamp_price_uint: "uint (fst (fmma_clamp_price v)) = max 0 (min FMMA_PRICE_MAX v)"
  by (auto simp: fmma_clamp_price_def FMMA_PRICE_MAX_def uint_of_int_u32)

lemma clamp_price_flag: "snd (fmma_clamp_price v) \<longleftrightarrow> v < 0 \<or> FMMA_PRICE_MAX < v"
  by (simp add: fmma_clamp_price_def)

lemma clamp_price_range: "0 \<le> uint (fst (fmma_clamp_price v))" "uint (fst (fmma_clamp_price v)) < 2 ^ 30"
  by (simp_all add: clamp_price_uint FMMA_PRICE_MAX_def)

section \<open>The padding loop can run forever\<close>

text \<open>
  Ten to the 32nd is a multiple of \<open>2 ^ 32\<close>: once the 32-bit \<open>div\<close> is zero it stays zero,
  below every scale, and \<open>while (div < scale)\<close> never ends.
\<close>

lemma pad_frac_zero: "0 < scale \<Longrightarrow> pad_frac scale f 0 \<noteq> Some r"
proof
  assume s: "0 < scale" and ret: "pad_frac scale f 0 = Some r"
  have "0 < scale \<longrightarrow> (0::u32) \<noteq> 0"
  proof (rule pad_frac.raw_induct [where P = "\<lambda>scale f dv r. 0 < scale \<longrightarrow> dv \<noteq> 0", OF _ ret])
    fix pf :: "u32 \<Rightarrow> int \<Rightarrow> u32 \<Rightarrow> int option" and scale f dv r
    assume IH: "\<And>scale f dv r. pf scale f dv = Some r \<Longrightarrow> 0 < scale \<longrightarrow> dv \<noteq> 0"
      and eq: "(if dv < scale then pf scale (s64 (f * 10)) (dv * 10) else Some f) = Some r"
    show "0 < scale \<longrightarrow> dv \<noteq> 0"
    proof (intro impI notI)
      assume "0 < scale" and "dv = 0"
      with eq have "pf scale (s64 (f * 10)) 0 = Some r" by simp
      from IH [OF this] \<open>0 < scale\<close> show False by simp
    qed
  qed
  with s show False by simp
qed

lemma pad_frac_step: "dv < scale \<Longrightarrow> pad_frac scale f dv = pad_frac scale (s64 (f * 10)) (dv * 10)"
  by (simp add: pad_frac.simps [of scale f dv])

lemma pad_frac_iterate:
  "(\<And>i. i < n \<Longrightarrow> dv * 10 ^ i < scale) \<Longrightarrow> \<exists>g. pad_frac scale f dv = pad_frac scale g (dv * 10 ^ n)"
proof (induction n)
  case 0
  then show ?case by auto
next
  case (Suc n)
  then obtain g where g: "pad_frac scale f dv = pad_frac scale g (dv * 10 ^ n)" by auto
  have "dv * 10 ^ n < scale" using Suc.prems by simp
  then have "pad_frac scale g (dv * 10 ^ n) = pad_frac scale (s64 (g * 10)) (dv * 10 ^ n * 10)"
    by (rule pad_frac_step)
  then show ?case using g by (metis mult.assoc power_Suc2)
qed

lemma pow10_below_max: "i < 32 \<Longrightarrow> (1::u32) * 10 ^ i < 4294967295"
proof -
  assume "i < 32"
  then have "i \<in> set [0..<32]" by simp
  moreover have "list_all (\<lambda>i. (1::u32) * 10 ^ i < 4294967295) [0..<32]" by code_simp
  ultimately show ?thesis by (simp add: list_all_iff)
qed

section \<open>Properties\<close>

text \<open>
  C19. The parser is exact: on the text of any decimal number below \<open>10 ^ 9\<close>, with any sign,
  any number of fraction digits and any trailing text (the JSON document the pointer leads
  into), and for every scale \<open>10 ^ k\<close> up to \<open>10 ^ 9\<close>, \<open>fmma_parse_scaled\<close> returns, and returns
  the scaled decimal truncated towards zero. No digit is lost and nothing wraps.
\<close>

theorem parse_scaled_exact:
  assumes "number_parts sign ws fo rest" and "k \<le> 9" and "dec_from 0 ws < 10 ^ 9"
  shows "fmma_parse_scaled (Some (sign @ ws @ frac_part fo @ rest)) (10 ^ k) =
           Some (decimal_scaled k sign ws fo)"
  by (rule parse_scaled_in_range [OF assms])

theorem parse_scaled_exact_witness:
  "fmma_parse_scaled (Some ''-97431.029'') (10 ^ 2) = Some (- 9743102)"
proof -
  have "number_parts ''-'' ''97431'' (Some ''029'') ''''"
    by (simp add: number_parts_def is_digit_def char_code_def)
  moreover have "dec_from 0 ''97431'' < 10 ^ 9"
    by (simp add: digit_val_def char_code_def)
  ultimately show ?thesis
    using parse_scaled_exact [of "''-''" "''97431''" "Some ''029''" "''''" 2]
    by (simp add: decimal_scaled_def apply_sign_def frac_value_def digit_val_def char_code_def)
qed

lemma clamp_parse_price:
  assumes "number_parts sign ws fo rest"
  shows "map_option fmma_clamp_price
           (fmma_parse_scaled (Some (sign @ ws @ frac_part fo @ rest)) 100) =
         Some (fmma_clamp_price (decimal_scaled 2 sign ws fo))"
proof (cases "dec_from 0 ws < 10 ^ 9")
  case True
  then show ?thesis using parse_scaled_in_range [OF assms, of 2] by simp
next
  case False
  let ?f = "frac_value 2 (frac_digits fo)"
  have f: "0 \<le> ?f" using frac_value_bounds [of "frac_digits fo" 2] assms by (simp add: number_parts_def)
  obtain w where w: "100000000 \<le> w"
      "fmma_parse_scaled (Some (sign @ ws @ frac_part fo @ rest)) 100 =
        Some (apply_sign sign (w * 100 + ?f))"
    using parse_scaled_saturated [OF assms, of 2] False by (auto simp: WHOLE_SATURATE_def)
  have "fmma_clamp_price (apply_sign sign (w * 100 + ?f)) =
      fmma_clamp_price (apply_sign sign (dec_from 0 ws * 100 + ?f))"
    using w(1) False f by (auto simp: fmma_clamp_price_def apply_sign_def FMMA_PRICE_MAX_def)
  then show ?thesis using w(2) by (simp add: decimal_scaled_def)
qed

text \<open>
  C17. The saturation of the parser is never visible behind the clamp: for a number of any
  length, the price the feed computes, \<open>fmma_clamp_price (fmma_parse_scaled (s, 100))\<close>, and its
  "was clamped" flag, are those of the exact decimal in cents. A number too large for the
  loop can therefore not become a small price.
\<close>

theorem price_text_exact:
  assumes "number_parts sign ws fo rest"
  shows "map_option fmma_clamp_price
           (fmma_parse_scaled (Some (sign @ ws @ frac_part fo @ rest)) 100) =
         Some (fmma_clamp_price (decimal_scaled 2 sign ws fo))"
  using assms by (rule clamp_parse_price)

theorem price_text_exact_witness:
  "map_option fmma_clamp_price (fmma_parse_scaled (Some ''12345678901.5'') 100) =
     Some (fmma_clamp_price 1234567890150)"
proof -
  have "number_parts '''' ''12345678901'' (Some ''5'') ''''"
    by (simp add: number_parts_def is_digit_def char_code_def)
  from price_text_exact [OF this] show ?thesis
    by (simp add: decimal_scaled_def apply_sign_def frac_value_def digit_val_def char_code_def)
qed

text \<open>
  C18. Formatting and parsing are inverse: a scaled value below \<open>10 ^ 9\<close> whole units, printed by
  \<open>fmma_format_scaled\<close> into a buffer of the 24 characters its header asks for, parses back
  to the same value, for every scale \<open>10 ^ k\<close> up to \<open>10 ^ 9\<close> and both signs.
\<close>

theorem format_parse_roundtrip:
  assumes "\<bar>v\<bar> < 10 ^ (9 + k)" and "k \<le> 9" and "24 \<le> buflen"
  shows "fmma_parse_scaled (fmma_format_scaled (Some old) buflen v (10 ^ k)) (10 ^ k) = Some v"
proof -
  have "(10::int) ^ (9 + k) \<le> 10 ^ 18" using assms(2) by (intro power_increasing) simp_all
  then have "length (format_text v (10 ^ k)) \<le> 22" using assms(1) by (intro format_text_length) simp_all
  then have "fmma_format_scaled (Some old) buflen v (10 ^ k) = Some (format_text v (10 ^ k))"
    using assms(3) by (simp add: fmma_format_scaled_def snprintf_store_def)
  then show ?thesis using parse_format [OF assms(1,2)] by simp
qed

theorem format_parse_roundtrip_witness:
  "fmma_parse_scaled (fmma_format_scaled (Some '''') 24 (- 350) (10 ^ 2)) (10 ^ 2) = Some (- 350)"
  using format_parse_roundtrip [of "- 350" 2 24 "''''"] by simp

text \<open>
  The error value is unambiguous: at every scale \<open>10 ^ k\<close> up to \<open>10 ^ 9\<close> the parser returns
  on every input, NULL included; it returns \<open>FMMA_PARSE_ERROR\<close> exactly when the text has no
  digit after its optional sign; and every other result is smaller than \<open>10 ^ (9 + k)\<close>.
\<close>

theorem parse_scaled_defined:
  assumes "k \<le> 9"
  shows "\<exists>v. fmma_parse_scaled s (10 ^ k) = Some v \<and>
           (v = FMMA_PARSE_ERROR \<longleftrightarrow>
             (case s of None \<Rightarrow> True | Some p \<Rightarrow> \<not> is_digit (c_at (snd (parse_sign p)) 0))) \<and>
           (v \<noteq> FMMA_PARSE_ERROR \<longrightarrow> \<bar>v\<bar> < 10 ^ (9 + k))"
proof (rule parse_scaled_cases [OF assms])
  assume "fmma_parse_scaled s (10 ^ k) = Some FMMA_PARSE_ERROR"
    "case s of None \<Rightarrow> True | Some p \<Rightarrow> \<not> is_digit (c_at (snd (parse_sign p)) 0)"
  then show ?thesis by simp
next
  fix p v
  assume n: "s = Some p" "is_digit (c_at (snd (parse_sign p)) 0)"
    "fmma_parse_scaled s (10 ^ k) = Some v" "\<bar>v\<bar> < 10 ^ (9 + k)"
  have "(10::int) ^ (9 + k) \<le> 10 ^ 18" using assms by (intro power_increasing) simp_all
  then have "v \<noteq> FMMA_PARSE_ERROR" using n(4) by (auto simp: FMMA_PARSE_ERROR_def int64_min_def)
  then show ?thesis using n by simp
qed

theorem parse_scaled_defined_witness:
  "\<exists>v. fmma_parse_scaled (Some ''nope'') (10 ^ 2) = Some v \<and> v = FMMA_PARSE_ERROR"
  using parse_scaled_defined [of 2 "Some ''nope''"]
  by (auto simp: parse_sign_def c_at_def is_digit_def char_code_def)

text \<open>
  The text of a value fits the buffer: for every 64-bit value, the smallest included, and
  every 32-bit scale, zero included, \<open>fmma_format_scaled\<close> prints at most 22 characters, so a
  24-character buffer is never truncated, as the header promises.
\<close>

theorem format_scaled_fits:
  assumes "- (2 ^ 63) \<le> v" and "v < 2 ^ 63" and "24 \<le> buflen"
  shows "fmma_format_scaled (Some old) buflen v scale = Some (format_text v scale) \<and>
         length (format_text v scale) \<le> 22"
  using format_text_length [OF assms(1,2), of scale] assms(3)
  by (simp add: fmma_format_scaled_def snprintf_store_def)

theorem format_scaled_fits_witness:
  "fmma_format_scaled (Some '''') 24 (- 9223372036854775808) 100 =
     Some (format_text (- 9223372036854775808) 100)"
  using format_scaled_fits [of "- 9223372036854775808" 24 "''''" 100] by simp

text \<open>
  The parser can hang: with a scale of \<open>2 ^ 32 - 1\<close> the padding loop of
  \<open>fmma_parse_scaled\<close> runs \<open>div\<close> through 32 wrapped powers of ten to zero and then forever,
  so parsing even the text "1" does not return. The callers only use the scales 100
  and 10000.
\<close>

theorem parse_scaled_hangs: "fmma_parse_scaled (Some ''1'') 4294967295 = None"
proof -
  obtain g where "pad_frac 4294967295 0 1 = pad_frac 4294967295 g (1 * 10 ^ 32)"
    using pad_frac_iterate [of 32 1 4294967295 0, OF pow10_below_max] by blast
  moreover have "(1::u32) * 10 ^ 32 = 0" by code_simp
  ultimately have "pad_frac 4294967295 0 1 = pad_frac 4294967295 g 0" by (simp only:)
  then have "pad_frac 4294967295 0 1 = None"
    using pad_frac_zero [of 4294967295 g] by (cases "pad_frac 4294967295 g 0") auto
  then show ?thesis
    by (simp add: fmma_parse_scaled_def parse_sign_def c_at_def is_digit_def char_code_def)
qed

end
