(* ===== verification/Fmma_Cstd.thy ===== *)
theory Fmma_Cstd
  imports Fmma_Fixed
begin

text \<open>
  The C library functions the command-line tools rest on: \<open>strtoul\<close>, \<open>strtol\<close> and \<open>strtoll\<close> with base 0
  (blanks, a sign, a hexadecimal or octal prefix, saturation) on the 32-bit ARM target, and
  the number formats of their tables.
\<close>

section \<open>Reading numbers\<close>

definition is_space :: "char \<Rightarrow> bool" where
  "is_space c \<longleftrightarrow> char_code c = 32 \<or> (9 \<le> char_code c \<and> char_code c \<le> 13)"

definition hex_val :: "char \<Rightarrow> nat option" where
  "hex_val c =
     (let k = char_code c
      in if 48 \<le> k \<and> k \<le> 57 then Some (nat (k - 48))
         else if 97 \<le> k \<and> k \<le> 102 then Some (nat (k - 87))
         else if 65 \<le> k \<and> k \<le> 70 then Some (nat (k - 55)) else None)"

text \<open>The longest prefix of digits of the base, and its value.\<close>

fun scan_base :: "nat \<Rightarrow> string \<Rightarrow> nat \<Rightarrow> nat" where
  "scan_base base [] acc = acc"
| "scan_base base (c # cs) acc =
     (case hex_val c of None \<Rightarrow> acc
      | Some d \<Rightarrow> if d < base then scan_base base cs (acc * base + d) else acc)"

definition strto_sign :: "string \<Rightarrow> bool \<times> string" where
  "strto_sign s =
     (case dropWhile is_space s of [] \<Rightarrow> (False, [])
      | c # cs \<Rightarrow> if c = CHR ''-'' then (True, cs) else if c = CHR ''+'' then (False, cs) else (False, c # cs))"

definition strto_mag :: "string \<Rightarrow> nat" where
  "strto_mag s =
     (if c_at s 0 = CHR ''0'' \<and> (c_at s 1 = CHR ''x'' \<or> c_at s 1 = CHR ''X'') \<and> hex_val (c_at s 2) \<noteq> None
      then scan_base 16 (drop 2 s) 0
      else if c_at s 0 = CHR ''0'' then scan_base 8 s 0
      else scan_base 10 s 0)"

definition strtoul :: "string \<Rightarrow> u32" where
  "strtoul s =
     (case strto_sign s of (neg, t) \<Rightarrow>
        let n = strto_mag t
        in if n \<ge> 2 ^ 32 then - 1 else if neg then - word_of_nat n else word_of_nat n)"

definition strto_signed :: "nat \<Rightarrow> string \<Rightarrow> int" where
  "strto_signed w s =
     (case strto_sign s of (neg, t) \<Rightarrow>
        let v = (if neg then - int (strto_mag t) else int (strto_mag t))
        in max (- (2 ^ (w - 1))) (min (2 ^ (w - 1) - 1) v))"

definition strtol :: "string \<Rightarrow> int" where
  "strtol s = strto_signed 32 s"

definition strtoll :: "string \<Rightarrow> int" where
  "strtoll s = strto_signed 64 s"

section \<open>Printing numbers\<close>

text \<open>\<open>%*u\<close>, \<open>%*s\<close> pad on the left, \<open>%-*s\<close> on the right.\<close>

definition pad_left :: "nat \<Rightarrow> string \<Rightarrow> string" where
  "pad_left w s = replicate (w - length s) (CHR '' '') @ s"

definition pad_right :: "nat \<Rightarrow> string \<Rightarrow> string" where
  "pad_right w s = s @ replicate (w - length s) (CHR '' '')"

definition hex_digit :: "nat \<Rightarrow> char" where
  "hex_digit d = (if d < 10 then char_of (48 + d) else char_of (55 + d))"

fun hex_fixed :: "nat \<Rightarrow> nat \<Rightarrow> string" where
  "hex_fixed 0 n = []"
| "hex_fixed (Suc k) n = hex_fixed k (n div 16) @ [hex_digit (n mod 16)]"

text \<open>\<open>%08X\<close> and \<open>%X\<close>.\<close>

definition fmt_hex8 :: "u32 \<Rightarrow> string" where
  "fmt_hex8 w = hex_fixed 8 (unat w)"

definition fmt_hex :: "u32 \<Rightarrow> string" where
  "fmt_hex w = (let s = dropWhile (\<lambda>c. c = CHR ''0'') (fmt_hex8 w) in if s = [] then ''0'' else s)"

text \<open>\<open>%.2f\<close> of a number of cents divided by 100.0.\<close>

definition fmt_cents :: "u32 \<Rightarrow> string" where
  "fmt_cents c = dec_digits (unat c div 100) @ ''.'' @ zero_pad 2 (dec_digits (unat c mod 100))"

section \<open>Decimal numbers read back\<close>

lemma hex_val_digit: "is_digit c \<Longrightarrow> hex_val c = Some (nat (digit_val c))"
  by (simp add: hex_val_def is_digit_def digit_val_def Let_def)

lemma scan_base_digits:
  "all_digits ds \<Longrightarrow> scan_base 10 ds acc = nat (dec_from (int acc) ds)"
proof (induction ds arbitrary: acc)
  case (Cons c ds)
  have "0 \<le> digit_val c" "digit_val c < 10" using Cons.prems is_digit_val [of c] by auto
  then show ?case using Cons by (simp add: hex_val_digit nat_less_iff)
qed simp

lemma digit_not_special: "is_digit c \<Longrightarrow> \<not> is_space c \<and> c \<noteq> CHR ''-'' \<and> c \<noteq> CHR ''+''"
  by (auto simp: is_digit_def is_space_def char_code_def)

lemma strto_sign_digits:
  assumes "all_digits ds" "ds \<noteq> []"
  shows "strto_sign ds = (False, ds)" "strto_sign (CHR ''-'' # ds) = (True, ds)"
  using assms digit_not_special [of "hd ds"]
  by (cases ds; auto simp: strto_sign_def is_space_def char_code_def)+

lemma dec_digits_leading:
  "n \<noteq> 0 \<Longrightarrow> hd (dec_digits n) \<noteq> CHR ''0''"
proof (induction n rule: dec_digits.induct)
  case (1 n)
  show ?case
  proof (cases "n < 10")
    case True
    then show ?thesis using 1(2) digit_char_digit [of n]
      by (auto simp: dec_digits.simps [of n] digit_val_def char_code_def)
  next
    case False
    then show ?thesis using 1 by (simp add: dec_digits.simps [of n])
  qed
qed

lemma strto_mag_dec: "strto_mag (dec_digits n) = n"
proof (cases "n = 0")
  case True
  then show ?thesis by (simp add: dec_digits.simps digit_char_def strto_mag_def c_at_def hex_val_def char_code_def Let_def)
next
  case False
  then have "c_at (dec_digits n) 0 \<noteq> CHR ''0''"
    using dec_digits_leading [of n] by (simp add: c_at_def hd_conv_nth)
  then show ?thesis using dec_digits_sound [of n] by (simp add: strto_mag_def scan_base_digits)
qed

lemma strtoul_dec: "n < 2 ^ 32 \<Longrightarrow> strtoul (dec_digits n) = word_of_nat n"
  using dec_digits_sound [of n] by (simp add: strtoul_def strto_sign_digits strto_mag_dec Let_def)

lemma strto_signed_fmt:
  assumes "- (2 ^ (w - 1)) \<le> x" "x \<le> 2 ^ (w - 1) - 1"
  shows "strto_signed w (fmt_int x) = x"
  using assms dec_digits_sound [of "nat x"] dec_digits_sound [of "nat (- x)"]
  by (simp add: strto_signed_def fmt_int_def strto_sign_digits strto_mag_dec Let_def)

end
