(* ===== verification/Fmma_Config.thy ===== *)
theory Fmma_Config
  imports Fmma_Cstd
begin

text \<open>
  Runtime configuration, \<open>Software/src/fmma_config.c\<close>: the defaults, the usage text and the
  command-line parser. The parser walks the argument list; its result is the configuration, the
  return code and what it printed. \<open>const char *\<close> fields are strings, the CA file an optional
  one, flags are booleans.
\<close>

section \<open>The code\<close>

record fmma_config =
  cfg_product :: string
  cfg_ca_file :: "string option"
  cfg_symbol :: string
  cfg_qty :: string
  cfg_cooldown_ms :: u32
  cfg_order_poll_ms :: u32
  cfg_threshold :: u32
  cfg_max_position :: u32
  cfg_start_position :: int
  cfg_half_spread :: u32
  cfg_skew :: u32
  cfg_max_loss :: int
  cfg_stale_feed_ms :: u32
  cfg_poll_ms :: u32
  cfg_stats_sec :: u32
  cfg_use_fpga :: bool
  cfg_dry_run :: bool
  cfg_bench :: bool
  cfg_force :: bool
  cfg_verbose :: bool

definition fmma_config_defaults :: fmma_config where
  "fmma_config_defaults =
     \<lparr>cfg_product = ''BTC-USD'', cfg_ca_file = None, cfg_symbol = ''BTCUSD'', cfg_qty = ''0.001'',
      cfg_cooldown_ms = 1000, cfg_order_poll_ms = 500, cfg_threshold = 1000, cfg_max_position = 5,
      cfg_start_position = 0, cfg_half_spread = 0, cfg_skew = 0, cfg_max_loss = 0,
      cfg_stale_feed_ms = 60000, cfg_poll_ms = 1, cfg_stats_sec = 30, cfg_use_fpga = True,
      cfg_dry_run = False, cfg_bench = False, cfg_force = False, cfg_verbose = False\<rparr>"

definition fmma_config_usage :: "string \<Rightarrow> fmma_config \<Rightarrow> string" where
  "fmma_config_usage argv0 d =
     ''FMMA - Coinbase -> FPGA -> Alpaca'' @ nl @
     nl @
     ''Usage: '' @ argv0 @ '' [options]'' @ nl @
     nl @
     ''Mode'' @ nl @
     ''  --no-fpga            run the software reference strategy instead of the'' @ nl @
     ''                       fabric (no /dev/mem, no root needed)'' @ nl @
     ''  --dry-run            never send an order; log what would have been sent'' @ nl @
     ''  --bench              also time the software strategy, for comparison'' @ nl @
     ''  --force              map the bridge even if the FPGA state is unknown'' @ nl @
     nl @
     ''Market data and execution'' @ nl @
     ''  --product ID         Coinbase product id          (default '' @ cfg_product d @ '')'' @ nl @
     ''  --symbol SYM         broker symbol                (default '' @ cfg_symbol d @ '')'' @ nl @
     ''  --qty Q              order size                   (default '' @ cfg_qty d @ '')'' @ nl @
     ''  --cooldown MS        minimum spacing between orders (default '' @ fmt_word (cfg_cooldown_ms d) @ '')'' @ nl @
     ''  --order-poll MS      how often to check a working order (default '' @ fmt_word (cfg_order_poll_ms d) @ '')'' @ nl @
     ''  --ca FILE            CA bundle for TLS            (default: autodetect)'' @ nl @
     nl @
     ''Strategy (pushed to the FPGA, no rebuild needed)'' @ nl @
     ''  --threshold CENTS    move that triggers a decision (default '' @ fmt_word (cfg_threshold d) @ '' = $'' @ fmt_cents (cfg_threshold d) @ '')'' @ nl @
     ''  --max-pos N          inventory limit, lots         (default '' @ fmt_word (cfg_max_position d) @ '')'' @ nl @
     ''  --position N         inventory to start from       (default '' @ fmt_int (cfg_start_position d) @ '')'' @ nl @
     ''  --half-spread CENTS  quoting strategy half spread  (default '' @ fmt_word (cfg_half_spread d) @ '')'' @ nl @
     ''  --skew CENTS         quoting strategy skew per lot (default '' @ fmt_word (cfg_skew d) @ '')'' @ nl @
     nl @
     ''Host-side risk'' @ nl @
     ''  --max-loss CENTS     stop trading past this loss, 0 = off (default '' @ fmt_int (cfg_max_loss d) @ '')'' @ nl @
     ''  --stale-feed MS      warn if no quote arrives for this long (default '' @ fmt_word (cfg_stale_feed_ms d) @ '')'' @ nl @
     nl @
     ''Plumbing'' @ nl @
     ''  --poll-ms MS         event loop tick              (default '' @ fmt_word (cfg_poll_ms d) @ '')'' @ nl @
     ''  --stats SEC          statistics interval, 0 = off (default '' @ fmt_word (cfg_stats_sec d) @ '')'' @ nl @
     ''  -v, --verbose        raise the log level'' @ nl @
     ''  -h, --help           this text'' @ nl @
     nl @
     ''Credentials come from APCA_API_KEY_ID and APCA_API_SECRET_KEY.'' @ nl @
     ''Use `sudo -E` so they survive; plain sudo strips the environment.'' @ nl"

text \<open>\<open>need_value\<close>: the message printed when the option is the last argument.\<close>

definition need_value :: "string \<Rightarrow> string" where
  "need_value opt = opt @ '' needs a value'' @ nl"

text \<open>The options without a value, and those with one: what each does to the configuration.\<close>

definition flag_opt :: "string \<Rightarrow> (fmma_config \<Rightarrow> fmma_config) option" where
  "flag_opt a =
     (if a = ''--no-fpga'' then Some (cfg_use_fpga_update (\<lambda>_. False))
      else if a = ''--dry-run'' then Some (cfg_dry_run_update (\<lambda>_. True))
      else if a = ''--bench'' then Some (cfg_bench_update (\<lambda>_. True))
      else if a = ''--force'' then Some (cfg_force_update (\<lambda>_. True))
      else if a = ''-v'' \<or> a = ''--verbose'' then Some (cfg_verbose_update (\<lambda>_. True))
      else None)"

definition value_opt :: "string \<Rightarrow> (string \<Rightarrow> fmma_config \<Rightarrow> fmma_config) option" where
  "value_opt a =
     (if a = ''--product'' then Some (\<lambda>v. cfg_product_update (\<lambda>_. v))
      else if a = ''--symbol'' then Some (\<lambda>v. cfg_symbol_update (\<lambda>_. v))
      else if a = ''--qty'' then Some (\<lambda>v. cfg_qty_update (\<lambda>_. v))
      else if a = ''--ca'' then Some (\<lambda>v. cfg_ca_file_update (\<lambda>_. Some v))
      else if a = ''--cooldown'' then Some (\<lambda>v. cfg_cooldown_ms_update (\<lambda>_. strtoul v))
      else if a = ''--order-poll'' then Some (\<lambda>v. cfg_order_poll_ms_update (\<lambda>_. strtoul v))
      else if a = ''--threshold'' then Some (\<lambda>v. cfg_threshold_update (\<lambda>_. strtoul v))
      else if a = ''--max-pos'' then Some (\<lambda>v. cfg_max_position_update (\<lambda>_. strtoul v))
      else if a = ''--position'' then Some (\<lambda>v. cfg_start_position_update (\<lambda>_. strtol v))
      else if a = ''--half-spread'' then Some (\<lambda>v. cfg_half_spread_update (\<lambda>_. strtoul v))
      else if a = ''--skew'' then Some (\<lambda>v. cfg_skew_update (\<lambda>_. strtoul v))
      else if a = ''--stale-feed'' then Some (\<lambda>v. cfg_stale_feed_ms_update (\<lambda>_. strtoul v))
      else if a = ''--poll-ms'' then Some (\<lambda>v. cfg_poll_ms_update (\<lambda>_. strtoul v))
      else if a = ''--stats'' then Some (\<lambda>v. cfg_stats_sec_update (\<lambda>_. strtoul v))
      else if a = ''--max-loss'' then Some (\<lambda>v. cfg_max_loss_update (\<lambda>_. strtoll v))
      else None)"

text \<open>The loop over the arguments after \<open>argv[0]\<close>.\<close>

fun parse_loop :: "string \<Rightarrow> fmma_config \<Rightarrow> string list \<Rightarrow> fmma_config \<times> int \<times> string" where
  "parse_loop argv0 c [] =
     (if cfg_poll_ms c = 0 then c\<lparr>cfg_poll_ms := 1\<rparr> else c, 0, [])"
| "parse_loop argv0 c (a # rest) =
     (if a = ''-h'' \<or> a = ''--help'' then (c, 1, fmma_config_usage argv0 fmma_config_defaults)
      else case flag_opt a of
        Some f \<Rightarrow> parse_loop argv0 (f c) rest
      | None \<Rightarrow>
          (case value_opt a of
             Some g \<Rightarrow> (case rest of [] \<Rightarrow> (c, - 1, need_value a)
                        | v # rest' \<Rightarrow> parse_loop argv0 (g v c) rest')
           | None \<Rightarrow> (c, - 1, ''unknown option '' @ [CHR 0x27] @ a @ [CHR 0x27] @ '' (try --help)'' @ nl)))"

definition fmma_config_parse_args :: "fmma_config \<Rightarrow> string list \<Rightarrow> fmma_config \<times> int \<times> string" where
  "fmma_config_parse_args c argv = parse_loop (hd argv) c (tl argv)"

text \<open>The log lines of the dump, without their prefix.\<close>

definition fmma_config_dump :: "fmma_config \<Rightarrow> string list" where
  "fmma_config_dump c =
     [''product '' @ cfg_product c @ '', symbol '' @ cfg_symbol c @ '', qty '' @ cfg_qty c,
      ''threshold '' @ fmt_word (cfg_threshold c) @ '' cents, max position '' @ fmt_word (cfg_max_position c) @
        '' lots, starting position '' @ fmt_int (cfg_start_position c),
      ''cooldown '' @ fmt_word (cfg_cooldown_ms c) @ '' ms, poll '' @ fmt_word (cfg_poll_ms c) @
        '' ms, stats '' @ fmt_word (cfg_stats_sec c) @ '' s''] @
     (if cfg_max_loss c \<noteq> 0 then [''loss limit '' @ fmt_int (cfg_max_loss c) @ '' cents''] else []) @
     (if cfg_dry_run c then [''DRY RUN: no orders will be sent''] else []) @
     (if \<not> cfg_use_fpga c then [''software-only: the fabric is not used''] else [])"

section \<open>What a command line means\<close>

text \<open>
  A command line as data: the settings the usage text lists, each with the value it carries, how
  an operator writes it, and what it changes.
\<close>

datatype setting =
    No_fpga | Dry_run | Bench | Force | Verbose
  | Product string | Symbol string | Qty string | Ca string
  | Cooldown u32 | Order_poll u32 | Threshold u32 | Max_pos u32 | Position int
  | Half_spread u32 | Skew u32 | Stale_feed u32 | Poll_ms u32 | Stats_sec u32 | Max_loss int

fun written :: "setting \<Rightarrow> string list" where
  "written No_fpga = [''--no-fpga'']"
| "written Dry_run = [''--dry-run'']"
| "written Bench = [''--bench'']"
| "written Force = [''--force'']"
| "written Verbose = [''--verbose'']"
| "written (Product v) = [''--product'', v]"
| "written (Symbol v) = [''--symbol'', v]"
| "written (Qty v) = [''--qty'', v]"
| "written (Ca v) = [''--ca'', v]"
| "written (Cooldown n) = [''--cooldown'', fmt_word n]"
| "written (Order_poll n) = [''--order-poll'', fmt_word n]"
| "written (Threshold n) = [''--threshold'', fmt_word n]"
| "written (Max_pos n) = [''--max-pos'', fmt_word n]"
| "written (Position x) = [''--position'', fmt_int x]"
| "written (Half_spread n) = [''--half-spread'', fmt_word n]"
| "written (Skew n) = [''--skew'', fmt_word n]"
| "written (Stale_feed n) = [''--stale-feed'', fmt_word n]"
| "written (Poll_ms n) = [''--poll-ms'', fmt_word n]"
| "written (Stats_sec n) = [''--stats'', fmt_word n]"
| "written (Max_loss x) = [''--max-loss'', fmt_int x]"

fun setting_ok :: "setting \<Rightarrow> bool" where
  "setting_ok (Position x) = (- (2 ^ 31) \<le> x \<and> x \<le> 2 ^ 31 - 1)"
| "setting_ok (Max_loss x) = (- (2 ^ 63) \<le> x \<and> x \<le> 2 ^ 63 - 1)"
| "setting_ok _ = True"

fun takes_effect :: "setting \<Rightarrow> fmma_config \<Rightarrow> fmma_config" where
  "takes_effect No_fpga c = c\<lparr>cfg_use_fpga := False\<rparr>"
| "takes_effect Dry_run c = c\<lparr>cfg_dry_run := True\<rparr>"
| "takes_effect Bench c = c\<lparr>cfg_bench := True\<rparr>"
| "takes_effect Force c = c\<lparr>cfg_force := True\<rparr>"
| "takes_effect Verbose c = c\<lparr>cfg_verbose := True\<rparr>"
| "takes_effect (Product v) c = c\<lparr>cfg_product := v\<rparr>"
| "takes_effect (Symbol v) c = c\<lparr>cfg_symbol := v\<rparr>"
| "takes_effect (Qty v) c = c\<lparr>cfg_qty := v\<rparr>"
| "takes_effect (Ca v) c = c\<lparr>cfg_ca_file := Some v\<rparr>"
| "takes_effect (Cooldown n) c = c\<lparr>cfg_cooldown_ms := n\<rparr>"
| "takes_effect (Order_poll n) c = c\<lparr>cfg_order_poll_ms := n\<rparr>"
| "takes_effect (Threshold n) c = c\<lparr>cfg_threshold := n\<rparr>"
| "takes_effect (Max_pos n) c = c\<lparr>cfg_max_position := n\<rparr>"
| "takes_effect (Position x) c = c\<lparr>cfg_start_position := x\<rparr>"
| "takes_effect (Half_spread n) c = c\<lparr>cfg_half_spread := n\<rparr>"
| "takes_effect (Skew n) c = c\<lparr>cfg_skew := n\<rparr>"
| "takes_effect (Stale_feed n) c = c\<lparr>cfg_stale_feed_ms := n\<rparr>"
| "takes_effect (Poll_ms n) c = c\<lparr>cfg_poll_ms := n\<rparr>"
| "takes_effect (Stats_sec n) c = c\<lparr>cfg_stats_sec := n\<rparr>"
| "takes_effect (Max_loss x) c = c\<lparr>cfg_max_loss := x\<rparr>"

lemma strtoul_word: "strtoul (fmt_word (w :: u32)) = w"
  using strtoul_dec [of "unat w"] unat_u32_less [of w] by (simp add: fmt_word_def)

lemma strtol_int: "- (2 ^ 31) \<le> x \<Longrightarrow> x \<le> 2 ^ 31 - 1 \<Longrightarrow> strtol (fmt_int x) = x"
  unfolding strtol_def by (rule strto_signed_fmt) simp_all

lemma strtoll_int: "- (2 ^ 63) \<le> x \<Longrightarrow> x \<le> 2 ^ 63 - 1 \<Longrightarrow> strtoll (fmt_int x) = x"
  unfolding strtoll_def by (rule strto_signed_fmt) simp_all

lemmas option_tables = flag_opt_def value_opt_def

lemma parse_setting:
  "setting_ok s \<Longrightarrow> parse_loop argv0 c (written s @ rest) = parse_loop argv0 (takes_effect s c) rest"
  by (cases s) (simp_all add: option_tables strtoul_word strtol_int strtoll_int)

lemma parse_settings:
  "list_all setting_ok ss \<Longrightarrow>
   parse_loop argv0 c (concat (map written ss) @ rest) = parse_loop argv0 (fold takes_effect ss c) rest"
  by (induction ss arbitrary: c) (simp_all add: parse_setting)

text \<open>
  C38. The command line says what it means: any sequence of settings, each written as the usage text
  shows it with its number in decimal, is parsed without error and without output into the
  configuration with exactly those values, the last one winning; a poll interval of zero is
  raised to one. Numbers of the full 32-bit (signed or unsigned) and 64-bit ranges arrive
  unchanged.
\<close>

theorem parse_args_settings:
  assumes "list_all setting_ok ss"
  shows "fmma_config_parse_args c (argv0 # concat (map written ss)) =
    (let c' = fold takes_effect ss c in if cfg_poll_ms c' = 0 then c'\<lparr>cfg_poll_ms := 1\<rparr> else c', 0, [])"
  using parse_settings [OF assms, of argv0 c "[]"] by (simp add: fmma_config_parse_args_def Let_def)

theorem parse_args_settings_witness:
  "fst (fmma_config_parse_args fmma_config_defaults
     (''fmma'' # concat (map written [Max_pos 3, Position (- 2), Poll_ms 0, Dry_run])))
   = fmma_config_defaults\<lparr>cfg_max_position := 3, cfg_start_position := - 2, cfg_poll_ms := 1, cfg_dry_run := True\<rparr>"
  using parse_args_settings [of "[Max_pos 3, Position (- 2), Poll_ms 0, Dry_run]" fmma_config_defaults "''fmma''"]
  by (simp add: Let_def fmma_config_defaults_def)

text \<open>
  Every mistake on the command line is reported: after any settings, an argument that is no
  option is refused with -1, an option without its value is refused with -1 even when it is
  last, and a request for help returns 1 and prints the usage text with the built-in defaults,
  not the values set so far.
\<close>

theorem parse_args_errors:
  assumes "list_all setting_ok ss" "flag_opt a = None"
  shows "(value_opt a = None \<and> a \<noteq> ''-h'' \<and> a \<noteq> ''--help'' \<longrightarrow>
      fst (snd (fmma_config_parse_args c (argv0 # concat (map written ss) @ a # rest))) = - 1) \<and>
    (value_opt a \<noteq> None \<and> rest = [] \<longrightarrow>
      snd (fmma_config_parse_args c (argv0 # concat (map written ss) @ a # rest)) = (- 1, need_value a)) \<and>
    (a = ''-h'' \<or> a = ''--help'' \<longrightarrow>
      snd (fmma_config_parse_args c (argv0 # concat (map written ss) @ a # rest)) =
        (1, fmma_config_usage argv0 fmma_config_defaults))"
proof -
  have no_help: "value_opt ''-h'' = None" "value_opt ''--help'' = None" by (simp_all add: value_opt_def)
  have "fmma_config_parse_args c (argv0 # concat (map written ss) @ a # rest) =
      parse_loop argv0 (fold takes_effect ss c) (a # rest)"
    by (simp add: fmma_config_parse_args_def parse_settings [OF assms(1)])
  then show ?thesis using assms(2) no_help by auto
qed

theorem parse_args_errors_witness:
  "snd (fmma_config_parse_args fmma_config_defaults [''fmma'', ''--dry-run'', ''--threshold'']) =
     (- 1, ''--threshold needs a value'' @ nl)"
proof -
  have "flag_opt ''--threshold'' = None" "value_opt ''--threshold'' \<noteq> None"
    by (simp_all add: option_tables)
  then show ?thesis
    using parse_args_errors [of "[Dry_run]" "''--threshold''" fmma_config_defaults "''fmma''" "[]"]
    by (simp add: need_value_def)
qed

end
