(* ===== verification/Fmma_Json.thy ===== *)
theory Fmma_Json
  imports Fmma_Prelude
begin

text \<open>
  Field extraction from the flat JSON objects of the feed and the broker,
  \<open>Software/src/fmma_json.c\<close>. The theorems read a field of a rendered object back:
  for objects of string and number fields whose names and values hold no quotation mark,
  the substring search of the code finds exactly the field of that name.
\<close>

section \<open>The code\<close>

abbreviation quote :: char where
  "quote \<equiv> CHR 0x22"

definition PATTERN_MAX :: nat where
  "PATTERN_MAX = 64"

text \<open>What \<open>snprintf (pattern, sizeof (pattern), "\\"%s\\":\\"", name)\<close> prints.\<close>

definition json_pattern :: "string \<Rightarrow> string" where
  "json_pattern name = quote # name @ [quote, CHR '':'', quote]"

definition fmma_json_string :: "string option \<Rightarrow> string option \<Rightarrow> string option" where
  "fmma_json_string json name =
     (case (json, name) of
        (Some j, Some nm) \<Rightarrow>
          let pattern = json_pattern nm; n = length pattern in
          if n \<ge> PATTERN_MAX then None
          else (case strstr j pattern of None \<Rightarrow> None | Some p \<Rightarrow> Some (drop n p))
      | _ \<Rightarrow> None)"

text \<open>
  The result code and the contents of \<open>out\<close> afterwards; \<open>None\<close> is a NULL \<open>out\<close>. The
  buffer is cleared before the search, so a failure leaves the empty string.
\<close>

definition fmma_json_copy_string ::
    "string option \<Rightarrow> string option \<Rightarrow> string option \<Rightarrow> nat \<Rightarrow> int \<times> string option" where
  "fmma_json_copy_string json name out outlen =
     (if out = None \<or> outlen = 0 then (-1, out)
      else
        case fmma_json_string json name of
          None \<Rightarrow> (-1, Some '''')
        | Some v \<Rightarrow>
            (case strchr_off v quote of
               None \<Rightarrow> (-1, Some '''')
             | Some len \<Rightarrow> if len + 1 > outlen then (-1, Some '''') else (0, Some (take len v))))"

definition fmma_json_type_is :: "string option \<Rightarrow> string option \<Rightarrow> bool" where
  "fmma_json_type_is json want =
     (case (fmma_json_string json (Some ''type''), want) of
        (Some v, Some w) \<Rightarrow> starts_with w v \<and> c_at v (length w) = quote
      | _ \<Rightarrow> False)"

section \<open>Flat objects\<close>

text \<open>A field value: a string, or the text of a number, which stands without quotes.\<close>

datatype jvalue = JString string | JNumber string

fun field_text :: "string \<times> jvalue \<Rightarrow> string" where
  "field_text (k, JString v) = quote # k @ quote # CHR '':'' # quote # v @ [quote]"
| "field_text (k, JNumber n) = quote # k @ quote # CHR '':'' # n"

fun fields_text :: "(string \<times> jvalue) list \<Rightarrow> string" where
  "fields_text [] = ''}''"
| "fields_text [f] = field_text f @ ''}''"
| "fields_text (f # fs) = field_text f @ CHR '','' # fields_text fs"

definition object_text :: "(string \<times> jvalue) list \<Rightarrow> string" where
  "object_text fs = CHR ''{'' # fields_text fs"

definition unquoted :: "string \<Rightarrow> bool" where
  "unquoted s \<longleftrightarrow> quote \<notin> set s"

text \<open>A number starts with neither a quotation mark nor is it empty.\<close>

fun field_ok :: "string \<times> jvalue \<Rightarrow> bool" where
  "field_ok (k, JString v) = (unquoted k \<and> unquoted v)"
| "field_ok (k, JNumber n) = (unquoted k \<and> unquoted n \<and> n \<noteq> [])"

text \<open>A field name the code may look for: short, and starting like an identifier.\<close>

definition name_ok :: "string \<Rightarrow> bool" where
  "name_ok nm \<longleftrightarrow> unquoted nm \<and> nm \<noteq> [] \<and> hd nm \<notin> {CHR '':'', CHR '','', CHR ''}''} \<and>
     length nm < PATTERN_MAX - 4"

text \<open>The first string field of a name; a number field of that name is not one.\<close>

fun lookup_string :: "(string \<times> jvalue) list \<Rightarrow> string \<Rightarrow> string option" where
  "lookup_string [] nm = None"
| "lookup_string ((k, JString v) # fs) nm = (if k = nm then Some v else lookup_string fs nm)"
| "lookup_string ((k, JNumber n) # fs) nm = lookup_string fs nm"

section \<open>Searching for a quoted pattern\<close>

lemma unquoted_simps [simp]:
  "unquoted []" "unquoted (c # s) \<longleftrightarrow> c \<noteq> quote \<and> unquoted s"
  "unquoted (s @ t) \<longleftrightarrow> unquoted s \<and> unquoted t"
  by (auto simp: unquoted_def)

lemma starts_with_self [simp]: "starts_with p (p @ s)"
  by (induction p) simp_all

lemma starts_with_iff: "starts_with p s \<longleftrightarrow> (\<exists>t. s = p @ t)"
  by (induction p s rule: starts_with.induct) auto

lemma starts_with_quoted:
  "unquoted a \<Longrightarrow> unquoted b \<Longrightarrow>
   starts_with (a @ quote # p) (b @ quote # r) \<longleftrightarrow> a = b \<and> starts_with p r"
proof (induction a arbitrary: b)
  case Nil
  then show ?case by (cases b) auto
next
  case (Cons c a)
  then show ?case by (cases b) auto
qed

lemma c_at_Cons_Suc: "c_at (c # s) (Suc n) = c_at s n"
  by (simp add: c_at_def)

lemma starts_with_then:
  "q \<noteq> CHR 0x00 \<Longrightarrow> starts_with w s \<and> c_at s (length w) = q \<longleftrightarrow> starts_with (w @ [q]) s"
proof (induction w s rule: starts_with.induct)
  case (1 s)
  then show ?case by (cases s) (auto simp: c_at_def)
qed (auto simp: c_at_Cons_Suc)

lemma strstr_skip: "unquoted s \<Longrightarrow> strstr (s @ r) (quote # p) = strstr r (quote # p)"
  by (induction s) auto

lemma strchr_off_quoted: "unquoted v \<Longrightarrow> strchr_off (v @ quote # r) quote = Some (length v)"
  by (induction v) auto

text \<open>One field that is not the one looked for is skipped, one that is is found.\<close>

definition pat :: "string \<Rightarrow> string" where
  "pat nm = nm @ quote # [CHR '':'', quote]"

lemma json_pattern_pat: "json_pattern nm = quote # pat nm"
  by (simp add: json_pattern_def pat_def)

lemma pat_not_here:
  "name_ok nm \<Longrightarrow> c \<in> {CHR '':'', CHR '','', CHR ''}''} \<Longrightarrow> \<not> starts_with (pat nm) (c # r)"
  by (cases nm) (auto simp: name_ok_def pat_def)

lemma field_found:
  assumes "name_ok nm"
  shows "strstr (field_text (nm, JString v) @ r) (json_pattern nm) = Some (field_text (nm, JString v) @ r)"
  using assms by (simp add: json_pattern_pat pat_def name_ok_def starts_with_iff)

lemma string_field_skipped:
  assumes "name_ok nm" "field_ok (k, JString v)" "k \<noteq> nm" "c \<in> {CHR '','', CHR ''}''}"
  shows "strstr (field_text (k, JString v) @ c # r) (json_pattern nm) = strstr r (json_pattern nm)"
proof -
  let ?P = "quote # pat nm"
  have u: "unquoted k" "unquoted v" "unquoted nm" using assms by (simp_all add: name_ok_def)
  have 1: "\<not> starts_with (pat nm) (k @ quote # s)" for s
    using starts_with_quoted [OF u(3,1)] assms(3) by (simp add: pat_def)
  have 2: "\<not> starts_with (pat nm) (CHR '':'' # s)" for s using pat_not_here [OF assms(1)] by simp
  have 3: "\<not> starts_with (pat nm) (v @ quote # c # s)" for s
    using starts_with_quoted [OF u(3,2)] assms(4) by (auto simp: pat_def)
  have 4: "\<not> starts_with (pat nm) (c # s)" for s using pat_not_here [OF assms(1)] assms(4) by auto
  have "c \<noteq> quote" using assms(4) by auto
  then show ?thesis unfolding json_pattern_pat
    by (simp add: 1 2 3 4 strstr_skip [OF u(1)] strstr_skip [OF u(2)])
qed

lemma number_field_skipped:
  assumes "name_ok nm" "field_ok (k, JNumber n)" "c \<in> {CHR '','', CHR ''}''}"
  shows "strstr (field_text (k, JNumber n) @ c # r) (json_pattern nm) = strstr r (json_pattern nm)"
proof -
  have u: "unquoted k" "unquoted n" "unquoted nm" "n \<noteq> []" using assms by (simp_all add: name_ok_def)
  have 1: "\<not> starts_with (pat nm) (k @ quote # CHR '':'' # n @ s)" for s
    using starts_with_quoted [OF u(3,1)] u(2,4) by (cases n) (auto simp: pat_def)
  have 2: "\<not> starts_with (pat nm) (CHR '':'' # s)" for s using pat_not_here [OF assms(1)] by simp
  have "c \<noteq> quote" using assms(3) by auto
  then show ?thesis unfolding json_pattern_pat
    by (simp add: 1 2 strstr_skip [OF u(1)] strstr_skip [OF u(2)])
qed

lemma field_step:
  assumes "name_ok nm" "field_ok f" "c \<in> {CHR '','', CHR ''}''}"
  shows "strstr (field_text f @ c # r) (json_pattern nm) =
    (case lookup_string [f] nm of
       None \<Rightarrow> strstr r (json_pattern nm)
     | Some v \<Rightarrow> Some (field_text (nm, JString v) @ c # r))"
proof (cases f)
  case (Pair k jv)
  show ?thesis
  proof (cases jv)
    case (JString v)
    then show ?thesis
      using Pair assms field_found [OF assms(1)] string_field_skipped [OF assms(1) _ _ assms(3)]
      by (cases "k = nm") (simp_all del: field_text.simps)
  next
    case (JNumber n)
    then show ?thesis using Pair assms number_field_skipped [OF assms(1) _ assms(3)]
      by (simp del: field_text.simps)
  qed
qed

lemma lookup_string_Cons:
  "lookup_string (f # fs) nm =
     (case lookup_string [f] nm of None \<Rightarrow> lookup_string fs nm | Some v \<Rightarrow> Some v)"
  by (cases f; cases "snd f") auto

lemma strstr_fields:
  assumes "name_ok nm" "list_all field_ok fs"
  shows "case lookup_string fs nm of
           None \<Rightarrow> strstr (fields_text fs) (json_pattern nm) = None
         | Some v \<Rightarrow> \<exists>r. strstr (fields_text fs) (json_pattern nm) = Some (field_text (nm, JString v) @ r)"
  using assms(2)
proof (induction fs rule: fields_text.induct)
  case 1
  show ?case by (simp add: json_pattern_def)
next
  case (2 f)
  then have ok: "field_ok f" by simp
  have "strstr [] (json_pattern nm) = None" by (simp add: json_pattern_def)
  then show ?case
    using field_step [OF assms(1) ok, of "CHR ''}''" "[]"]
    by (auto split: option.splits simp del: field_text.simps)
next
  case (3 f g fs)
  then have ok: "field_ok f" by simp
  have IH: "case lookup_string (g # fs) nm of
           None \<Rightarrow> strstr (fields_text (g # fs)) (json_pattern nm) = None
         | Some v \<Rightarrow> \<exists>r. strstr (fields_text (g # fs)) (json_pattern nm) = Some (field_text (nm, JString v) @ r)"
    using 3 by simp
  show ?case
    using field_step [OF assms(1) ok, of "CHR '',''" "fields_text (g # fs)"] IH
      lookup_string_Cons [of f "g # fs" nm]
    by (auto split: option.splits simp del: field_text.simps)
qed

lemma json_string_object:
  assumes "name_ok nm" "list_all field_ok fs"
  shows "case lookup_string fs nm of
           None \<Rightarrow> fmma_json_string (Some (object_text fs)) (Some nm) = None
         | Some v \<Rightarrow> \<exists>r. fmma_json_string (Some (object_text fs)) (Some nm) = Some (v @ quote # r)"
proof -
  have len: "length (json_pattern nm) < PATTERN_MAX"
    using assms(1) by (simp add: json_pattern_def name_ok_def PATTERN_MAX_def)
  have "strstr (object_text fs) (json_pattern nm) = strstr (fields_text fs) (json_pattern nm)"
    by (simp add: object_text_def json_pattern_def)
  then show ?thesis using strstr_fields [OF assms] len
    by (auto simp: fmma_json_string_def Let_def json_pattern_def split: option.splits)
qed

lemma lookup_string_ok: "list_all field_ok fs \<Longrightarrow> lookup_string fs nm = Some v \<Longrightarrow> unquoted v"
  by (induction fs nm rule: lookup_string.induct) (auto split: if_splits)

section \<open>Properties\<close>

text \<open>
  Reading a field back: in a flat object of string and number fields,
  \<open>fmma_json_copy_string\<close> finds exactly the first string field of the name and copies its
  whole value, or reports failure when there is no such field (a number field of that name
  is not one) or when the value and its NUL do not fit the buffer. It never returns a part of
  a value or the value of another field.
\<close>

theorem json_copy_string_field:
  assumes "name_ok nm" and "list_all field_ok fs" and "0 < outlen"
  shows "fmma_json_copy_string (Some (object_text fs)) (Some nm) (Some old) outlen =
    (case lookup_string fs nm of
       None \<Rightarrow> (-1, Some '''')
     | Some v \<Rightarrow> if length v + 1 \<le> outlen then (0, Some v) else (-1, Some ''''))"
proof (cases "lookup_string fs nm")
  case None
  then show ?thesis using json_string_object [OF assms(1,2)] assms(3)
    by (simp add: fmma_json_copy_string_def)
next
  case (Some v)
  then obtain r where "fmma_json_string (Some (object_text fs)) (Some nm) = Some (v @ quote # r)"
    using json_string_object [OF assms(1,2)] by auto
  moreover have "strchr_off (v @ quote # r) quote = Some (length v)"
    using lookup_string_ok [OF assms(2) Some] by (rule strchr_off_quoted)
  ultimately show ?thesis using Some assms(3) by (simp add: fmma_json_copy_string_def)
qed

theorem json_copy_string_field_witness:
  "fmma_json_copy_string
     (Some (object_text [(''type'', JString ''ticker''), (''sequence'', JNumber ''123''),
                         (''best_bid'', JString ''97431.02'')]))
     (Some ''best_bid'') (Some '''') 32 = (0, Some ''97431.02'')"
proof -
  have "name_ok ''best_bid''" by (simp add: name_ok_def PATTERN_MAX_def)
  moreover have "list_all field_ok [(''type'', JString ''ticker''), (''sequence'', JNumber ''123''),
      (''best_bid'', JString ''97431.02'')]" by simp
  ultimately show ?thesis using json_copy_string_field by fastforce
qed

text \<open>
  The message type is matched exactly: on a flat object, \<open>fmma_json_type_is\<close> holds
  precisely when the object has a string field "type" and the first one equals the
  wanted type. A type that only contains the wanted one (\<open>last_match\<close>, or \<open>ticker\<close> in the
  channel list of an acknowledgement) does not match.
\<close>

theorem json_type_is_exact:
  assumes "list_all field_ok fs" and "unquoted want"
  shows "fmma_json_type_is (Some (object_text fs)) (Some want) \<longleftrightarrow>
           lookup_string fs ''type'' = Some want"
proof -
  have nm: "name_ok ''type''" by (simp add: name_ok_def PATTERN_MAX_def)
  show ?thesis
  proof (cases "lookup_string fs ''type''")
    case None
    then show ?thesis using json_string_object [OF nm assms(1)] by (simp add: fmma_json_type_is_def)
  next
    case (Some v)
    then obtain r where v: "fmma_json_string (Some (object_text fs)) (Some ''type'') = Some (v @ quote # r)"
      using json_string_object [OF nm assms(1)] by auto
    have uv: "unquoted v" using lookup_string_ok [OF assms(1) Some] .
    have "starts_with want (v @ quote # r) \<and> c_at (v @ quote # r) (length want) = quote \<longleftrightarrow>
          starts_with (want @ quote # []) (v @ quote # r)"
      by (rule starts_with_then) simp
    then show ?thesis using v Some starts_with_quoted [OF assms(2) uv] by (auto simp: fmma_json_type_is_def)
  qed
qed

theorem json_type_is_exact_witness:
  "\<not> fmma_json_type_is (Some (object_text [(''type'', JString ''last_match'')])) (Some ''match'')"
  using json_type_is_exact [of "[(''type'', JString ''last_match'')]" "''match''"] by simp

end
