(* ===== verification/Fmma_Stats.thy ===== *)
theory Fmma_Stats
  imports Fmma_Protocol
begin

text \<open>
  Counters and latency, \<open>Software/src/fmma_stats.c\<close>. A reading of the monotonic clock is an
  argument of the operation that reads it. The two C arrays are lists of their fixed length.
  The one floating-point expression, in the percentile, is computed in the binary64 format:
  all its values are multiples of \<open>2 ^ -53\<close>, so a double is the natural number of those
  units and every operation is followed by rounding to 53 significant bits, ties to even.
\<close>

section \<open>The clock\<close>

definition fmma_now_ns :: "u64 \<Rightarrow> u64 \<Rightarrow> u64" where
  "fmma_now_ns tv_sec tv_nsec = tv_sec * 1000000000 + tv_nsec"

definition fmma_now_us :: "u64 \<Rightarrow> u64 \<Rightarrow> u64" where
  "fmma_now_us tv_sec tv_nsec = fmma_now_ns tv_sec tv_nsec div 1000"

definition fmma_now_ms :: "u64 \<Rightarrow> u64 \<Rightarrow> u64" where
  "fmma_now_ms tv_sec tv_nsec = fmma_now_ns tv_sec tv_nsec div 1000000"

section \<open>State\<close>

abbreviation FMMA_TICK_HISTORY :: nat where "FMMA_TICK_HISTORY \<equiv> 256"
abbreviation FMMA_LAT_BUCKETS :: nat where "FMMA_LAT_BUCKETS \<equiv> 24"

record fmma_stats =
  ticks :: u64
  signals :: u64
  orders_sent :: u64
  orders_filled :: u64
  orders_rejected :: u64
  cooldown_drops :: u64
  errors :: u64
  feed_drops :: u64
  missed_signals :: u64
  clamped_prices :: u64
  lat_count :: u64
  lat_sum :: u64
  lat_min :: u64
  lat_max :: u64
  lat_hist :: "u32 list"
  sw_count :: u64
  sw_sum :: u64
  sw_max :: u64
  tick_time_us :: "u64 list"
  started_us :: u64
  last_tick_us :: u64

definition fmma_stats_init :: "u64 \<Rightarrow> fmma_stats" where
  "fmma_stats_init now =
     \<lparr>ticks = 0, signals = 0, orders_sent = 0, orders_filled = 0, orders_rejected = 0,
      cooldown_drops = 0, errors = 0, feed_drops = 0, missed_signals = 0, clamped_prices = 0,
      lat_count = 0, lat_sum = 0, lat_min = - 1, lat_max = 0,
      lat_hist = replicate FMMA_LAT_BUCKETS 0,
      sw_count = 0, sw_sum = 0, sw_max = 0,
      tick_time_us = replicate FMMA_TICK_HISTORY 0,
      started_us = now, last_tick_us = now\<rparr>"

section \<open>Operations\<close>

text \<open>The loop of \<open>bucket_of\<close>, counting its iterations up to the last bucket.\<close>

function bucket_loop :: "u64 \<Rightarrow> nat \<Rightarrow> nat" where
  "bucket_loop us b =
     (if us > 1 \<and> b < FMMA_LAT_BUCKETS - 1 then bucket_loop (drop_bit 1 us) (b + 1) else b)"
  by pat_completeness auto
termination
  by (relation "measure (\<lambda>(us, b). FMMA_LAT_BUCKETS - b)") auto

declare bucket_loop.simps [simp del]

definition bucket_of :: "u64 \<Rightarrow> nat" where
  "bucket_of us = bucket_loop us 0"

definition fmma_stats_tick :: "fmma_stats \<Rightarrow> u32 \<Rightarrow> u64 \<Rightarrow> fmma_stats" where
  "fmma_stats_tick s seq now =
     s\<lparr>tick_time_us := (tick_time_us s)[unat seq mod FMMA_TICK_HISTORY := now],
       last_tick_us := now, ticks := ticks s + 1\<rparr>"

text \<open>Recording one latency sample, the tail of \<open>fmma_stats_signal\<close>.\<close>

definition record_latency :: "fmma_stats \<Rightarrow> u64 \<Rightarrow> fmma_stats" where
  "record_latency s dt =
     s\<lparr>lat_count := lat_count s + 1, lat_sum := lat_sum s + dt,
       lat_min := (if dt < lat_min s then dt else lat_min s),
       lat_max := (if dt > lat_max s then dt else lat_max s),
       lat_hist := (lat_hist s)[bucket_of dt := lat_hist s ! bucket_of dt + 1]\<rparr>"

definition fmma_stats_signal :: "fmma_stats \<Rightarrow> u32 \<Rightarrow> u64 \<Rightarrow> fmma_stats \<times> u64" where
  "fmma_stats_signal s seq now =
     (let s1 = s\<lparr>signals := signals s + 1\<rparr>;
          published = tick_time_us s1 ! (unat seq mod FMMA_TICK_HISTORY)
      in if published = 0 then (s1, 0)
         else if now < published then (s1, 0)
         else (record_latency s1 (now - published), now - published))"

definition fmma_stats_software :: "fmma_stats \<Rightarrow> u64 \<Rightarrow> fmma_stats" where
  "fmma_stats_software s ns =
     s\<lparr>sw_count := sw_count s + 1, sw_sum := sw_sum s + ns,
       sw_max := (if ns > sw_max s then ns else sw_max s)\<rparr>"

definition fmma_stats_feed_age_us :: "fmma_stats \<Rightarrow> u64 \<Rightarrow> u64" where
  "fmma_stats_feed_age_us s now = (if now > last_tick_us s then now - last_tick_us s else 0)"

text \<open>
  Doubles as multiples of \<open>2 ^ -53\<close>: \<open>excess n\<close> is the number of bits of \<open>n\<close> beyond 53, and
  rounding to the nearest multiple of \<open>2 ^ excess n\<close> breaks ties to the even multiple.
\<close>

fun excess_fuel :: "nat \<Rightarrow> nat \<Rightarrow> nat" where
  "excess_fuel 0 n = 0"
| "excess_fuel (Suc k) n = (if n < 2 ^ 53 then 0 else Suc (excess_fuel k (n div 2)))"

definition round53 :: "nat \<Rightarrow> nat" where
  "round53 n =
     (let e = excess_fuel 128 n; q = n div 2 ^ e; r = n mod 2 ^ e
      in if e = 0 then n
         else if 2 * r > 2 ^ e \<or> (2 * r = 2 ^ e \<and> odd q) then (q + 1) * 2 ^ e else q * 2 ^ e)"

text \<open>The conversion of a count, a whole number of ones rather than of \<open>2 ^ -53\<close>.\<close>

definition double_of_u64 :: "u64 \<Rightarrow> nat" where
  "double_of_u64 n = round53 (unat n)"

text \<open>The doubles nearest to 0.99 and 0.999.\<close>

definition dbl_0_99 :: nat where "dbl_0_99 = 8917127262193582"
definition dbl_0_999 :: nat where "dbl_0_999 = 8998192055486251"

definition percentile_want :: "u64 \<Rightarrow> nat \<Rightarrow> u64" where
  "percentile_want count p =
     (let product = round53 (double_of_u64 count * p);
          want = word_of_nat (round53 (product + dbl_0_999) div 2 ^ 53) :: u64;
          want1 = (if want = 0 then 1 else want)
      in if want1 > count then count else want1)"

fun percentile_scan :: "u32 list \<Rightarrow> nat \<Rightarrow> u64 \<Rightarrow> u64 \<Rightarrow> u64 \<Rightarrow> u64" where
  "percentile_scan [] b seen want mx = mx"
| "percentile_scan (h # hs) b seen want mx =
     (if h = 0 then percentile_scan hs (b + 1) seen want mx
      else
        let seen1 = seen + ucast h
        in if seen1 \<ge> want
           then (let edge = push_bit (b + 1) 1 in if edge > mx then mx else edge)
           else percentile_scan hs (b + 1) seen1 want mx)"

definition fmma_stats_percentile :: "fmma_stats \<Rightarrow> nat \<Rightarrow> u64" where
  "fmma_stats_percentile s p =
     (if lat_count s = 0 then 0
      else percentile_scan (lat_hist s) 0 0 (percentile_want (lat_count s) p) (lat_max s))"

definition fmma_stats_report :: "fmma_stats \<Rightarrow> u64 \<Rightarrow> string" where
  "fmma_stats_report s now =
     nl @ ''--- '' @ fmt_word ((now - started_us s) div 1000000) @
     '' s ---------------------------------------------'' @ nl @
     ''  ticks '' @ fmt_word (ticks s) @ ''   signals '' @ fmt_word (signals s) @
     ''   orders '' @ fmt_word (orders_sent s) @ '' sent / '' @ fmt_word (orders_filled s) @
     '' filled / '' @ fmt_word (orders_rejected s) @ '' rejected'' @ nl @
     (if cooldown_drops s \<noteq> 0 \<or> missed_signals s \<noteq> 0 \<or> clamped_prices s \<noteq> 0 \<or> feed_drops s \<noteq> 0 \<or> errors s \<noteq> 0
      then ''  cooldown drops '' @ fmt_word (cooldown_drops s) @ ''   missed signals '' @
           fmt_word (missed_signals s) @ ''   clamped prices '' @ fmt_word (clamped_prices s) @
           ''   feed drops '' @ fmt_word (feed_drops s) @ ''   errors '' @ fmt_word (errors s) @ nl
      else []) @
     (if lat_count s \<noteq> 0
      then ''  quote -> decision seen:  min '' @ fmt_word (lat_min s) @ '' us   mean '' @
           fmt_word (lat_sum s div lat_count s) @ '' us   p99 '' @
           fmt_word (fmma_stats_percentile s dbl_0_99) @ '' us   max '' @ fmt_word (lat_max s) @
           '' us   (n='' @ fmt_word (lat_count s) @ '')'' @ nl
      else []) @
     (if sw_count s \<noteq> 0
      then ''  software strategy:       mean '' @ fmt_word (sw_sum s div sw_count s) @
           '' ns   max '' @ fmt_word (sw_max s) @ '' ns   (n='' @ fmt_word (sw_count s) @ '')'' @ nl
      else [])"

section \<open>The histogram\<close>

lemma bucket_loop_spec:
  assumes "b \<le> 23"
  shows "b \<le> bucket_loop us b \<and> bucket_loop us b \<le> 23
    \<and> (bucket_loop us b < 23 \<longrightarrow> unat us < 2 ^ (bucket_loop us b - b + 1))
    \<and> (b < bucket_loop us b \<longrightarrow> 2 ^ (bucket_loop us b - b) \<le> unat us)"
  using assms
proof (induction us b rule: bucket_loop.induct)
  case (1 us b)
  show ?case
  proof (cases "us > 1 \<and> b < FMMA_LAT_BUCKETS - 1")
    case True
    define r where "r = bucket_loop (drop_bit 1 us) (b + 1)"
    have step: "bucket_loop us b = r" using True by (simp add: bucket_loop.simps [of us b] r_def)
    have half: "unat (drop_bit (Suc 0) us) = unat us div 2" by (simp add: drop_bit_Suc unat_div)
    have gt: "1 < unat us" using True by (simp add: word_less_nat_alt)
    have IH: "b + 1 \<le> r" "r \<le> 23" "r < 23 \<longrightarrow> unat us div 2 < 2 ^ (r - (b + 1) + 1)"
      "b + 1 < r \<longrightarrow> 2 ^ (r - (b + 1)) \<le> unat us div 2"
      using 1 True by (auto simp: r_def half)
    obtain k where k: "r = b + 1 + k" using IH(1) by (metis le_Suc_ex)
    have "r < 23 \<longrightarrow> unat us < 2 ^ (k + 2)" using IH(3) by (auto simp: k)
    moreover have "2 ^ (k + 1) \<le> unat us" using IH(4) gt by (cases k) (auto simp: k)
    ultimately show ?thesis using IH(1,2) unfolding step by (simp add: k)
  next
    case False
    then have "bucket_loop us b = b" by (auto simp: bucket_loop.simps [of us b])
    moreover have "b = 23 \<or> unat us < 2" using False 1(2) by (auto simp: word_less_nat_alt)
    ultimately show ?thesis using 1(2) by auto
  qed
qed

lemma bucket_bounds:
  "bucket_of us \<le> 23"
  "bucket_of us < 23 \<Longrightarrow> unat us < 2 ^ (bucket_of us + 1)"
  "0 < bucket_of us \<Longrightarrow> 2 ^ bucket_of us \<le> unat us"
  using bucket_loop_spec [of 0 us] by (auto simp: bucket_of_def)

text \<open>What the state says about the list of samples recorded so far.\<close>

definition latency_rep :: "fmma_stats \<Rightarrow> u64 list \<Rightarrow> bool" where
  "latency_rep s xs \<longleftrightarrow>
     lat_count s = word_of_nat (length xs) \<and>
     lat_sum s = word_of_nat (\<Sum>x\<leftarrow>xs. unat x) \<and>
     (\<forall>x\<in>set xs. lat_min s \<le> x \<and> x \<le> lat_max s) \<and>
     (if xs = [] then lat_min s = - 1 \<and> lat_max s = 0 else lat_min s \<in> set xs \<and> lat_max s \<in> set xs) \<and>
     length (lat_hist s) = FMMA_LAT_BUCKETS \<and>
     (\<forall>b < FMMA_LAT_BUCKETS. lat_hist s ! b = word_of_nat (length (filter (\<lambda>x. bucket_of x = b) xs)))"

lemma latency_rep_init: "latency_rep (fmma_stats_init now) []"
  by (simp add: latency_rep_def fmma_stats_init_def)

lemma latency_rep_record:
  assumes "latency_rep s xs"
  shows "latency_rep (record_latency s x) (xs @ [x])"
proof -
  have b: "bucket_of x < FMMA_LAT_BUCKETS" using bucket_bounds(1) [of x] by simp
  have "lat_count (record_latency s x) = word_of_nat (length (xs @ [x]))"
    "lat_sum (record_latency s x) = word_of_nat (\<Sum>x\<leftarrow>xs @ [x]. unat x)"
    using assms by (simp_all add: latency_rep_def record_latency_def)
  moreover have "\<forall>y\<in>set (xs @ [x]). lat_min (record_latency s x) \<le> y \<and> y \<le> lat_max (record_latency s x)"
    using assms by (auto simp: latency_rep_def record_latency_def)
  moreover have "lat_min (record_latency s x) \<in> set (xs @ [x])" "lat_max (record_latency s x) \<in> set (xs @ [x])"
    using assms order.antisym [OF max_word_max [of x]]
    by (auto simp: latency_rep_def record_latency_def not_less split: if_splits)
  moreover have "length (lat_hist (record_latency s x)) = FMMA_LAT_BUCKETS"
    using assms by (simp add: latency_rep_def record_latency_def)
  moreover have "\<forall>i < FMMA_LAT_BUCKETS. lat_hist (record_latency s x) ! i =
      word_of_nat (length (filter (\<lambda>y. bucket_of y = i) (xs @ [x])))"
    using assms b by (auto simp: latency_rep_def record_latency_def nth_list_update)
  ultimately show ?thesis unfolding latency_rep_def by simp
qed

lemma latency_rep_all:
  "latency_rep s xs \<Longrightarrow> latency_rep (fold (\<lambda>x st. record_latency st x) ys s) (xs @ ys)"
proof (induction ys arbitrary: s xs)
  case (Cons y ys)
  show ?case using Cons.IH [OF latency_rep_record [OF Cons.prems, of y]] by simp
qed simp

section \<open>Percentiles\<close>

text \<open>The number of samples in the buckets below \<open>b\<close>, and how they relate to a bound.\<close>

abbreviation below :: "nat \<Rightarrow> u64 list \<Rightarrow> nat" where
  "below b xs \<equiv> length (filter (\<lambda>x. bucket_of x < b) xs)"

lemma below_Suc:
  "below (Suc b) xs = below b xs + length (filter (\<lambda>x. bucket_of x = b) xs)"
  by (induction xs) auto

lemma below_le_bound:
  assumes "\<forall>x\<in>set xs. unat x < 2 ^ 24" "\<forall>x\<in>set xs. x \<le> mx" "b \<le> 24"
  shows "below b xs \<le> length (filter (\<lambda>x. unat x \<le> 2 ^ b \<and> x \<le> mx) xs)"
  using assms
proof (induction xs)
  case (Cons x xs)
  have "bucket_of x < b \<Longrightarrow> unat x \<le> 2 ^ b"
  proof -
    assume lt: "bucket_of x < b"
    have "unat x < 2 ^ (bucket_of x + 1)"
      using bucket_bounds(1,2) [of x] Cons.prems(1) by (cases "bucket_of x = 23") auto
    also have "(2::nat) ^ (bucket_of x + 1) \<le> 2 ^ b" using lt by (intro power_increasing) auto
    finally show ?thesis by simp
  qed
  then show ?case using Cons by auto
qed simp

lemma scan_covers:
  assumes "length hs + b = FMMA_LAT_BUCKETS"
    "\<forall>i < length hs. hs ! i = word_of_nat (length (filter (\<lambda>x. bucket_of x = b + i) xs))"
    "seen = word_of_nat (below b xs)" "length xs < 2 ^ 32"
    "\<forall>x\<in>set xs. unat x < 2 ^ 24" "\<forall>x\<in>set xs. x \<le> mx" "unat want \<le> length xs"
  shows "unat want \<le> length (filter (\<lambda>x. x \<le> percentile_scan hs b seen want mx) xs)
    \<and> percentile_scan hs b seen want mx \<le> mx"
  using assms
proof (induction hs arbitrary: b seen)
  case Nil
  then have "filter (\<lambda>x. x \<le> mx) xs = xs" by (simp add: filter_id_conv)
  then show ?case using Nil by simp
next
  case (Cons h hs)
  define c where "c = length (filter (\<lambda>x. bucket_of x = b) xs)"
  have h: "h = word_of_nat c" using Cons.prems(2) by (auto simp: c_def)
  have c: "c < 2 ^ 32" using Cons.prems(4) le_less_trans [OF length_filter_le] by (auto simp: c_def)
  have uh: "ucast h = (word_of_nat c :: u64)"
    using c by (simp add: h unsigned_of_nat take_bit_nat_eq_self word_eq_iff_unsigned flip: take_bit_nat_def)
  have seen1: "seen + ucast h = word_of_nat (below (Suc b) xs)"
    by (simp only: uh below_Suc Cons.prems(3) c_def of_nat_add)
  have len: "below (Suc b) xs < 2 ^ 32"
    using Cons.prems(4) le_less_trans [OF length_filter_le] by blast
  have tl: "\<forall>i < length hs. hs ! i = word_of_nat (length (filter (\<lambda>x. bucket_of x = Suc b + i) xs))"
    using Cons.prems(2) by (metis Suc_less_eq add_Suc add_Suc_right length_Cons nth_Cons_Suc)
  note IH = Cons.IH [of "Suc b", OF _ tl _ Cons.prems(4-7)]
  show ?case
  proof (cases "h = 0 \<or> \<not> want \<le> seen + ucast h")
    case True
    have "seen + ucast h = seen" if "h = 0" using that by simp
    then have "percentile_scan (h # hs) b seen want mx =
        percentile_scan hs (Suc b) (word_of_nat (below (Suc b) xs)) want mx"
      using True seen1 by (auto simp: Let_def)
    then show ?thesis using IH Cons.prems(1) by simp
  next
    case False
    then have le: "unat want \<le> below (Suc b) xs"
      using len by (simp add: seen1 word_le_nat_alt unsigned_of_nat take_bit_nat_eq_self)
    have b: "b < 24" using Cons.prems(1) by simp
    define E :: u64 where "E = push_bit (b + 1) 1"
    have "(2::nat) ^ (b + 1) < 2 ^ 64" using b by (intro power_strict_increasing) auto
    then have edge: "unat E = 2 ^ (b + 1)"
      by (simp add: E_def unsigned_push_bit_eq take_bit_nat_eq_self flip: push_bit_eq_mult)
    have "unat want \<le> length (filter (\<lambda>x. unat x \<le> 2 ^ (b + 1) \<and> x \<le> mx) xs)"
      using le below_le_bound [OF Cons.prems(5,6), of "b + 1"] b by simp
    also have "\<dots> \<le> length (filter (\<lambda>x. x \<le> (if E > mx then mx else E)) xs)"
      by (rule filter_length_mono) (auto simp: word_le_nat_alt edge)
    finally have "unat want \<le> length (filter (\<lambda>x. x \<le> (if E > mx then mx else E)) xs)" .
    moreover have "percentile_scan (h # hs) b seen want mx = (if E > mx then mx else E)"
      unfolding percentile_scan.simps Let_def E_def [symmetric] using False by simp
    moreover have "(if E > mx then mx else E) \<le> mx" by (simp add: not_less)
    ultimately show ?thesis by (simp only: simp_thms)
  qed
qed

text \<open>Rounding to 53 bits moves a number of \<open>53 + k\<close> bits by at most \<open>2 ^ k\<close>.\<close>

lemma excess_le: "n < 2 ^ (53 + k) \<Longrightarrow> excess_fuel m n \<le> k"
proof (induction m n arbitrary: k rule: excess_fuel.induct)
  case (2 m n)
  show ?case
  proof (cases "n < 2 ^ 53")
    case False
    then obtain j where j: "k = Suc j" using 2(2) by (cases k) auto
    then have "n div 2 < 2 ^ (53 + j)" using 2(2) by (simp add: div_less_iff_less_mult power_add)
    then show ?thesis using 2(1) [of j] False j by simp
  qed simp
qed simp

lemma round53_close:
  assumes "n < 2 ^ (53 + k)"
  shows "n \<le> round53 n + 2 ^ k" "round53 n \<le> n + 2 ^ k"
proof -
  define e where "e = excess_fuel 128 n"
  have e: "(2::nat) ^ e \<le> 2 ^ k" using excess_le [OF assms] by (simp add: e_def)
  have n: "n = n div 2 ^ e * 2 ^ e + n mod 2 ^ e" "n mod 2 ^ e < 2 ^ e"
    by (simp_all only: div_mult_mod_eq) simp
  have "round53 n = n \<or> round53 n = n div 2 ^ e * 2 ^ e + 2 ^ e \<or> round53 n = n div 2 ^ e * 2 ^ e"
    by (simp add: round53_def Let_def algebra_simps flip: e_def)
  then show "n \<le> round53 n + 2 ^ k" "round53 n \<le> n + 2 ^ k"
    using e n by linarith+
qed

lemma round53_small: "n < 2 ^ 53 \<Longrightarrow> round53 n = n"
  using excess_le [of n 0 128] by (simp add: round53_def)

text \<open>For up to \<open>2 ^ 32\<close> samples the rank is the exact ceiling of 99 percent.\<close>

lemma percentile_want_99:
  assumes "0 < n" "n < 2 ^ 32"
  shows "unat (percentile_want (word_of_nat n) dbl_0_99) = (99 * n + 99) div 100"
proof -
  have un: "unat (word_of_nat n :: u64) = n"
    using assms by (simp add: unsigned_of_nat take_bit_nat_eq_self)
  define a where "a = round53 (n * dbl_0_99)"
  define z where "z = round53 (a + dbl_0_999)"
  define w where "w = z div 2 ^ 53"
  have n32: "n < 4294967296" using assms by simp
  have "n * dbl_0_99 < 2 ^ (53 + 32)" using n32 by (simp add: dbl_0_99_def)
  from round53_close [OF this] have a: "n * 8917127262193582 \<le> a + 4294967296" "a \<le> n * 8917127262193582 + 4294967296"
    by (simp_all add: a_def dbl_0_99_def)
  have "a + dbl_0_999 < 2 ^ (53 + 32)" using a n32 by (simp add: dbl_0_999_def)
  from round53_close [OF this] have z: "a + 8998192055486251 \<le> z + 4294967296" "z \<le> a + 8998192055486251 + 4294967296"
    by (simp_all add: z_def dbl_0_999_def)
  define c where "c = (99 * n + 99) div 100"
  have c: "99 * n \<le> 100 * c" "100 * c \<le> 99 * n + 99" by (simp_all add: c_def)
  have "c * 9007199254740992 \<le> z" using a z c(2) n32 by linarith
  moreover have "z < (c + 1) * 9007199254740992"
  proof -
    have "n * 891712726219358200 \<le> (99 * n) * 9007199254740992" by simp
    also have "\<dots> \<le> (100 * c) * 9007199254740992" using c(1) by (intro mult_right_mono) simp_all
    finally have "n * 8917127262193582 \<le> c * 9007199254740992" by simp
    then show ?thesis using a z by simp
  qed
  ultimately have w: "w = c" unfolding w_def by (intro div_nat_eqI) simp_all
  have cb: "0 < c" "c \<le> n" using assms(1) c by linarith+
  have uw: "unat (word_of_nat c :: u64) = c"
    using cb n32 by (simp add: unsigned_of_nat take_bit_nat_eq_self)
  have "percentile_want (word_of_nat n) dbl_0_99 = word_of_nat c"
  proof -
    have r: "round53 (round53 (double_of_u64 (word_of_nat n) * dbl_0_99) + dbl_0_999) div 2 ^ 53 = c"
      using w n32 by (simp add: double_of_u64_def un round53_small w_def z_def a_def)
    have "(word_of_nat c :: u64) \<noteq> 0" "\<not> (word_of_nat c :: u64) > word_of_nat n"
      using cb uw un by (auto simp: word_less_nat_alt)
    then show ?thesis by (simp only: percentile_want_def Let_def r if_False simp_thms)
  qed
  then show ?thesis using uw by (simp add: c_def)
qed

abbreviation record_all :: "u64 \<Rightarrow> u64 list \<Rightarrow> fmma_stats" where
  "record_all t xs \<equiv> fold (\<lambda>x st. record_latency st x) xs (fmma_stats_init t)"

lemma record_all_rep: "latency_rep (record_all t xs) xs"
  using latency_rep_all [OF latency_rep_init] by simp

text \<open>
  C34. The reported p99 is an honest upper bound: after recording any list of fewer than \<open>2 ^ 32\<close>
  samples, all below \<open>2 ^ 24\<close> microseconds, at least 99 percent of the samples are at or below
  the reported value, and it never exceeds the largest sample. The rank is computed in binary64
  with its rounding, from the histogram alone.
\<close>

theorem stats_p99_covers:
  assumes "xs \<noteq> []" "length xs < 2 ^ 32" "\<forall>x\<in>set xs. unat x < 2 ^ 24"
  shows "99 * length xs \<le>
      100 * length (filter (\<lambda>x. x \<le> fmma_stats_percentile (record_all t xs) dbl_0_99) xs) \<and>
    fmma_stats_percentile (record_all t xs) dbl_0_99 \<le> lat_max (record_all t xs)"
proof -
  let ?s = "record_all t xs"
  define v where "v = fmma_stats_percentile ?s dbl_0_99"
  have rep: "lat_count ?s = word_of_nat (length xs)" "\<forall>x\<in>set xs. x \<le> lat_max ?s"
    "length (lat_hist ?s) = FMMA_LAT_BUCKETS"
    "\<forall>b < FMMA_LAT_BUCKETS. lat_hist ?s ! b = word_of_nat (length (filter (\<lambda>x. bucket_of x = b) xs))"
    using record_all_rep [of xs t] unfolding latency_rep_def by blast+
  have w: "unat (percentile_want (lat_count ?s) dbl_0_99) = (99 * length xs + 99) div 100"
    using percentile_want_99 [of "length xs"] assms(1,2) rep(1) by simp
  have nz: "lat_count ?s \<noteq> 0"
    using assms(1,2) by (simp add: rep(1) word_of_nat_eq_0_iff dvd_imp_le nat_dvd_not_less)
  have "v = percentile_scan (lat_hist ?s) 0 0 (percentile_want (lat_count ?s) dbl_0_99) (lat_max ?s)"
    using nz by (simp add: v_def fmma_stats_percentile_def)
  moreover have "unat (percentile_want (lat_count ?s) dbl_0_99) \<le> length xs" unfolding w using assms(1) by simp
  ultimately show ?thesis
    using scan_covers [of "lat_hist ?s" 0 xs 0 "lat_max ?s" "percentile_want (lat_count ?s) dbl_0_99"]
      rep assms(2,3) w by (auto simp flip: v_def)
qed

theorem stats_p99_covers_witness:
  "99 * length [3, 5, 900 :: u64] \<le>
     100 * length (filter (\<lambda>x. x \<le> fmma_stats_percentile (record_all 7 [3, 5, 900]) dbl_0_99) [3, 5, 900])"
  using stats_p99_covers [of "[3, 5, 900]" 7] by simp

text \<open>
  Above the last bucket edge the bound is lost: for a single sample of at least \<open>2 ^ 24 + 1\<close>
  microseconds the reported p99 is \<open>2 ^ 24\<close>, below every sample taken.
\<close>

theorem stats_p99_understates:
  assumes "unat x > 2 ^ 24"
  shows "fmma_stats_percentile (record_all t [x]) dbl_0_99 < x"
proof -
  have b: "bucket_of x = 23"
  proof (rule ccontr)
    assume "bucket_of x \<noteq> 23"
    then have "unat x < 2 ^ (bucket_of x + 1)" "bucket_of x + 1 \<le> 23" using bucket_bounds(1,2) [of x] by auto
    then have "unat x < 2 ^ 23" using power_increasing [of "bucket_of x + 1" 23 "2::nat"] by linarith
    then show False using assms by simp
  qed
  have "percentile_want 1 dbl_0_99 = 1"
  proof -
    have "unat (percentile_want 1 dbl_0_99) = 1" using percentile_want_99 [of 1] by simp
    then have "word_of_nat (unat (percentile_want 1 dbl_0_99)) = (1 :: u64)" by (simp only: of_nat_1)
    then show ?thesis by simp
  qed
  moreover have "lat_hist (record_all t [x]) = replicate 23 0 @ [1]"
    by (simp add: record_latency_def b fmma_stats_init_def numeral_eq_Suc)
  moreover have "lat_max (record_all t [x]) = x" "lat_count (record_all t [x]) = 1"
    using assms by (simp_all add: record_latency_def fmma_stats_init_def word_less_nat_alt)
  moreover have "\<not> x < 16777216" using assms by (simp add: word_less_nat_alt)
  ultimately have "fmma_stats_percentile (record_all t [x]) dbl_0_99 = 16777216"
    by (simp add: fmma_stats_percentile_def numeral_eq_Suc)
  then show ?thesis using assms by (simp add: word_less_nat_alt)
qed

theorem stats_p99_understates_witness:
  "fmma_stats_percentile (record_all 7 [20000000]) dbl_0_99 < 20000000"
  using stats_p99_understates [of 20000000 7] by simp

text \<open>
  The summary line is about the samples: after recording a nonempty list of samples the
  counters hold their number, their sum (modulo \<open>2 ^ 64\<close>), their least and their largest
  element, and while the sum fits the reported mean lies between the two.
\<close>

theorem stats_summary_exact:
  assumes "xs \<noteq> []" "(\<Sum>x\<leftarrow>xs. unat x) < 2 ^ 64" "length xs < 2 ^ 64"
  shows "unat (lat_count (record_all t xs)) = length xs \<and>
    unat (lat_sum (record_all t xs)) = (\<Sum>x\<leftarrow>xs. unat x) \<and>
    lat_min (record_all t xs) = Min (set xs) \<and> lat_max (record_all t xs) = Max (set xs) \<and>
    lat_min (record_all t xs) \<le> lat_sum (record_all t xs) div lat_count (record_all t xs) \<and>
    lat_sum (record_all t xs) div lat_count (record_all t xs) \<le> lat_max (record_all t xs)"
proof -
  let ?s = "record_all t xs"
  have rep: "lat_count ?s = word_of_nat (length xs)" "lat_sum ?s = word_of_nat (\<Sum>x\<leftarrow>xs. unat x)"
    "\<forall>x\<in>set xs. lat_min ?s \<le> x \<and> x \<le> lat_max ?s" "lat_min ?s \<in> set xs" "lat_max ?s \<in> set xs"
    using record_all_rep [of xs t] assms(1) unfolding latency_rep_def by auto
  have c: "unat (lat_count ?s) = length xs" and sm: "unat (lat_sum ?s) = (\<Sum>x\<leftarrow>xs. unat x)"
    using assms(2,3) by (simp_all add: rep(1,2) unsigned_of_nat take_bit_nat_eq_self)
  have mm: "lat_min ?s = Min (set xs)" "lat_max ?s = Max (set xs)"
    using rep(3-5) by (auto intro!: Min_eqI [symmetric] Max_eqI [symmetric])
  have "length xs * unat (lat_min ?s) \<le> (\<Sum>x\<leftarrow>xs. unat x)"
    using sum_list_mono [of xs "\<lambda>_. unat (lat_min ?s)" unat] rep(3)
    by (simp add: word_le_nat_alt sum_list_triv)
  moreover have "(\<Sum>x\<leftarrow>xs. unat x) \<le> length xs * unat (lat_max ?s)"
    using sum_list_mono [of xs unat "\<lambda>_. unat (lat_max ?s)"] rep(3)
    by (simp add: word_le_nat_alt sum_list_triv)
  ultimately have "unat (lat_min ?s) \<le> (\<Sum>x\<leftarrow>xs. unat x) div length xs"
    "(\<Sum>x\<leftarrow>xs. unat x) div length xs \<le> unat (lat_max ?s)"
    using assms(1) by (simp_all add: less_eq_div_iff_mult_less_eq mult.commute div_le_mono
        flip: div_mult_self1_is_m) (metis div_le_mono div_mult_self1_is_m length_greater_0_conv)
  then show ?thesis using c sm mm by (simp add: word_le_nat_alt unat_div)
qed

theorem stats_summary_exact_witness:
  "lat_sum (record_all 7 [3, 5, 900]) div lat_count (record_all 7 [3, 5, 900]) \<le> lat_max (record_all 7 [3, 5, 900])"
proof -
  have "(\<Sum>x\<leftarrow>[3, 5, 900 :: u64]. unat x) < 2 ^ 64" "length [3, 5, 900 :: u64] < 2 ^ 64" by simp_all
  from stats_summary_exact [OF _ this, of 7] show ?thesis by blast
qed

section \<open>Matching a decision to its quote\<close>

text \<open>Publishing at consecutive times; the fabric's sequence numbers advance by two.\<close>

fun tick_series :: "fmma_stats \<Rightarrow> u32 \<Rightarrow> u64 list \<Rightarrow> fmma_stats" where
  "tick_series s seq [] = s"
| "tick_series s seq (t # ts) = tick_series (fmma_stats_tick s seq t) (seq + 2) ts"

definition tick_slot :: "u32 \<Rightarrow> nat" where
  "tick_slot seq = unat seq mod FMMA_TICK_HISTORY"

lemma tick_slot_step: "tick_slot (seq + 2) = (tick_slot seq + 2) mod 256"
proof -
  have "(256::nat) dvd 2 ^ 32" by (rule dvdI [of _ _ "2 ^ 24"]) simp
  then have "(unat seq + 2) mod 2 ^ 32 mod 256 = (unat seq + 2) mod 256" by (rule mod_mod_cancel)
  then show ?thesis unfolding tick_slot_def unat_word_ariths by (simp add: mod_simps)
qed

lemma tick_series_length [simp]: "length (tick_time_us (tick_series s seq ts)) = length (tick_time_us s)"
  by (induction s seq ts rule: tick_series.induct) (simp_all add: fmma_stats_tick_def)

lemma tick_series_keeps:
  assumes "i < 256" "\<forall>k < length ts. (tick_slot seq + 2 * k) mod 256 \<noteq> i" "length (tick_time_us s) = 256"
  shows "tick_time_us (tick_series s seq ts) ! i = tick_time_us s ! i"
  using assms
proof (induction s seq ts rule: tick_series.induct)
  case (2 s seq t ts)
  have "\<forall>k < length ts. (tick_slot (seq + 2) + 2 * k) mod 256 \<noteq> i"
  proof (intro allI impI)
    fix k assume "k < length ts"
    then have "(tick_slot seq + 2 * Suc k) mod 256 \<noteq> i" using "2.prems"(2) by (metis length_Cons Suc_less_eq)
    then show "(tick_slot (seq + 2) + 2 * k) mod 256 \<noteq> i"
      by (simp add: tick_slot_step mod_add_left_eq add.assoc)
  qed
  moreover have "tick_slot seq \<noteq> i" using "2.prems"(2) [rule_format, of 0] by (simp add: tick_slot_def)
  ultimately show ?case
    using "2.IH" "2.prems"(1,3) by (simp add: fmma_stats_tick_def tick_slot_def)
qed simp

lemma signal_latency:
  assumes "tick_time_us s ! tick_slot seq = t" "t \<noteq> 0" "t \<le> now"
  shows "snd (fmma_stats_signal s seq now) = now - t"
  using assms by (simp add: fmma_stats_signal_def Let_def tick_slot_def not_less [symmetric])

text \<open>
  A decision is timed against its own quote as long as fewer than 128 newer quotes have been
  published: whatever the sequence number, wrap-around of the 32-bit counter included, the
  reported latency is the time since that very tick was published.
\<close>

theorem stats_latency_of_tick:
  assumes "length (tick_time_us s) = FMMA_TICK_HISTORY" "length ts < 128" "t \<noteq> 0" "t \<le> now"
  shows "snd (fmma_stats_signal (tick_series (fmma_stats_tick s seq t) (seq + 2) ts) seq now) = now - t"
proof (rule signal_latency [OF _ assms(3,4)])
  have lt: "tick_slot seq < 256" by (simp add: tick_slot_def)
  have "\<forall>k < length ts. (tick_slot (seq + 2) + 2 * k) mod 256 \<noteq> tick_slot seq"
  proof (intro allI impI)
    fix k assume "k < length ts"
    then have k: "2 + 2 * k < 256" using assms(2) by simp
    have "(tick_slot (seq + 2) + 2 * k) mod 256 = (tick_slot seq + (2 + 2 * k)) mod 256"
      by (simp add: tick_slot_step mod_add_left_eq add.assoc)
    also have "\<dots> \<noteq> tick_slot seq"
    proof (cases "tick_slot seq + (2 + 2 * k) < 256")
      case False
      then show ?thesis using lt k by (subst mod_if) (auto simp: mod_less)
    qed simp
    finally show "(tick_slot (seq + 2) + 2 * k) mod 256 \<noteq> tick_slot seq" .
  qed
  then show "tick_time_us (tick_series (fmma_stats_tick s seq t) (seq + 2) ts) ! tick_slot seq = t"
    using tick_series_keeps [OF lt] assms(1) lt by (simp add: fmma_stats_tick_def tick_slot_def)
qed

theorem stats_latency_of_tick_witness:
  "snd (fmma_stats_signal (tick_series (fmma_stats_tick (fmma_stats_init 5) 4294967294 100) 0 [110, 120])
     4294967294 130) = 30"
proof -
  have "(4294967294 :: u32) + 2 = 0" by simp
  then show ?thesis
    using stats_latency_of_tick [of "fmma_stats_init 5" "[110, 120]" 100 130 4294967294]
    by (simp only:) (simp add: fmma_stats_init_def)
qed

text \<open>
  The window is half of what \<open>FMMA_TICK_HISTORY\<close> says: published sequence numbers are even,
  so only 128 of the 256 slots are ever used, and after exactly 128 newer quotes a decision is
  timed against the newest of them instead.
\<close>

theorem stats_window_is_half:
  assumes "length (tick_time_us s) = FMMA_TICK_HISTORY" "length ts = 127" "t' \<noteq> 0" "t' \<le> now"
  shows "snd (fmma_stats_signal (tick_series (fmma_stats_tick s seq t) (seq + 2) (ts @ [t'])) seq now) = now - t'"
proof (rule signal_latency [OF _ assms(3,4)])
  have app: "tick_series s q (xs @ [x]) = fmma_stats_tick (tick_series s q xs) (q + 2 * word_of_nat (length xs)) x"
    for s q xs x by (induction s q xs rule: tick_series.induct) (simp_all add: algebra_simps)
  have "unat seq mod 256 = tick_slot (seq + 256)"
  proof -
    have "(256::nat) dvd 2 ^ 32" by (rule dvdI [of _ _ "2 ^ 24"]) simp
    then have "(unat seq + 256) mod 2 ^ 32 mod 256 = (unat seq + 256) mod 256" by (rule mod_mod_cancel)
    then show ?thesis by (simp add: tick_slot_def unat_word_ariths)
  qed
  then have "tick_slot (seq + 2 + 2 * word_of_nat (length ts)) = tick_slot seq"
    using assms(2) by (simp add: tick_slot_def add.commute)
  then show "tick_time_us (tick_series (fmma_stats_tick s seq t) (seq + 2) (ts @ [t'])) ! tick_slot seq = t'"
    unfolding app using assms(1)
    by (simp add: fmma_stats_tick_def [of "tick_series _ _ _"] flip: tick_slot_def)
       (simp add: fmma_stats_tick_def tick_slot_def)
qed

theorem stats_window_is_half_witness:
  "snd (fmma_stats_signal (tick_series (fmma_stats_tick (fmma_stats_init 5) 2 100) 4
     (replicate 127 200 @ [300])) 2 310) = 10"
  using stats_window_is_half [of "fmma_stats_init 5" "replicate 127 200" 300 310 2 100]
  by (simp add: fmma_stats_init_def)

end
