(* ===== verification/Fmma_Exec.thy ===== *)
theory Fmma_Exec
  imports Fmma_Config Fmma_Json Fmma_Stats Fmma_Position
begin

text \<open>
  Order execution, \<open>Software/src/fmma_exec.c\<close>: the table of working orders, sending, and the two
  callbacks that follow an order to a terminal state. The callbacks are driven by the events of
  the HTTP library, which are data here; whether \<open>calloc\<close> and \<open>mg_http_connect\<close> succeed, and the
  clock, are arguments. The counters are the shared statistics, passed through. A call of the fill
  callback is a value of the result: the fill it is given. Requests are the text written to the
  connection. The price parser may not return (it is partial), so the handlers that call it are in
  the option monad; a lemma shows that they always return.
\<close>

section \<open>State\<close>

abbreviation MAX_PENDING :: nat where "MAX_PENDING \<equiv> 8"
abbreviation ORDER_ID_LEN :: nat where "ORDER_ID_LEN \<equiv> 48"

definition ALPACA_HOST :: string where
  "ALPACA_HOST = ''paper-api.alpaca.markets''"

record pending =
  p_active :: bool
  p_id :: string
  p_side :: u32
  p_mark :: int
  p_sent_us :: u64
  p_last_poll_us :: u64
  p_query_in_flight :: bool

record fmma_exec =
  ex_on_fill :: bool
  ex_key :: "string option"
  ex_secret :: "string option"
  ex_pending :: "pending list"
  ex_last_order_ms :: u64

text \<open>\<open>memset (p, 0, sizeof (*p))\<close>.\<close>

definition pending_zero :: pending where
  "pending_zero = \<lparr>p_active = False, p_id = [], p_side = 0, p_mark = 0, p_sent_us = 0, p_last_poll_us = 0,
     p_query_in_flight = False\<rparr>"

definition set_slot :: "fmma_exec \<Rightarrow> nat \<Rightarrow> pending \<Rightarrow> fmma_exec" where
  "set_slot e i p = e\<lparr>ex_pending := (ex_pending e)[i := p]\<rparr>"

section \<open>Helpers\<close>

fun alloc_from :: "pending list \<Rightarrow> nat \<Rightarrow> nat option" where
  "alloc_from [] i = None"
| "alloc_from (p # ps) i = (if \<not> p_active p then Some i else alloc_from ps (i + 1))"

definition slot_alloc :: "fmma_exec \<Rightarrow> (fmma_exec \<times> nat) option" where
  "slot_alloc e =
     (case alloc_from (ex_pending e) 0 of None \<Rightarrow> None
      | Some i \<Rightarrow> Some (set_slot e i (pending_zero\<lparr>p_active := True\<rparr>), i))"

abbreviation crlf :: string where "crlf \<equiv> [CHR 0x0D, CHR 0x0A]"

definition auth_headers :: "fmma_exec \<Rightarrow> nat \<Rightarrow> string" where
  "auth_headers e n = snprintf_store n
     (''APCA-API-KEY-ID: '' @ (case ex_key e of None \<Rightarrow> [] | Some k \<Rightarrow> k) @ crlf @
      ''APCA-API-SECRET-KEY: '' @ (case ex_secret e of None \<Rightarrow> [] | Some k \<Rightarrow> k) @ crlf)"

definition status_is_filled :: "string \<Rightarrow> bool" where
  "status_is_filled status \<longleftrightarrow> status = ''filled''"

definition status_is_terminal :: "string \<Rightarrow> bool" where
  "status_is_terminal status \<longleftrightarrow>
     status_is_filled status \<or> status = ''canceled'' \<or> status = ''expired'' \<or> status = ''rejected'' \<or>
     status = ''done_for_day''"

definition settle ::
    "fmma_exec \<Rightarrow> fmma_stats \<Rightarrow> nat \<Rightarrow> string \<Rightarrow> int \<Rightarrow> u32 \<Rightarrow> fmma_exec \<times> fmma_stats \<times> fill option" where
  "settle e s slot status price qty =
     (let p = ex_pending e ! slot
      in if \<not> p_active p then (e, s, None)
         else
           let (s1, f) =
             (if status_is_filled status
              then (s\<lparr>orders_filled := orders_filled s + 1\<rparr>,
                    if ex_on_fill e
                    then Some (if p_side p = FMMA_SIGNAL_BUY then FMMA_FILL_BOUGHT else FMMA_FILL_SOLD, qty, price)
                    else None)
              else (s\<lparr>orders_rejected := orders_rejected s + 1\<rparr>, None))
           in (set_slot e slot (p\<lparr>p_active := False\<rparr>), s1, f))"

section \<open>HTTP callbacks\<close>

text \<open>
  Events of a connection: an HTTP response has a status and a length-delimited body. The context
  of a callback is the slot it follows, \<open>None\<close> once it has been freed.
\<close>

datatype http_event = EvConnect | EvHttp int string | EvError | EvClose | EvOther

text \<open>The body as a C string in a buffer of 1024: truncated, and ending at the first NUL.\<close>

definition body_text :: "string \<Rightarrow> string" where
  "body_text b = takeWhile (\<lambda>c. c \<noteq> CHR 0x00) (take 1023 b)"

definition copy_field :: "string \<Rightarrow> string \<Rightarrow> nat \<Rightarrow> int \<times> string" where
  "copy_field body name n =
     (case fmma_json_copy_string (Some body) (Some name) (Some []) n of (rc, out) \<Rightarrow> (rc, the out))"

text \<open>The price of a fill: the one the broker reports, else the mid when the order was sent.\<close>

definition fill_price :: "string \<Rightarrow> int \<Rightarrow> int option" where
  "fill_price body mark =
     (case copy_field body ''filled_avg_price'' 32 of (rc, fp) \<Rightarrow>
        if rc = 0 \<and> c_at fp 0 \<noteq> CHR 0x00
        then do { v \<leftarrow> fmma_parse_scaled (Some fp) FMMA_PRICE_SCALE;
                  Some (if v \<noteq> FMMA_PARSE_ERROR then v else mark) }
        else Some mark)"

record cb_result =
  cb_exec :: fmma_exec
  cb_stats :: fmma_stats
  cb_ctx :: "nat option"
  cb_fill :: "fill option"
  cb_draining :: bool
  cb_tls :: bool

definition cb_keep :: "fmma_exec \<Rightarrow> fmma_stats \<Rightarrow> nat option \<Rightarrow> cb_result" where
  "cb_keep e s ctx = \<lparr>cb_exec = e, cb_stats = s, cb_ctx = ctx, cb_fill = None, cb_draining = False, cb_tls = False\<rparr>"

definition order_response :: "fmma_exec \<Rightarrow> fmma_stats \<Rightarrow> nat \<Rightarrow> string \<Rightarrow> (fmma_exec \<times> fmma_stats \<times> fill option) option" where
  "order_response e s slot body =
     (let p = ex_pending e ! slot;
          (rc, oid) = copy_field body ''id'' ORDER_ID_LEN;
          p1 = p\<lparr>p_id := (if rc \<noteq> 0 then ''(no id)'' else oid)\<rparr>;
          e1 = set_slot e slot p1;
          st = snd (copy_field body ''status'' 32)
      in if status_is_terminal st
         then do { price \<leftarrow> fill_price body (p_mark p1);
                   Some (settle e1 s slot st price 1) }
         else Some (e1, s, None))"

fun order_cb :: "fmma_exec \<Rightarrow> fmma_stats \<Rightarrow> nat option \<Rightarrow> http_event \<Rightarrow> cb_result option" where
  "order_cb e s None ev = Some (cb_keep e s None)"
| "order_cb e s (Some slot) EvConnect = Some ((cb_keep e s (Some slot))\<lparr>cb_tls := True\<rparr>)"
| "order_cb e s (Some slot) (EvHttp status b) =
     (if 200 \<le> status \<and> status < 300
      then do { (e1, s1, f) \<leftarrow> order_response e s slot (body_text b);
                Some ((cb_keep e1 s1 (Some slot))\<lparr>cb_fill := f, cb_draining := True\<rparr>) }
      else Some ((cb_keep (set_slot e slot ((ex_pending e ! slot)\<lparr>p_active := False\<rparr>))
                   (s\<lparr>orders_rejected := orders_rejected s + 1\<rparr>) (Some slot))\<lparr>cb_draining := True\<rparr>))"
| "order_cb e s (Some slot) EvError =
     Some (cb_keep (set_slot e slot ((ex_pending e ! slot)\<lparr>p_active := False\<rparr>))
             (s\<lparr>errors := errors s + 1\<rparr>) (Some slot))"
| "order_cb e s (Some slot) EvClose = Some (cb_keep e s None)"
| "order_cb e s (Some slot) EvOther = Some (cb_keep e s (Some slot))"

definition query_response :: "fmma_exec \<Rightarrow> fmma_stats \<Rightarrow> nat \<Rightarrow> string \<Rightarrow> (fmma_exec \<times> fmma_stats \<times> fill option) option" where
  "query_response e s slot body =
     (let p = ex_pending e ! slot; (rc, st) = copy_field body ''status'' 32
      in if rc = 0 \<and> status_is_terminal st
         then do {
           price \<leftarrow> fill_price body (p_mark p);
           let (rq, fq) = copy_field body ''filled_qty'' 32;
           let qty = (if rq = 0 \<and> c_at fq 0 \<noteq> CHR 0x00 \<and> c_at fq 0 = CHR ''0'' \<and> c_at fq 1 = CHR 0x00
                      then 0 else 1);
           Some (if qty \<noteq> 0 then settle e s slot st price qty
                 else (set_slot e slot (p\<lparr>p_active := False\<rparr>), s\<lparr>orders_rejected := orders_rejected s + 1\<rparr>, None)) }
         else Some (e, s, None))"

definition clear_query :: "fmma_exec \<Rightarrow> nat \<Rightarrow> fmma_exec" where
  "clear_query e slot = set_slot e slot ((ex_pending e ! slot)\<lparr>p_query_in_flight := False\<rparr>)"

fun query_cb :: "fmma_exec \<Rightarrow> fmma_stats \<Rightarrow> nat option \<Rightarrow> http_event \<Rightarrow> cb_result option" where
  "query_cb e s None ev = Some (cb_keep e s None)"
| "query_cb e s (Some slot) EvConnect = Some ((cb_keep e s (Some slot))\<lparr>cb_tls := True\<rparr>)"
| "query_cb e s (Some slot) (EvHttp status b) =
     do { (e1, s1, f) \<leftarrow> query_response e s slot (body_text b);
          Some ((cb_keep (clear_query e1 slot) s1 (Some slot))\<lparr>cb_fill := f, cb_draining := True\<rparr>) }"
| "query_cb e s (Some slot) EvError = Some (cb_keep (clear_query e slot) (s\<lparr>errors := errors s + 1\<rparr>) (Some slot))"
| "query_cb e s (Some slot) EvClose = Some (cb_keep (clear_query e slot) s None)"
| "query_cb e s (Some slot) EvOther = Some (cb_keep e s (Some slot))"

section \<open>Sending and polling\<close>

definition fmma_exec_have_credentials :: "fmma_exec option \<Rightarrow> bool" where
  "fmma_exec_have_credentials eo =
     (case eo of None \<Rightarrow> False
      | Some e \<Rightarrow> (case (ex_key e, ex_secret e) of (Some k, Some c) \<Rightarrow> k \<noteq> [] \<and> c \<noteq> [] | _ \<Rightarrow> False))"

text \<open>The environment variables are arguments; the warning about missing ones is a log line.\<close>

definition fmma_exec_create :: "bool \<Rightarrow> bool \<Rightarrow> string option \<Rightarrow> string option \<Rightarrow> fmma_exec option" where
  "fmma_exec_create calloc_ok on_fill key secret =
     (if \<not> calloc_ok then None
      else Some \<lparr>ex_on_fill = on_fill, ex_key = key, ex_secret = secret,
                 ex_pending = replicate MAX_PENDING pending_zero, ex_last_order_ms = 0\<rparr>)"

definition fmma_exec_pending :: "fmma_exec \<Rightarrow> nat" where
  "fmma_exec_pending e = length (filter p_active (ex_pending e))"

abbreviation dq :: char where "dq \<equiv> CHR 0x22"

definition order_body :: "fmma_config \<Rightarrow> string \<Rightarrow> string" where
  "order_body cfg side_str =
     ''{'' @ [dq] @ ''symbol'' @ [dq] @ '':'' @ [dq] @ cfg_symbol cfg @ [dq] @ '','' @
     [dq] @ ''qty'' @ [dq] @ '':'' @ [dq] @ cfg_qty cfg @ [dq] @ '','' @
     [dq] @ ''side'' @ [dq] @ '':'' @ [dq] @ side_str @ [dq] @ '','' @
     [dq] @ ''type'' @ [dq] @ '':'' @ [dq] @ ''market'' @ [dq] @ '','' @
     [dq] @ ''time_in_force'' @ [dq] @ '':'' @ [dq] @ ''gtc'' @ [dq] @ ''}''"

definition order_request :: "fmma_exec \<Rightarrow> fmma_config \<Rightarrow> string \<Rightarrow> string" where
  "order_request e cfg side_str =
     ''POST /v2/orders HTTP/1.1'' @ crlf @ ''Host: '' @ ALPACA_HOST @ crlf @
     ''Content-Type: application/json'' @ crlf @
     ''Content-Length: '' @ dec_digits (length (order_body cfg side_str)) @ crlf @
     auth_headers e 512 @ ''Connection: close'' @ crlf @ crlf @ snprintf_store 256 (order_body cfg side_str)"

record send_result =
  sr_exec :: fmma_exec
  sr_stats :: fmma_stats
  sr_rc :: int
  sr_request :: "(nat \<times> string) option"

definition fmma_exec_send ::
    "fmma_exec \<Rightarrow> fmma_stats \<Rightarrow> fmma_config \<Rightarrow> u32 \<Rightarrow> int \<Rightarrow> u64 \<Rightarrow> u64 \<Rightarrow> bool \<Rightarrow> bool \<Rightarrow> send_result" where
  "fmma_exec_send e s cfg side mark now_ms now_us calloc_ok connect_ok =
     (let side_str = (if side = FMMA_SIGNAL_BUY then ''buy'' else ''sell'')
      in if now_ms - ex_last_order_ms e < ucast (cfg_cooldown_ms cfg)
         then \<lparr>sr_exec = e, sr_stats = s\<lparr>cooldown_drops := cooldown_drops s + 1\<rparr>, sr_rc = - 1, sr_request = None\<rparr>
         else if cfg_dry_run cfg
         then \<lparr>sr_exec = e\<lparr>ex_last_order_ms := now_ms\<rparr>, sr_stats = s, sr_rc = - 1, sr_request = None\<rparr>
         else if \<not> fmma_exec_have_credentials (Some e)
         then \<lparr>sr_exec = e, sr_stats = s\<lparr>orders_rejected := orders_rejected s + 1\<rparr>, sr_rc = - 1, sr_request = None\<rparr>
         else (case slot_alloc e of
             None \<Rightarrow> \<lparr>sr_exec = e, sr_stats = s, sr_rc = - 1, sr_request = None\<rparr>
           | Some (e1, slot) \<Rightarrow>
               let p = (ex_pending e1 ! slot)\<lparr>p_side := side, p_mark := mark, p_sent_us := now_us, p_last_poll_us := now_us\<rparr>;
                   e2 = set_slot e1 slot p;
                   dropped = set_slot e2 slot (p\<lparr>p_active := False\<rparr>)
               in if \<not> calloc_ok then \<lparr>sr_exec = dropped, sr_stats = s, sr_rc = - 1, sr_request = None\<rparr>
                  else if \<not> connect_ok
                  then \<lparr>sr_exec = dropped, sr_stats = s\<lparr>errors := errors s + 1\<rparr>, sr_rc = - 1, sr_request = None\<rparr>
                  else \<lparr>sr_exec = e2\<lparr>ex_last_order_ms := now_ms\<rparr>,
                        sr_stats = s\<lparr>orders_sent := orders_sent s + 1\<rparr>, sr_rc = 0,
                        sr_request = Some (slot, order_request e2 cfg side_str)\<rparr>))"

definition query_request :: "fmma_exec \<Rightarrow> string \<Rightarrow> string" where
  "query_request e oid =
     ''GET /v2/orders/'' @ oid @ '' HTTP/1.1'' @ crlf @ ''Host: '' @ ALPACA_HOST @ crlf @
     auth_headers e 512 @ ''Connection: close'' @ crlf @ crlf"

text \<open>
  One slot of the poll loop, with its own answers from \<open>calloc\<close> and \<open>mg_http_connect\<close>. The third
  component is the status query it sends, if any.
\<close>

definition poll_slot ::
    "fmma_exec \<Rightarrow> u64 \<Rightarrow> u64 \<Rightarrow> bool \<Rightarrow> bool \<Rightarrow> fmma_stats \<Rightarrow> pending \<Rightarrow> pending \<times> fmma_stats \<times> string option" where
  "poll_slot e now period calloc_ok connect_ok s p =
     (if \<not> p_active p \<or> p_query_in_flight p \<or> c_at (p_id p) 0 = CHR 0x00 then (p, s, None)
      else if now - p_last_poll_us p < period then (p, s, None)
      else
        let p1 = p\<lparr>p_last_poll_us := now\<rparr>
        in if now - p_sent_us p1 > 60000000
           then (p1\<lparr>p_active := False\<rparr>, s\<lparr>orders_rejected := orders_rejected s + 1\<rparr>, None)
           else if \<not> calloc_ok then (p1, s, None)
           else if \<not> connect_ok then (p1, s, None)
           else (p1\<lparr>p_query_in_flight := True\<rparr>, s, Some (query_request e (p_id p1))))"

fun poll_slots ::
    "fmma_exec \<Rightarrow> u64 \<Rightarrow> u64 \<Rightarrow> (nat \<Rightarrow> bool) \<Rightarrow> (nat \<Rightarrow> bool) \<Rightarrow> nat \<Rightarrow> pending list \<Rightarrow> fmma_stats \<Rightarrow>
     pending list \<times> fmma_stats \<times> (nat \<times> string) list" where
  "poll_slots e now period ca co i [] s = ([], s, [])"
| "poll_slots e now period ca co i (p # ps) s =
     (case poll_slot e now period (ca i) (co i) s p of (p1, s1, q) \<Rightarrow>
      case poll_slots e now period ca co (i + 1) ps s1 of (ps2, s2, qs) \<Rightarrow>
        (p1 # ps2, s2, (case q of None \<Rightarrow> [] | Some t \<Rightarrow> [(i, t)]) @ qs))"

definition fmma_exec_poll ::
    "fmma_exec \<Rightarrow> fmma_stats \<Rightarrow> fmma_config \<Rightarrow> u64 \<Rightarrow> (nat \<Rightarrow> bool) \<Rightarrow> (nat \<Rightarrow> bool) \<Rightarrow>
     fmma_exec \<times> fmma_stats \<times> (nat \<times> string) list" where
  "fmma_exec_poll e s cfg now ca co =
     (case poll_slots e now (ucast (cfg_order_poll_ms cfg) * 1000) ca co 0 (ex_pending e) s of (ps, s1, qs) \<Rightarrow>
        (e\<lparr>ex_pending := ps\<rparr>, s1, qs))"

section \<open>The handlers return\<close>

lemma fill_price_total:
  obtains v where "fill_price body mark = Some v"
proof -
  obtain rc fp where c: "copy_field body ''filled_avg_price'' 32 = (rc, fp)" by fastforce
  obtain v where "fmma_parse_scaled (Some fp) 100 = Some v"
    by (rule parse_scaled_cases [of 2 "Some fp"]) auto
  then have "fill_price body mark = Some (if rc = 0 \<and> c_at fp 0 \<noteq> CHR 0x00 \<and> v \<noteq> FMMA_PARSE_ERROR then v else mark)"
    by (auto simp: fill_price_def c)
  then show ?thesis by (rule that)
qed

text \<open>What a response does, the parsing aside.\<close>

lemma order_response_cases:
  obtains (working) oid where
      "order_response e s slot body = Some (set_slot e slot ((ex_pending e ! slot)\<lparr>p_id := oid\<rparr>), s, None)"
  | (final) oid st price where
      "st = snd (copy_field body ''status'' 32)" "status_is_terminal st"
      "order_response e s slot body =
        Some (settle (set_slot e slot ((ex_pending e ! slot)\<lparr>p_id := oid\<rparr>)) s slot st price 1)"
proof -
  obtain rc oid where c: "copy_field body ''id'' ORDER_ID_LEN = (rc, oid)" by fastforce
  obtain v where "fill_price body (p_mark (ex_pending e ! slot)) = Some v" by (rule fill_price_total)
  then show ?thesis using that
    by (cases "status_is_terminal (snd (copy_field body ''status'' 32))") (auto simp: order_response_def c Let_def)
qed

lemma query_response_cases:
  obtains (working) "query_response e s slot body = Some (e, s, None)"
  | (final) st price where
      "copy_field body ''status'' 32 = (0, st)" "status_is_terminal st"
      "query_response e s slot body = Some (settle e s slot st price 1)"
  | (nothing) "query_response e s slot body =
      Some (set_slot e slot ((ex_pending e ! slot)\<lparr>p_active := False\<rparr>),
            s\<lparr>orders_rejected := orders_rejected s + 1\<rparr>, None)"
proof -
  obtain rc st where c: "copy_field body ''status'' 32 = (rc, st)" by fastforce
  obtain rq fq where q: "copy_field body ''filled_qty'' 32 = (rq, fq)" by fastforce
  obtain v where v: "fill_price body (p_mark (ex_pending e ! slot)) = Some v" by (rule fill_price_total)
  show ?thesis
  proof (cases "rc = 0 \<and> status_is_terminal st")
    case True
    then show ?thesis
      using that(2) [of st v] that(3)
      by (cases "rq = 0 \<and> c_at fq 0 \<noteq> CHR 0x00 \<and> c_at fq 0 = CHR ''0'' \<and> c_at fq 1 = CHR 0x00")
        (auto simp: query_response_def c q v Let_def)
  next
    case False
    then show ?thesis using that(1) by (auto simp: query_response_def c Let_def)
  qed
qed

lemma order_cb_total: obtains r where "order_cb e s ctx ev = Some r"
proof (cases "\<exists>slot status b. ctx = Some slot \<and> ev = EvHttp status b")
  case True
  then obtain slot status b where x: "ctx = Some slot" "ev = EvHttp status b" by blast
  obtain e1 s1 f where "order_response e s slot (body_text b) = Some (e1, s1, f)"
    by (rule order_response_cases [of e s slot "body_text b"]) (auto, metis prod_cases3)
  then show ?thesis using that by (cases "200 \<le> status \<and> status < 300") (auto simp: x)
next
  case False
  then show ?thesis using that by (cases ctx; cases ev; auto)
qed

lemma query_cb_total: obtains r where "query_cb e s ctx ev = Some r"
proof (cases "\<exists>slot status b. ctx = Some slot \<and> ev = EvHttp status b")
  case True
  then obtain slot status b where x: "ctx = Some slot" "ev = EvHttp status b" by blast
  obtain e1 s1 f where "query_response e s slot (body_text b) = Some (e1, s1, f)"
    by (rule query_response_cases [of e s slot "body_text b"]) (auto, metis prod_cases3)
  then show ?thesis using that by (auto simp: x)
next
  case False
  then show ?thesis using that by (cases ctx; cases ev; auto)
qed

section \<open>The slot table\<close>

definition exec_ok :: "fmma_exec \<Rightarrow> bool" where
  "exec_ok e \<longleftrightarrow> length (ex_pending e) = MAX_PENDING"

lemma set_slot_simps [simp]:
  "ex_pending (set_slot e i p) = (ex_pending e)[i := p]"
  "ex_last_order_ms (set_slot e i p) = ex_last_order_ms e"
  "ex_on_fill (set_slot e i p) = ex_on_fill e"
  "ex_key (set_slot e i p) = ex_key e" "ex_secret (set_slot e i p) = ex_secret e"
  by (simp_all add: set_slot_def)

lemma alloc_from_Some:
  "alloc_from ps i = Some j \<Longrightarrow> i \<le> j \<and> j < i + length ps \<and> \<not> p_active (ps ! (j - i))"
proof (induction ps i rule: alloc_from.induct)
  case (2 p ps i)
  show ?case
  proof (cases "p_active p")
    case True
    then have "Suc i \<le> j \<and> j < Suc i + length ps \<and> \<not> p_active (ps ! (j - Suc i))" using 2 by simp
    moreover have "j - i = Suc (j - Suc i)" if "Suc i \<le> j" using that by simp
    ultimately show ?thesis by auto
  qed (use 2 in simp)
qed simp

lemma alloc_from_None: "alloc_from ps i = None \<longleftrightarrow> list_all p_active ps"
  by (induction ps i rule: alloc_from.induct) auto

lemma active_count_update:
  assumes "i < length ps"
  shows "length (filter p_active (ps[i := p])) + (if p_active (ps ! i) then 1 else 0) =
    length (filter p_active ps) + (if p_active p then 1 else 0)"
  using assms
proof (induction ps arbitrary: i)
  case (Cons x xs)
  then show ?case by (cases i) auto
qed simp

lemma settle_spec:
  assumes "slot < length (ex_pending e)" "settle e s slot st price qty = (e', s', f)"
  shows "length (ex_pending e') = length (ex_pending e)" "ex_last_order_ms e' = ex_last_order_ms e"
    "(if f = None then 0 else 1) + fmma_exec_pending e' \<le> fmma_exec_pending e"
    "f = Some x \<Longrightarrow> status_is_filled st \<and> p_active (ex_pending e ! slot) \<and>
       x = (if p_side (ex_pending e ! slot) = FMMA_SIGNAL_BUY then FMMA_FILL_BOUGHT else FMMA_FILL_SOLD, qty, price) \<and>
       \<not> p_active (ex_pending e' ! slot)"
  using assms active_count_update [OF assms(1), of "(ex_pending e ! slot)\<lparr>p_active := False\<rparr>"]
  by (auto simp: settle_def Let_def fmma_exec_pending_def split: if_splits)

lemma set_id_spec [simp]:
  "fmma_exec_pending (set_slot e slot ((ex_pending e ! slot)\<lparr>p_id := oid\<rparr>)) = fmma_exec_pending e"
  "fmma_exec_pending (set_slot e slot ((ex_pending e ! slot)\<lparr>p_query_in_flight := q\<rparr>)) = fmma_exec_pending e"
  using active_count_update [of slot "ex_pending e" "(ex_pending e ! slot)\<lparr>p_id := oid\<rparr>"]
    active_count_update [of slot "ex_pending e" "(ex_pending e ! slot)\<lparr>p_query_in_flight := q\<rparr>"]
  by (cases "slot < length (ex_pending e)"; auto simp: fmma_exec_pending_def list_update_beyond not_less
      split: if_splits)+

lemma clear_query_simps [simp]:
  "fmma_exec_pending (clear_query e slot) = fmma_exec_pending e"
  "length (ex_pending (clear_query e slot)) = length (ex_pending e)"
  "ex_last_order_ms (clear_query e slot) = ex_last_order_ms e"
  by (simp_all add: clear_query_def)

lemma drop_slot_spec:
  "fmma_exec_pending (set_slot e slot ((ex_pending e ! slot)\<lparr>p_active := False\<rparr>)) \<le> fmma_exec_pending e"
  using active_count_update [of slot "ex_pending e" "(ex_pending e ! slot)\<lparr>p_active := False\<rparr>"]
  by (cases "slot < length (ex_pending e)"; auto simp: fmma_exec_pending_def list_update_beyond not_less
      split: if_splits)

text \<open>
  Any sequence of things that can happen to the module: the strategy asks for an order, an event
  arrives on an order or a query connection, the event loop polls.
\<close>

datatype exec_op =
    Send u32 int u64 u64 bool bool
  | OrderEv "nat option" http_event
  | QueryEv "nat option" http_event
  | PollOrders u64 "nat \<Rightarrow> bool" "nat \<Rightarrow> bool"

fun op_ok :: "exec_op \<Rightarrow> bool" where
  "op_ok (OrderEv (Some slot) ev) = (slot < MAX_PENDING)"
| "op_ok (QueryEv (Some slot) ev) = (slot < MAX_PENDING)"
| "op_ok _ = True"

text \<open>The result of an operation: the state, the fills reported and the times of orders sent.\<close>

fun exec_op_run ::
    "fmma_config \<Rightarrow> exec_op \<Rightarrow> fmma_exec \<times> fmma_stats \<Rightarrow> ((fmma_exec \<times> fmma_stats) \<times> fill list \<times> u64 list) option" where
  "exec_op_run cfg (Send side mark now_ms now_us ca co) (e, s) =
     (let r = fmma_exec_send e s cfg side mark now_ms now_us ca co
      in Some ((sr_exec r, sr_stats r), [], if sr_rc r = 0 then [now_ms] else []))"
| "exec_op_run cfg (OrderEv ctx ev) (e, s) =
     do { r \<leftarrow> order_cb e s ctx ev;
          Some ((cb_exec r, cb_stats r), case cb_fill r of None \<Rightarrow> [] | Some f \<Rightarrow> [f], []) }"
| "exec_op_run cfg (QueryEv ctx ev) (e, s) =
     do { r \<leftarrow> query_cb e s ctx ev;
          Some ((cb_exec r, cb_stats r), case cb_fill r of None \<Rightarrow> [] | Some f \<Rightarrow> [f], []) }"
| "exec_op_run cfg (PollOrders now ca co) (e, s) =
     (case fmma_exec_poll e s cfg now ca co of (e1, s1, qs) \<Rightarrow> Some ((e1, s1), [], []))"

fun exec_run ::
    "fmma_config \<Rightarrow> exec_op list \<Rightarrow> fmma_exec \<times> fmma_stats \<Rightarrow> ((fmma_exec \<times> fmma_stats) \<times> fill list \<times> u64 list) option" where
  "exec_run cfg [] es = Some (es, [], [])"
| "exec_run cfg (x # xs) es =
     do { (es1, fs1, ts1) \<leftarrow> exec_op_run cfg x es;
          (es2, fs2, ts2) \<leftarrow> exec_run cfg xs es1;
          Some (es2, fs1 @ fs2, ts1 @ ts2) }"

lemma send_alloc:
  assumes "slot_alloc e = Some (e1, i)"
  shows "i < length (ex_pending e)" "\<not> p_active (ex_pending e ! i)"
    "e1 = set_slot e i (pending_zero\<lparr>p_active := True\<rparr>)"
  using assms alloc_from_Some [of "ex_pending e" 0 i] by (auto simp: slot_alloc_def split: option.splits)

lemma send_cases:
  obtains (refused) "sr_exec (fmma_exec_send e s cfg side mark now_ms now_us ca co) = e"
      "sr_rc (fmma_exec_send e s cfg side mark now_ms now_us ca co) = - 1"
  | (dry) "sr_exec (fmma_exec_send e s cfg side mark now_ms now_us ca co) = e\<lparr>ex_last_order_ms := now_ms\<rparr>"
      "sr_rc (fmma_exec_send e s cfg side mark now_ms now_us ca co) = - 1" "cfg_dry_run cfg"
  | (dropped) i p where "i < length (ex_pending e)" "\<not> p_active (ex_pending e ! i)" "\<not> p_active p"
      "sr_exec (fmma_exec_send e s cfg side mark now_ms now_us ca co) = set_slot e i p"
      "sr_rc (fmma_exec_send e s cfg side mark now_ms now_us ca co) = - 1"
  | (sent) i where "i < length (ex_pending e)" "\<not> p_active (ex_pending e ! i)"
      "sr_exec (fmma_exec_send e s cfg side mark now_ms now_us ca co) =
        (set_slot e i \<lparr>p_active = True, p_id = [], p_side = side, p_mark = mark, p_sent_us = now_us,
           p_last_poll_us = now_us, p_query_in_flight = False\<rparr>)\<lparr>ex_last_order_ms := now_ms\<rparr>"
      "sr_rc (fmma_exec_send e s cfg side mark now_ms now_us ca co) = 0"
      "\<not> now_ms - ex_last_order_ms e < ucast (cfg_cooldown_ms cfg)" "\<not> cfg_dry_run cfg"
      "fmma_exec_have_credentials (Some e)"
proof -
  let ?r = "fmma_exec_send e s cfg side mark now_ms now_us ca co"
  consider (a) "now_ms - ex_last_order_ms e < ucast (cfg_cooldown_ms cfg) \<or>
      (\<not> cfg_dry_run cfg \<and> \<not> fmma_exec_have_credentials (Some e)) \<or>
      (\<not> cfg_dry_run cfg \<and> slot_alloc e = None)"
    | (b) "\<not> now_ms - ex_last_order_ms e < ucast (cfg_cooldown_ms cfg)" "cfg_dry_run cfg"
    | (c) e1 i where "\<not> now_ms - ex_last_order_ms e < ucast (cfg_cooldown_ms cfg)" "\<not> cfg_dry_run cfg"
        "fmma_exec_have_credentials (Some e)" "slot_alloc e = Some (e1, i)"
    by (cases "slot_alloc e") auto
  then show ?thesis
  proof cases
    case a
    then have "sr_exec ?r = e \<and> sr_rc ?r = - 1 \<or> sr_exec ?r = e\<lparr>ex_last_order_ms := now_ms\<rparr> \<and> sr_rc ?r = - 1 \<and> cfg_dry_run cfg"
      by (auto simp: fmma_exec_send_def Let_def)
    then show ?thesis using that(1,2) by blast
  next
    case b
    then show ?thesis using that(2) by (simp add: fmma_exec_send_def Let_def)
  next
    case c
    note al = send_alloc [OF c(4)]
    have up: "set_slot (set_slot e i x) i y = set_slot e i y" for x y by (simp add: set_slot_def)
    show ?thesis
    proof (cases "ca \<and> co")
      case True
      then show ?thesis using that(4) [of i] c(1-3) al
        by (simp add: fmma_exec_send_def c(4) Let_def up pending_zero_def)
    next
      case False
      then show ?thesis
        using that(3) [of i "\<lparr>p_active = False, p_id = [], p_side = side, p_mark = mark, p_sent_us = now_us,
            p_last_poll_us = now_us, p_query_in_flight = False\<rparr>"] c(1-3) al
        by (cases ca) (simp_all add: fmma_exec_send_def c(4) Let_def up pending_zero_def)
    qed
  qed
qed

lemma pending_fill_slot:
  assumes "i < length (ex_pending e)" "\<not> p_active (ex_pending e ! i)"
  shows "fmma_exec_pending (set_slot e i p) = fmma_exec_pending e + (if p_active p then 1 else 0)"
  using assms active_count_update [of i "ex_pending e" p] by (simp add: fmma_exec_pending_def)

lemma pending_last_order [simp]:
  "fmma_exec_pending (e\<lparr>ex_last_order_ms := t\<rparr>) = fmma_exec_pending e"
  by (simp add: fmma_exec_pending_def)

lemma poll_slot_spec:
  "poll_slot e now period ca co s p = (p1, s1, q) \<Longrightarrow> (p_active p1 \<longrightarrow> p_active p)"
  by (auto simp: poll_slot_def Let_def split: if_splits)

lemma poll_slots_spec:
  "poll_slots e now period ca co i ps s = (ps1, s1, qs) \<Longrightarrow>
     length ps1 = length ps \<and> length (filter p_active ps1) \<le> length (filter p_active ps)"
proof (induction e now period ca co i ps s arbitrary: ps1 s1 qs rule: poll_slots.induct)
  case (2 e now period ca co i p ps s)
  obtain p1 s' q where p: "poll_slot e now period (ca i) (co i) s p = (p1, s', q)" by (metis prod_cases3)
  obtain ps2 s2 qs2 where r: "poll_slots e now period ca co (Suc i) ps s' = (ps2, s2, qs2)" by (metis prod_cases3)
  then have "length ps2 = length ps \<and> length (filter p_active ps2) \<le> length (filter p_active ps)"
    using "2.IH" [OF p [symmetric]] by simp
  moreover have "ps1 = p1 # ps2" using "2.prems" by (simp add: p r)
  ultimately show ?case using poll_slot_spec [OF p] by auto
qed simp

lemma poll_spec:
  assumes "fmma_exec_poll e s cfg now ca co = (e1, s1, qs)"
  shows "length (ex_pending e1) = length (ex_pending e)" "fmma_exec_pending e1 \<le> fmma_exec_pending e"
    "ex_last_order_ms e1 = ex_last_order_ms e"
  using assms
  by (auto simp: fmma_exec_poll_def fmma_exec_pending_def split: prod.splits dest: poll_slots_spec)

text \<open>
  The effect of one operation: the table keeps its size, every fill reported closes a slot, every
  slot opened is an order sent, and the cooldown clock only moves to the time of a request.
\<close>

lemma order_cb_spec:
  assumes "slot < length (ex_pending e)" "order_cb e s (Some slot) ev = Some r"
  shows "length (ex_pending (cb_exec r)) = length (ex_pending e)"
    "ex_last_order_ms (cb_exec r) = ex_last_order_ms e"
    "(if cb_fill r = None then 0 else 1) + fmma_exec_pending (cb_exec r) \<le> fmma_exec_pending e"
proof -
  have "length (ex_pending (cb_exec r)) = length (ex_pending e) \<and>
    ex_last_order_ms (cb_exec r) = ex_last_order_ms e \<and>
    (if cb_fill r = None then 0 else 1) + fmma_exec_pending (cb_exec r) \<le> fmma_exec_pending e"
  proof (cases ev)
    case (EvHttp status b)
    show ?thesis
    proof (cases "200 \<le> status \<and> status < 300")
      case True
      show ?thesis
      proof (cases rule: order_response_cases [of e s slot "body_text b"])
        case (working oid)
        then show ?thesis using assms(2) True by (auto simp: EvHttp cb_keep_def)
      next
        case (final oid st price)
        obtain e1 s1 f where st: "settle (set_slot e slot ((ex_pending e ! slot)\<lparr>p_id := oid\<rparr>)) s slot st price 1 = (e1, s1, f)"
          by (metis prod_cases3)
        have r: "cb_exec r = e1" "cb_fill r = f"
          using final(3) assms(2) True by (auto simp: EvHttp cb_keep_def st)
        show ?thesis unfolding r using settle_spec(1-3) [OF _ st] assms(1) by auto
      qed
    next
      case False
      then show ?thesis using assms drop_slot_spec [of e slot] by (auto simp: EvHttp cb_keep_def)
    qed
  qed (use assms drop_slot_spec [of e slot] in \<open>auto simp: cb_keep_def\<close>)
  then show "length (ex_pending (cb_exec r)) = length (ex_pending e)"
    "ex_last_order_ms (cb_exec r) = ex_last_order_ms e"
    "(if cb_fill r = None then 0 else 1) + fmma_exec_pending (cb_exec r) \<le> fmma_exec_pending e"
    by blast+
qed

lemma query_cb_spec:
  assumes "slot < length (ex_pending e)" "query_cb e s (Some slot) ev = Some r"
  shows "length (ex_pending (cb_exec r)) = length (ex_pending e)"
    "ex_last_order_ms (cb_exec r) = ex_last_order_ms e"
    "(if cb_fill r = None then 0 else 1) + fmma_exec_pending (cb_exec r) \<le> fmma_exec_pending e"
proof -
  have "length (ex_pending (cb_exec r)) = length (ex_pending e) \<and>
    ex_last_order_ms (cb_exec r) = ex_last_order_ms e \<and>
    (if cb_fill r = None then 0 else 1) + fmma_exec_pending (cb_exec r) \<le> fmma_exec_pending e"
  proof (cases ev)
    case (EvHttp status b)
    show ?thesis
    proof (cases rule: query_response_cases [of e s slot "body_text b"])
      case working
      then show ?thesis using assms(2) by (auto simp: EvHttp cb_keep_def)
    next
      case (final st price)
      obtain e1 s1 f where st: "settle e s slot st price 1 = (e1, s1, f)" by (metis prod_cases3)
      have r: "cb_exec r = clear_query e1 slot" "cb_fill r = f"
        using final(3) assms(2) by (auto simp: EvHttp cb_keep_def st)
      show ?thesis unfolding r using settle_spec(1-3) [OF assms(1) st] by simp
    next
      case nothing
      then show ?thesis using assms(2) drop_slot_spec [of e slot]
        by (auto simp: EvHttp cb_keep_def)
    qed
  qed (use assms in \<open>auto simp: cb_keep_def\<close>)
  then show "length (ex_pending (cb_exec r)) = length (ex_pending e)"
    "ex_last_order_ms (cb_exec r) = ex_last_order_ms e"
    "(if cb_fill r = None then 0 else 1) + fmma_exec_pending (cb_exec r) \<le> fmma_exec_pending e"
    by blast+
qed

lemma op_run_spec:
  assumes "exec_op_run cfg x (e, s) = Some ((e', s'), fs, ts)" "exec_ok e" "op_ok x"
  shows "exec_ok e' \<and> length fs + fmma_exec_pending e' \<le> length ts + fmma_exec_pending e"
proof (cases x)
  case (Send side mark now_ms now_us ca co)
  let ?r = "fmma_exec_send e s cfg side mark now_ms now_us ca co"
  have x: "e' = sr_exec ?r" "fs = []" "ts = (if sr_rc ?r = 0 then [now_ms] else [])"
    using assms(1) by (auto simp: Send Let_def)
  show ?thesis
    by (rule send_cases [of e s cfg side mark now_ms now_us ca co])
      (use assms(2) in \<open>auto simp: x exec_ok_def pending_fill_slot\<close>)
next
  case (OrderEv ctx ev)
  then obtain r where r: "order_cb e s ctx ev = Some r" "e' = cb_exec r" "ts = []"
      "fs = (case cb_fill r of None \<Rightarrow> [] | Some f \<Rightarrow> [f])"
    using assms(1) by (auto elim: bind_eq_Some_conv [THEN iffD1, elim_format])
  show ?thesis
  proof (cases ctx)
    case None
    then show ?thesis using r assms(2) by (auto simp: cb_keep_def)
  next
    case (Some slot)
    then have "slot < length (ex_pending e)" using assms(2,3) by (simp add: OrderEv exec_ok_def)
    then show ?thesis using order_cb_spec [of slot e s ev r] r assms(2) Some
      by (auto simp: exec_ok_def split: option.splits)
  qed
next
  case (QueryEv ctx ev)
  then obtain r where r: "query_cb e s ctx ev = Some r" "e' = cb_exec r" "ts = []"
      "fs = (case cb_fill r of None \<Rightarrow> [] | Some f \<Rightarrow> [f])"
    using assms(1) by (auto elim: bind_eq_Some_conv [THEN iffD1, elim_format])
  show ?thesis
  proof (cases ctx)
    case None
    then show ?thesis using r assms(2) by (auto simp: cb_keep_def)
  next
    case (Some slot)
    then have "slot < length (ex_pending e)" using assms(2,3) by (simp add: QueryEv exec_ok_def)
    then show ?thesis using query_cb_spec [of slot e s ev r] r assms(2) Some
      by (auto simp: exec_ok_def split: option.splits)
  qed
next
  case (PollOrders now ca co)
  obtain e1 s1 qs where "fmma_exec_poll e s cfg now ca co = (e1, s1, qs)" by (metis prod_cases3)
  then show ?thesis using assms poll_spec [of e s cfg now ca co e1 s1 qs] by (auto simp: PollOrders exec_ok_def)
qed

lemma op_run_total: obtains r where "exec_op_run cfg x (e, s) = Some r"
proof (cases x)
  case (OrderEv ctx ev)
  obtain r where "order_cb e s ctx ev = Some r" by (rule order_cb_total)
  then show ?thesis by (intro that) (simp add: OrderEv)
next
  case (QueryEv ctx ev)
  obtain r where "query_cb e s ctx ev = Some r" by (rule query_cb_total)
  then show ?thesis by (intro that) (simp add: QueryEv)
next
  case (PollOrders now ca co)
  obtain e1 s1 qs where "fmma_exec_poll e s cfg now ca co = (e1, s1, qs)" by (metis prod_cases3)
  then show ?thesis by (intro that) (simp add: PollOrders)
qed (use that in \<open>auto simp: Let_def\<close>)

lemma exec_run_total: obtains e' s' fs ts where "exec_run cfg xs (e, s) = Some ((e', s'), fs, ts)"
proof -
  have "\<exists>e' s' fs ts. exec_run cfg xs (e, s) = Some ((e', s'), fs, ts)" for e s
  proof (induction xs arbitrary: e s)
    case (Cons x xs)
    obtain e1 s1 fs1 ts1 where x: "exec_op_run cfg x (e, s) = Some ((e1, s1), fs1, ts1)"
      by (rule op_run_total [of cfg x e s]) (metis surj_pair)
    then show ?case using Cons.IH [of e1 s1] by auto
  qed simp
  then show ?thesis using that by blast
qed

text \<open>
  C14. No fill without an order. Over any sequence of send requests, connection events in any order
  (late, duplicated, for the wrong order, with any body) and polls, the module never gets stuck,
  its table keeps its eight slots, and the fills it reports never outnumber the orders it sent
  plus those already working: fills reported plus orders still working is at most orders sent
  plus orders working before.
\<close>

theorem exec_fills_have_orders:
  assumes "exec_ok e" "list_all op_ok xs"
  shows "\<exists>e' s' fs ts. exec_run cfg xs (e, s) = Some ((e', s'), fs, ts) \<and> exec_ok e' \<and>
    length fs + fmma_exec_pending e' \<le> length ts + fmma_exec_pending e \<and> fmma_exec_pending e' \<le> MAX_PENDING"
  using assms
proof (induction xs arbitrary: e s)
  case Nil
  then show ?case
    using length_filter_le [of p_active "ex_pending e"] by (simp add: fmma_exec_pending_def exec_ok_def)
next
  case (Cons x xs)
  obtain e1 s1 fs1 ts1 where x: "exec_op_run cfg x (e, s) = Some ((e1, s1), fs1, ts1)"
    by (rule op_run_total [of cfg x e s]) (metis surj_pair)
  have c: "exec_ok e1" "length fs1 + fmma_exec_pending e1 \<le> length ts1 + fmma_exec_pending e"
    using op_run_spec [OF x] Cons.prems by simp_all
  obtain e2 s2 fs2 ts2 where r: "exec_run cfg xs (e1, s1) = Some ((e2, s2), fs2, ts2)" "exec_ok e2"
      "length fs2 + fmma_exec_pending e2 \<le> length ts2 + fmma_exec_pending e1" "fmma_exec_pending e2 \<le> MAX_PENDING"
    using Cons.IH [OF c(1), of s1] Cons.prems by auto
  then show ?case using c(2) by (auto simp: x)
qed

definition demo_exec :: fmma_exec where
  "demo_exec = \<lparr>ex_on_fill = True, ex_key = Some ''k'', ex_secret = Some ''s'',
     ex_pending = replicate MAX_PENDING pending_zero, ex_last_order_ms = 0\<rparr>"

theorem exec_fills_have_orders_witness:
  "\<exists>e' s' fs ts. exec_run fmma_config_defaults
      [Send 1 10000 5000 5000000 True True, OrderEv (Some 0) EvError, OrderEv (Some 0) EvClose]
      (demo_exec, fmma_stats_init 0) = Some ((e', s'), fs, ts) \<and> length fs + fmma_exec_pending e' \<le> length ts + 0"
proof -
  have "exec_ok demo_exec" "fmma_exec_pending demo_exec = 0"
    by (simp_all add: exec_ok_def demo_exec_def fmma_exec_pending_def pending_zero_def)
  then show ?thesis
    using exec_fills_have_orders [of demo_exec
        "[Send 1 10000 5000 5000000 True True, OrderEv (Some 0) EvError, OrderEv (Some 0) EvClose]"
        fmma_config_defaults "fmma_stats_init 0"] by fastforce
qed

text \<open>
  A reported fill is a fill. If the response to an order or to a status query makes the module
  report a fill, then that message's own status field reads \<open>filled\<close>, the slot held a working
  order, the fill is one lot on the side of that order, and the slot is closed by it. An HTTP
  success alone, or any other terminal status, reports nothing.
\<close>

theorem exec_fill_is_filled:
  assumes "exec_ok e" "slot < MAX_PENDING"
    "order_cb e s (Some slot) ev = Some r \<or> query_cb e s (Some slot) ev = Some r" "cb_fill r = Some (side, qty, price)"
  shows "\<exists>status b. ev = EvHttp status b \<and> snd (copy_field (body_text b) ''status'' 32) = ''filled'' \<and>
    p_active (ex_pending e ! slot) \<and> qty = 1 \<and>
    side = (if p_side (ex_pending e ! slot) = FMMA_SIGNAL_BUY then FMMA_FILL_BOUGHT else FMMA_FILL_SOLD) \<and>
    \<not> p_active (ex_pending (cb_exec r) ! slot)"
proof -
  have len: "slot < length (ex_pending e)" using assms(1,2) by (simp add: exec_ok_def)
  obtain status b where ev: "ev = EvHttp status b" using assms(3,4) by (cases ev) (auto simp: cb_keep_def)
  from assms(3) show ?thesis
  proof
    assume cb: "order_cb e s (Some slot) ev = Some r"
    then have ok: "200 \<le> status \<and> status < 300" using assms(4) by (auto simp: ev cb_keep_def split: if_splits)
    show ?thesis
    proof (cases rule: order_response_cases [of e s slot "body_text b"])
      case (working oid)
      then show ?thesis using cb ok assms(4) by (auto simp: ev cb_keep_def)
    next
      case (final oid st pr)
      let ?e = "set_slot e slot ((ex_pending e ! slot)\<lparr>p_id := oid\<rparr>)"
      obtain e1 s1 f where st: "settle ?e s slot st pr 1 = (e1, s1, f)" by (metis prod_cases3)
      have r: "cb_exec r = e1" "cb_fill r = f" using final(3) cb ok by (auto simp: ev cb_keep_def st)
      have "slot < length (ex_pending ?e)" using len by simp
      from settle_spec(4) [OF this st] show ?thesis
        using assms(4) final(1) len by (auto simp: r ev status_is_filled_def)
    qed
  next
    assume cb: "query_cb e s (Some slot) ev = Some r"
    show ?thesis
    proof (cases rule: query_response_cases [of e s slot "body_text b"])
      case working
      then show ?thesis using cb assms(4) by (auto simp: ev cb_keep_def)
    next
      case (final st pr)
      obtain e1 s1 f where st: "settle e s slot st pr 1 = (e1, s1, f)" by (metis prod_cases3)
      have r: "cb_exec r = clear_query e1 slot" "cb_fill r = f" using final(3) cb by (auto simp: ev cb_keep_def st)
      have "length (ex_pending e1) = length (ex_pending e)" using settle_spec(1) [OF len st] .
      then show ?thesis
        using settle_spec(4) [OF len st] assms(4) final(1) len by (auto simp: r ev status_is_filled_def clear_query_def)
    next
      case nothing
      then show ?thesis using cb assms(4) by (auto simp: ev cb_keep_def)
    qed
  qed
qed

text \<open>A message that reports the order filled, and the module with one order working.\<close>

definition filled_body :: string where
  "filled_body = ''{'' @ [dq] @ ''status'' @ [dq] @ '':'' @ [dq] @ ''filled'' @ [dq] @ ''}''"

lemma filled_body_fields:
  "copy_field (body_text filled_body) ''status'' 32 = (0, ''filled'')"
  "copy_field (body_text filled_body) ''filled_avg_price'' 32 = (- 1, [])"
  "copy_field (body_text filled_body) ''filled_qty'' 32 = (- 1, [])"
  by code_simp+

theorem exec_fill_is_filled_witness:
  "let e = set_slot demo_exec 0 (pending_zero\<lparr>p_active := True, p_side := 1, p_mark := 500\<rparr>)
   in \<exists>r. query_cb e (fmma_stats_init 0) (Some 0) (EvHttp 200 filled_body) = Some r \<and>
        cb_fill r = Some (1, 1, 500) \<and> \<not> p_active (ex_pending (cb_exec r) ! 0)"
proof -
  let ?e = "set_slot demo_exec 0 (pending_zero\<lparr>p_active := True, p_side := 1, p_mark := 500\<rparr>)"
  obtain r where r: "query_cb ?e (fmma_stats_init 0) (Some 0) (EvHttp 200 filled_body) = Some r"
    by (rule query_cb_total)
  then have f: "cb_fill r = Some (1, 1, 500)"
    by (auto simp: query_response_def filled_body_fields fill_price_def status_is_terminal_def
        status_is_filled_def settle_def demo_exec_def cb_keep_def pending_zero_def)
  have "exec_ok ?e" by (simp add: exec_ok_def demo_exec_def)
  then show ?thesis
    using exec_fill_is_filled [of ?e 0 "fmma_stats_init 0" "EvHttp 200 filled_body" r 1 1 500] r f
    by (auto simp: Let_def)
qed

section \<open>Spacing of orders\<close>

fun mono_from :: "u64 \<Rightarrow> exec_op list \<Rightarrow> bool" where
  "mono_from t [] = True"
| "mono_from t (Send side mark now_ms now_us ca co # xs) = (t \<le> now_ms \<and> mono_from now_ms xs)"
| "mono_from t (OrderEv ctx ev # xs) = mono_from t xs"
| "mono_from t (QueryEv ctx ev # xs) = mono_from t xs"
| "mono_from t (PollOrders now ca co # xs) = mono_from t xs"

lemma mono_from_weaken: "mono_from t xs \<Longrightarrow> t' \<le> t \<Longrightarrow> mono_from t' xs"
  by (induction t xs rule: mono_from.induct) auto

lemma op_run_clock:
  assumes "exec_op_run cfg x (e, s) = Some ((e', s'), fs, ts)" "exec_ok e" "op_ok x"
    "mono_from (ex_last_order_ms e) (x # xs)"
  shows "(ts = [] \<and> (ex_last_order_ms e' = ex_last_order_ms e \<or> cfg_dry_run cfg) \<or>
          (\<exists>t. ts = [t] \<and> ex_last_order_ms e' = t \<and> \<not> cfg_dry_run cfg \<and>
             unat (ex_last_order_ms e) + unat (cfg_cooldown_ms cfg) \<le> unat t)) \<and>
         mono_from (ex_last_order_ms e') xs"
proof (cases x)
  case (Send side mark now_ms now_us ca co)
  let ?r = "fmma_exec_send e s cfg side mark now_ms now_us ca co"
  have x: "e' = sr_exec ?r" "ts = (if sr_rc ?r = 0 then [now_ms] else [])" using assms(1) by (auto simp: Send Let_def)
  have m: "ex_last_order_ms e \<le> now_ms" "mono_from now_ms xs" using assms(4) by (simp_all add: Send)
  have gap: "unat (ex_last_order_ms e) + unat (cfg_cooldown_ms cfg) \<le> unat now_ms"
    if "\<not> now_ms - ex_last_order_ms e < ucast (cfg_cooldown_ms cfg)"
    using that m(1) unat_ucast_u32_u64 [of "cfg_cooldown_ms cfg"]
    by (simp add: word_less_nat_alt word_le_nat_alt unat_sub)
  show ?thesis
    by (rule send_cases [of e s cfg side mark now_ms now_us ca co])
      (use m gap mono_from_weaken [OF m(2,1)] in \<open>auto simp: x\<close>)
next
  case (OrderEv ctx ev)
  then obtain r where r: "order_cb e s ctx ev = Some r" "e' = cb_exec r" "ts = []"
    using assms(1) by (auto elim: bind_eq_Some_conv [THEN iffD1, elim_format])
  have "ex_last_order_ms e' = ex_last_order_ms e"
    using r assms(2,3) order_cb_spec(2) [of "the ctx" e s ev r]
    by (cases ctx) (auto simp: cb_keep_def OrderEv exec_ok_def)
  then show ?thesis using assms(4) r(3) by (simp add: OrderEv)
next
  case (QueryEv ctx ev)
  then obtain r where r: "query_cb e s ctx ev = Some r" "e' = cb_exec r" "ts = []"
    using assms(1) by (auto elim: bind_eq_Some_conv [THEN iffD1, elim_format])
  have "ex_last_order_ms e' = ex_last_order_ms e"
    using r assms(2,3) query_cb_spec(2) [of "the ctx" e s ev r]
    by (cases ctx) (auto simp: cb_keep_def QueryEv exec_ok_def)
  then show ?thesis using assms(4) r(3) by (simp add: QueryEv)
next
  case (PollOrders now ca co)
  obtain e1 s1 qs where p: "fmma_exec_poll e s cfg now ca co = (e1, s1, qs)" by (metis prod_cases3)
  then show ?thesis using assms(1,4) poll_spec(3) [OF p] by (auto simp: PollOrders)
qed

text \<open>
  C23. Orders are never closer than the cooldown: over any sequence of operations whose clock does
  not run backwards, consecutive orders that really went out are at least \<open>cooldown_ms\<close> apart,
  whatever events and polls lie between; in a dry run no order goes out at all.
\<close>

theorem exec_cooldown_spacing:
  assumes "exec_run cfg xs (e, s) = Some ((e', s'), fs, ts)" "exec_ok e" "list_all op_ok xs"
    "mono_from (ex_last_order_ms e) xs"
  shows "successively (\<lambda>a b. unat a + unat (cfg_cooldown_ms cfg) \<le> unat b) (ex_last_order_ms e # ts) \<and>
    (cfg_dry_run cfg \<longrightarrow> ts = [])"
  using assms
proof (induction xs arbitrary: e s fs ts)
  case Nil
  then show ?case by simp
next
  case (Cons x xs)
  obtain e1 s1 fs1 ts1 fs2 ts2 where x: "exec_op_run cfg x (e, s) = Some ((e1, s1), fs1, ts1)"
      "exec_run cfg xs (e1, s1) = Some ((e', s'), fs2, ts2)" "ts = ts1 @ ts2"
    using Cons.prems(1) by (auto simp: bind_eq_Some_conv)
  have ok: "exec_ok e1" using op_run_spec [OF x(1) Cons.prems(2)] Cons.prems(3) by simp
  have clock: "(ts1 = [] \<and> (ex_last_order_ms e1 = ex_last_order_ms e \<or> cfg_dry_run cfg) \<or>
          (\<exists>t. ts1 = [t] \<and> ex_last_order_ms e1 = t \<and> \<not> cfg_dry_run cfg \<and>
             unat (ex_last_order_ms e) + unat (cfg_cooldown_ms cfg) \<le> unat t))"
    "mono_from (ex_last_order_ms e1) xs"
    using op_run_clock [OF x(1) Cons.prems(2) _ Cons.prems(4)] Cons.prems(3) by simp_all
  have IH: "successively (\<lambda>a b. unat a + unat (cfg_cooldown_ms cfg) \<le> unat b) (ex_last_order_ms e1 # ts2)"
    "cfg_dry_run cfg \<longrightarrow> ts2 = []"
    using Cons.IH [OF x(2) ok _ clock(2)] Cons.prems(3) by simp_all
  then show ?case using clock(1) by (auto simp: x(3))
qed

theorem exec_cooldown_spacing_witness:
  "\<exists>e' s' fs ts. exec_run fmma_config_defaults
      [Send 1 10000 5000 5000000 True True, Send 1 10000 5400 5400000 True True, Send 2 10000 6100 6100000 True True]
      (demo_exec, fmma_stats_init 0) = Some ((e', s'), fs, ts) \<and>
    successively (\<lambda>a b. unat a + 1000 \<le> unat b) (0 # ts)"
proof -
  let ?xs = "[Send 1 10000 5000 5000000 True True, Send 1 10000 5400 5400000 True True,
    Send 2 10000 6100 6100000 True True]"
  have ok: "exec_ok demo_exec" "ex_last_order_ms demo_exec = 0" by (simp_all add: exec_ok_def demo_exec_def)
  obtain e' s' fs ts where r: "exec_run fmma_config_defaults ?xs (demo_exec, fmma_stats_init 0) = Some ((e', s'), fs, ts)"
    by (auto simp: Let_def)
  then show ?thesis using exec_cooldown_spacing [OF r ok(1)] ok(2) by (auto simp: fmma_config_defaults_def)
qed

section \<open>Following an order to the end\<close>

text \<open>
  An order that never reaches a terminal state is given up: a poll more than 60 seconds after
  it was sent, at which its poll interval has passed and no query is in flight, closes the slot of
  an order that has an id and counts it as rejected; before that the poll keeps it and, when the
  library provides a connection, asks for its status exactly once.
\<close>

theorem poll_gives_up:
  assumes "p_active p" "\<not> p_query_in_flight p" "c_at (p_id p) 0 \<noteq> CHR 0x00" "\<not> now - p_last_poll_us p < period"
  shows "(now - p_sent_us p > 60000000 \<longrightarrow>
      poll_slot e now period ca co s p =
        (p\<lparr>p_last_poll_us := now, p_active := False\<rparr>, s\<lparr>orders_rejected := orders_rejected s + 1\<rparr>, None)) \<and>
    (\<not> now - p_sent_us p > 60000000 \<longrightarrow>
      poll_slot e now period ca co s p =
        (p\<lparr>p_last_poll_us := now, p_query_in_flight := ca \<and> co\<rparr>, s,
         if ca \<and> co then Some (query_request e (p_id p)) else None))"
  using assms by (auto simp: poll_slot_def Let_def)

theorem poll_gives_up_witness:
  "let p = \<lparr>p_active = True, p_id = ''abc'', p_side = 1, p_mark = 5, p_sent_us = 0, p_last_poll_us = 0,
            p_query_in_flight = False\<rparr>
   in \<not> p_active (fst (poll_slot demo_exec 60000001 500000 True True (fmma_stats_init 0) p))"
  using poll_gives_up [of "\<lparr>p_active = True, p_id = ''abc'', p_side = 1, p_mark = 5, p_sent_us = 0,
      p_last_poll_us = 0, p_query_in_flight = False\<rparr>" 60000001 500000 demo_exec True True "fmma_stats_init 0"]
  by (simp add: c_at_def)

text \<open>
  An order whose connection closed before a response: working, but with no id. The operations that
  remain possible once the connections are gone: requests, polls, and events without a context.
\<close>

definition stuck :: "pending \<Rightarrow> bool" where
  "stuck p \<longleftrightarrow> p_active p \<and> p_id p = []"

fun quiet :: "exec_op \<Rightarrow> bool" where
  "quiet (OrderEv ctx ev) = (ctx = None)"
| "quiet (QueryEv ctx ev) = (ctx = None)"
| "quiet _ = True"

lemma poll_slots_stuck:
  "list_all stuck ps \<Longrightarrow> poll_slots e now period ca co i ps s = (ps, s, [])"
  by (induction ps arbitrary: i) (auto simp: poll_slot_def stuck_def c_at_def)

lemma quiet_op_stuck:
  assumes "quiet x" "list_all stuck (ex_pending e)" "exec_op_run cfg x (e, s) = Some ((e', s'), fs, ts)"
  shows "ex_pending e' = ex_pending e \<and> ts = [] \<and> fs = []"
proof (cases x)
  case (Send side mark now_ms now_us ca co)
  have all: "\<forall>i < length (ex_pending e). p_active (ex_pending e ! i)"
    using assms(2) by (auto simp: stuck_def list_all_length)
  show ?thesis
  proof -
    let ?r = "fmma_exec_send e s cfg side mark now_ms now_us ca co"
    have x: "e' = sr_exec ?r" "ts = (if sr_rc ?r = 0 then [now_ms] else [])" "fs = []"
      using assms(3) by (auto simp: Send Let_def)
    show ?thesis
      by (rule send_cases [of e s cfg side mark now_ms now_us ca co]) (use all in \<open>auto simp: x\<close>)
  qed
next
  case (PollOrders now ca co)
  then show ?thesis using assms(2,3) by (auto simp: fmma_exec_poll_def poll_slots_stuck)
qed (use assms in \<open>auto simp: cb_keep_def\<close>)

text \<open>
  C24. Lost orders stop trading for good: when the connections of eight orders have closed without a
  response, the eight slots are never freed again. No sequence of requests and polls, at any
  times, sends an order or gives one up.
\<close>

theorem exec_lost_orders_block_forever:
  assumes "list_all stuck (ex_pending e)" "list_all quiet xs" "exec_run cfg xs (e, s) = Some ((e', s'), fs, ts)"
  shows "ts = [] \<and> ex_pending e' = ex_pending e"
  using assms
proof (induction xs arbitrary: e s fs ts)
  case Nil
  then show ?case by simp
next
  case (Cons x xs)
  obtain e1 s1 fs1 ts1 fs2 ts2 where x: "exec_op_run cfg x (e, s) = Some ((e1, s1), fs1, ts1)"
      "exec_run cfg xs (e1, s1) = Some ((e', s'), fs2, ts2)" "ts = ts1 @ ts2"
    using Cons.prems(3) by (auto simp: bind_eq_Some_conv)
  have "ex_pending e1 = ex_pending e \<and> ts1 = []" using quiet_op_stuck [OF _ Cons.prems(1) x(1)] Cons.prems(2) by simp
  then show ?case using Cons.IH [OF _ _ x(2)] Cons.prems x(3) by simp
qed

text \<open>One order is stuck as soon as its connection closes without a response.\<close>

lemma close_leaves_stuck:
  "list_all stuck (ex_pending e) \<Longrightarrow> order_cb e s (Some i) EvClose = Some r \<Longrightarrow>
     list_all stuck (ex_pending (cb_exec r))"
  by (auto simp: cb_keep_def)

theorem exec_lost_orders_block_forever_witness:
  "let e = demo_exec\<lparr>ex_pending := replicate 8 (pending_zero\<lparr>p_active := True, p_side := 1\<rparr>)\<rparr>
   in \<exists>e' s' fs. exec_run fmma_config_defaults
        [PollOrders 90000000 (\<lambda>_. True) (\<lambda>_. True), Send 1 500 90000 90000000 True True] (e, fmma_stats_init 0)
      = Some ((e', s'), fs, [])"
proof -
  let ?e = "demo_exec\<lparr>ex_pending := replicate 8 (pending_zero\<lparr>p_active := True, p_side := 1\<rparr>)\<rparr>"
  let ?xs = "[PollOrders 90000000 (\<lambda>_. True) (\<lambda>_. True), Send 1 500 90000 90000000 True True]"
  have st: "list_all stuck (ex_pending ?e)" by (simp add: stuck_def pending_zero_def list_all_length)
  obtain e' s' fs ts where r: "exec_run fmma_config_defaults ?xs (?e, fmma_stats_init 0) = Some ((e', s'), fs, ts)"
    by (rule exec_run_total)
  then show ?thesis using exec_lost_orders_block_forever [OF st _ r] by (auto simp: Let_def)
qed

end
