(* ===== verification/Fmma_Feed.thy ===== *)
theory Fmma_Feed
  imports Fmma_Json Fmma_Stats Fmma_Fixed
begin

text \<open>
  The market data feed, \<open>Software/src/fmma_feed.c\<close>: turning a ticker message into a quote in fixed
  point, and the connection that reconnects on its own with exponential backoff. The events of the
  WebSocket library are data; whether it provides a connection, whether \<open>malloc\<close> succeeds and the
  clock are arguments. A call of the quote callback is a value of the result, the quote it is
  given. Log lines, the formatted prices of the debug level included, are omitted.
\<close>

section \<open>State\<close>

definition COINBASE_URL :: string where
  "COINBASE_URL = ''wss://ws-feed.exchange.coinbase.com''"

abbreviation BACKOFF_MIN_MS :: u32 where "BACKOFF_MIN_MS \<equiv> 500"
abbreviation BACKOFF_MAX_MS :: u32 where "BACKOFF_MAX_MS \<equiv> 30000"
abbreviation SIZE_SCALE :: u32 where "SIZE_SCALE \<equiv> 10000"

record fmma_quote =
  q_bid :: u32
  q_ask :: u32
  q_bid_size :: u32
  q_ask_size :: u32

record fmma_feed =
  fd_conn :: bool
  fd_product :: string
  fd_on_quote :: bool
  fd_reconnect_at_us :: u64
  fd_backoff_ms :: u32
  fd_connected :: bool

section \<open>Messages\<close>

text \<open>A size: zero when the field is missing, negative, zero or too large.\<close>

definition clamp_size :: "int \<Rightarrow> u32" where
  "clamp_size b = (if b > 0 \<and> b < 0x7FFFFFFF then word_of_int b else 0)"

definition parse_size :: "string option \<Rightarrow> int option" where
  "parse_size t = (case t of None \<Rightarrow> Some 0 | Some _ \<Rightarrow> fmma_parse_scaled t SIZE_SCALE)"

definition handle_ticker :: "fmma_feed \<Rightarrow> fmma_stats \<Rightarrow> string \<Rightarrow> (fmma_stats \<times> fmma_quote option) option" where
  "handle_ticker f s json =
     (let bid_s = fmma_json_string (Some json) (Some ''best_bid'');
          ask_s = fmma_json_string (Some json) (Some ''best_ask'')
      in if bid_s = None \<or> ask_s = None then Some (s, None)
         else do {
           bid \<leftarrow> fmma_parse_scaled bid_s FMMA_PRICE_SCALE;
           ask \<leftarrow> fmma_parse_scaled ask_s FMMA_PRICE_SCALE;
           if bid = FMMA_PARSE_ERROR \<or> ask = FMMA_PARSE_ERROR then Some (s, None)
           else do {
             let (qb, clamped_b) = fmma_clamp_price bid;
             let (qa, clamped_a) = fmma_clamp_price ask;
             let s1 = (if clamped_b \<or> clamped_a then s\<lparr>clamped_prices := clamped_prices s + 1\<rparr> else s);
             if qb = 0 \<or> qa = 0 then Some (s1, None)
             else do {
               b \<leftarrow> parse_size (fmma_json_string (Some json) (Some ''best_bid_size''));
               a \<leftarrow> parse_size (fmma_json_string (Some json) (Some ''best_ask_size''));
               Some (s1, if fd_on_quote f
                         then Some \<lparr>q_bid = qb, q_ask = qa, q_bid_size = clamp_size b, q_ask_size = clamp_size a\<rparr>
                         else None)
             }
           }
         })"

section \<open>The connection\<close>

definition schedule_reconnect :: "fmma_feed \<Rightarrow> u64 \<Rightarrow> fmma_feed" where
  "schedule_reconnect f now =
     (let b2 = fd_backoff_ms f * 2
      in f\<lparr>fd_conn := False, fd_connected := False,
           fd_reconnect_at_us := now + ucast (fd_backoff_ms f) * 1000,
           fd_backoff_ms := (if b2 > BACKOFF_MAX_MS then BACKOFF_MAX_MS else b2)\<rparr>)"

text \<open>The subscription \<open>snprintf\<close> builds for a 256-byte buffer: the text it stores and the length it returns.\<close>

definition subscribe_text :: "string \<Rightarrow> string" where
  "subscribe_text product =
     ''{'' @ [quote] @ ''type'' @ [quote] @ '':'' @ [quote] @ ''subscribe'' @ [quote] @ '','' @
     [quote] @ ''product_ids'' @ [quote] @ '':['' @ [quote] @ product @ [quote] @ ''],'' @
     [quote] @ ''channels'' @ [quote] @ '':['' @ [quote] @ ''ticker'' @ [quote] @ '']}''"

datatype ws_event = WsConnect | WsOpen | WsMsg string | WsError | WsClose | WsOther

record feed_result =
  fr_feed :: fmma_feed
  fr_stats :: fmma_stats
  fr_quote :: "fmma_quote option"
  fr_sent :: "(string \<times> nat) option"
  fr_tls :: bool

definition feed_keep :: "fmma_feed \<Rightarrow> fmma_stats \<Rightarrow> feed_result" where
  "feed_keep f s = \<lparr>fr_feed = f, fr_stats = s, fr_quote = None, fr_sent = None, fr_tls = False\<rparr>"

text \<open>
  The callback; its connection carries the feed it was opened for, so the guard against a missing
  one is never taken.
\<close>

fun feed_cb :: "fmma_feed \<Rightarrow> fmma_stats \<Rightarrow> ws_event \<Rightarrow> bool \<Rightarrow> u64 \<Rightarrow> feed_result option" where
  "feed_cb f s WsConnect malloc_ok now = Some ((feed_keep f s)\<lparr>fr_tls := True\<rparr>)"
| "feed_cb f s WsOpen malloc_ok now =
     (let t = subscribe_text (fd_product f)
      in Some ((feed_keep (f\<lparr>fd_connected := True, fd_backoff_ms := BACKOFF_MIN_MS\<rparr>) s)
                 \<lparr>fr_sent := Some (snprintf_store 256 t, length t)\<rparr>))"
| "feed_cb f s (WsMsg data) malloc_ok now =
     (if length data + 1 > 2048 \<and> \<not> malloc_ok then Some (feed_keep f s)
      else
        let buf = takeWhile (\<lambda>c. c \<noteq> CHR 0x00) data
        in if fmma_json_type_is (Some buf) (Some ''ticker'')
           then do { (s1, q) \<leftarrow> handle_ticker f s buf; Some ((feed_keep f s1)\<lparr>fr_quote := q\<rparr>) }
           else Some (feed_keep f s))"
| "feed_cb f s WsError malloc_ok now = Some (feed_keep f (s\<lparr>errors := errors s + 1\<rparr>))"
| "feed_cb f s WsClose malloc_ok now =
     Some (feed_keep (schedule_reconnect f now)
             (if fd_connected f then s\<lparr>feed_drops := feed_drops s + 1\<rparr> else s))"
| "feed_cb f s WsOther malloc_ok now = Some (feed_keep f s)"

definition fmma_feed_create :: "bool \<Rightarrow> string \<Rightarrow> bool \<Rightarrow> fmma_feed option" where
  "fmma_feed_create calloc_ok product on_quote =
     (if \<not> calloc_ok then None
      else Some \<lparr>fd_conn = False, fd_product = product, fd_on_quote = on_quote, fd_reconnect_at_us = 0,
                 fd_backoff_ms = BACKOFF_MIN_MS, fd_connected = False\<rparr>)"

definition fmma_feed_start :: "fmma_feed \<Rightarrow> bool \<Rightarrow> u64 \<Rightarrow> fmma_feed" where
  "fmma_feed_start f connect_ok now =
     (let f1 = f\<lparr>fd_conn := connect_ok\<rparr> in if \<not> fd_conn f1 then schedule_reconnect f1 now else f1)"

definition fmma_feed_poll :: "fmma_feed \<Rightarrow> u64 \<Rightarrow> bool \<Rightarrow> u64 \<Rightarrow> fmma_feed" where
  "fmma_feed_poll f now connect_ok now2 =
     (if \<not> fd_conn f \<and> fd_reconnect_at_us f \<noteq> 0 \<and> now \<ge> fd_reconnect_at_us f
      then fmma_feed_start (f\<lparr>fd_reconnect_at_us := 0\<rparr>) connect_ok now2 else f)"

definition fmma_feed_connected :: "fmma_feed option \<Rightarrow> bool" where
  "fmma_feed_connected f = (case f of None \<Rightarrow> False | Some d \<Rightarrow> fd_connected d)"

section \<open>From a message to a quote\<close>

lemma parse_10k_total: obtains v where "fmma_parse_scaled t (10 ^ 4) = Some v"
  by (rule parse_scaled_cases [of 4 t]) auto

lemma parse_size_total: obtains v where "parse_size t = Some v"
proof (cases t)
  case (Some x)
  obtain v where "fmma_parse_scaled t (10 ^ 4) = Some v" by (rule parse_10k_total)
  then show ?thesis using that Some by (simp add: parse_size_def)
qed (simp add: parse_size_def that)

lemma parse_price_total: obtains v where "fmma_parse_scaled t 100 = Some v"
  by (rule parse_scaled_cases [of 2 t]) auto

text \<open>What a ticker message does, once its two prices are read.\<close>

lemma handle_ticker_cases:
  obtains (ignored) "handle_ticker f s json = Some (s, None)"
    "fmma_json_string (Some json) (Some ''best_bid'') = None \<or> fmma_json_string (Some json) (Some ''best_ask'') = None \<or>
     fmma_parse_scaled (fmma_json_string (Some json) (Some ''best_bid'')) 100 = Some FMMA_PARSE_ERROR \<or>
     fmma_parse_scaled (fmma_json_string (Some json) (Some ''best_ask'')) 100 = Some FMMA_PARSE_ERROR"
  | (priced) bid ask b a where
      "fmma_parse_scaled (fmma_json_string (Some json) (Some ''best_bid'')) 100 = Some bid"
      "fmma_parse_scaled (fmma_json_string (Some json) (Some ''best_ask'')) 100 = Some ask"
      "handle_ticker f s json = Some
        (if snd (fmma_clamp_price bid) \<or> snd (fmma_clamp_price ask) then s\<lparr>clamped_prices := clamped_prices s + 1\<rparr> else s,
         if fst (fmma_clamp_price bid) = 0 \<or> fst (fmma_clamp_price ask) = 0 \<or> \<not> fd_on_quote f then None
         else Some \<lparr>q_bid = fst (fmma_clamp_price bid), q_ask = fst (fmma_clamp_price ask),
                    q_bid_size = clamp_size b, q_ask_size = clamp_size a\<rparr>)"
proof -
  let ?bs = "fmma_json_string (Some json) (Some ''best_bid'')" and ?as = "fmma_json_string (Some json) (Some ''best_ask'')"
  obtain bid where bid: "fmma_parse_scaled ?bs 100 = Some bid" by (rule parse_price_total)
  obtain ask where ask: "fmma_parse_scaled ?as 100 = Some ask" by (rule parse_price_total)
  obtain b where b: "parse_size (fmma_json_string (Some json) (Some ''best_bid_size'')) = Some b" by (rule parse_size_total)
  obtain a where a: "parse_size (fmma_json_string (Some json) (Some ''best_ask_size'')) = Some a" by (rule parse_size_total)
  show ?thesis
  proof (cases "?bs = None \<or> ?as = None \<or> bid = FMMA_PARSE_ERROR \<or> ask = FMMA_PARSE_ERROR")
    case True
    then have "handle_ticker f s json = Some (s, None)" by (auto simp: handle_ticker_def Let_def bid ask)
    moreover have "?bs = None \<or> ?as = None \<or> fmma_parse_scaled ?bs 100 = Some FMMA_PARSE_ERROR \<or>
        fmma_parse_scaled ?as 100 = Some FMMA_PARSE_ERROR" using True bid ask by auto
    ultimately show ?thesis by (rule ignored)
  next
    case False
    then show ?thesis
      by (intro priced [OF bid ask, of b a])
        (auto simp: handle_ticker_def Let_def bid ask b a split_beta simp del: not_None_eq)
  qed
qed


lemma decimal_in_message:
  assumes "list_all field_ok fs" "name_ok nm" "lookup_string fs nm = Some (sign @ ws @ frac_part fo)"
    "number_parts sign ws fo []"
  shows "\<exists>v. fmma_parse_scaled (fmma_json_string (Some (object_text fs)) (Some nm)) 100 = Some v \<and>
    v \<noteq> FMMA_PARSE_ERROR \<and> fmma_clamp_price v = fmma_clamp_price (decimal_scaled 2 sign ws fo) \<and>
    fmma_json_string (Some (object_text fs)) (Some nm) \<noteq> None"
proof -
  obtain r where j: "fmma_json_string (Some (object_text fs)) (Some nm) = Some (sign @ ws @ frac_part fo @ quote # r)"
    using json_string_object [OF assms(2,1)] assms(3) by auto
  have parts: "number_parts sign ws fo (quote # r)"
    using assms(4) by (auto simp: number_parts_def is_digit_def char_code_def c_at_def)
  obtain v where v: "fmma_parse_scaled (Some (sign @ ws @ frac_part fo @ quote # r)) 100 = Some v" by (rule parse_price_total)
  have "fmma_clamp_price v = fmma_clamp_price (decimal_scaled 2 sign ws fo)"
    using clamp_parse_price [OF parts] v by simp
  moreover have "v \<noteq> FMMA_PARSE_ERROR"
  proof (rule parse_scaled_cases [of 2 "Some (sign @ ws @ frac_part fo @ quote # r)"])
    assume "case Some (sign @ ws @ frac_part fo @ quote # r) of None \<Rightarrow> True
        | Some p \<Rightarrow> \<not> is_digit (c_at (snd (parse_sign p)) 0)"
    moreover have "is_digit (c_at (snd (parse_sign (sign @ ws @ frac_part fo @ quote # r))) 0)"
      using parse_sign_digits assms(4) by (auto simp: number_parts_def c_at_def nth_append list_all_length)
    ultimately show ?thesis by simp
  next
    fix p w assume "fmma_parse_scaled (Some (sign @ ws @ frac_part fo @ quote # r)) (10 ^ 2) = Some w" "\<bar>w\<bar> < 10 ^ (9 + 2)"
    then show ?thesis using v by (auto simp: FMMA_PARSE_ERROR_def int64_min_def)
  qed simp
  ultimately show ?thesis using v j by auto
qed



section \<open>Staying connected\<close>

text \<open>What happens to the connection, in any order: it is started, events arrive, the loop polls.\<close>

datatype feed_op =
    FeedStart bool u64
  | FeedEvent fmma_stats ws_event bool u64
  | FeedPoll u64 bool u64

fun feed_step :: "feed_op \<Rightarrow> fmma_feed \<Rightarrow> fmma_feed" where
  "feed_step (FeedStart ok now) f = fmma_feed_start f ok now"
| "feed_step (FeedEvent s ev malloc_ok now) f =
     (case feed_cb f s ev malloc_ok now of None \<Rightarrow> f | Some r \<Rightarrow> fr_feed r)"
| "feed_step (FeedPoll now ok now2) f = fmma_feed_poll f now ok now2"

text \<open>The clock, in microseconds, is far from its end.\<close>

fun feed_time_ok :: "feed_op \<Rightarrow> bool" where
  "feed_time_ok (FeedStart ok now) = (now < 2 ^ 62)"
| "feed_time_ok (FeedEvent s ev malloc_ok now) = (now < 2 ^ 62)"
| "feed_time_ok (FeedPoll now ok now2) = (now2 < 2 ^ 62)"

definition feed_ok :: "fmma_feed \<Rightarrow> bool" where
  "feed_ok f \<longleftrightarrow> 500 \<le> unat (fd_backoff_ms f) \<and> unat (fd_backoff_ms f) \<le> 30000 \<and>
     (\<not> fd_conn f \<longrightarrow> fd_reconnect_at_us f \<noteq> 0)"

lemma backoff_double:
  assumes "unat (fd_backoff_ms f) \<le> 30000"
  shows "unat (fd_backoff_ms (schedule_reconnect f now)) = min 30000 (2 * unat (fd_backoff_ms f))"
proof -
  have "unat (fd_backoff_ms f * 2) = 2 * unat (fd_backoff_ms f)"
    using assms by (simp add: unat_word_ariths)
  then show ?thesis by (simp add: schedule_reconnect_def Let_def word_less_nat_alt)
qed

lemma reconnect_time:
  assumes "unat (fd_backoff_ms f) \<le> 30000" "now < 2 ^ 62"
  shows "unat (fd_reconnect_at_us (schedule_reconnect f now)) = unat now + unat (fd_backoff_ms f) * 1000"
proof -
  have "unat now < 2 ^ 62" using assms(2) by (simp add: word_less_nat_alt)
  then show ?thesis using assms(1) unat_ucast_u32_u64 [of "fd_backoff_ms f"]
    by (simp add: schedule_reconnect_def Let_def unat_word_ariths)
qed

lemma feed_ok_schedule:
  assumes "500 \<le> unat (fd_backoff_ms f)" "unat (fd_backoff_ms f) \<le> 30000" "now < 2 ^ 62"
  shows "feed_ok (schedule_reconnect f now)"
proof -
  have "unat (fd_reconnect_at_us (schedule_reconnect f now)) \<noteq> 0" using reconnect_time [OF assms(2,3)] assms(1) by simp
  then have "fd_reconnect_at_us (schedule_reconnect f now) \<noteq> 0" by (simp add: unat_eq_0 [symmetric] del: unat_eq_0)
  then show ?thesis using assms backoff_double [OF assms(2), of now] by (simp add: feed_ok_def)
qed

lemma feed_ok_start:
  assumes "500 \<le> unat (fd_backoff_ms f)" "unat (fd_backoff_ms f) \<le> 30000" "now < 2 ^ 62"
  shows "feed_ok (fmma_feed_start f ok now)"
  using assms feed_ok_schedule [of "f\<lparr>fd_conn := False\<rparr>" now] by (cases ok) (simp_all add: fmma_feed_start_def Let_def feed_ok_def [of "f\<lparr>fd_conn := True\<rparr>"])

lemma feed_ok_step: "feed_ok f \<Longrightarrow> feed_time_ok x \<Longrightarrow> feed_ok (feed_step x f)"
proof (cases x)
  case (FeedStart ok now)
  moreover assume "feed_ok f" "feed_time_ok x"
  ultimately show ?thesis by (simp add: feed_ok_def [of f] feed_ok_start)
next
  case (FeedEvent s ev malloc_ok now)
  moreover assume "feed_ok f" "feed_time_ok x"
  ultimately show ?thesis
    by (cases ev) (auto simp: feed_keep_def feed_ok_def [of f] feed_ok_schedule Let_def bind_eq_Some_conv
        split: option.splits if_splits, auto simp: feed_ok_def)
next
  case (FeedPoll now ok now2)
  moreover assume "feed_ok f" "feed_time_ok x"
  ultimately show ?thesis by (auto simp: fmma_feed_poll_def feed_ok_def [of f] intro: feed_ok_start)
qed


abbreviation demo_feed :: fmma_feed where
  "demo_feed \<equiv> \<lparr>fd_conn = False, fd_product = ''BTC-USD'', fd_on_quote = True, fd_reconnect_at_us = 0,
     fd_backoff_ms = 500, fd_connected = False\<rparr>"


end
