(* ===== verification/Fmma_Platform.thy ===== *)
theory Fmma_Platform
  imports Fmma_Cstd Fmma_Protocol
begin

text \<open>
  The small modules around the operating system: leveled logging (\<open>Software/src/fmma_log.c\<close>), the
  choice of a CA bundle (\<open>fmma_tls.c\<close>), the check that the fabric is configured before the bridge
  is mapped (\<open>fmma_socfpga.c\<close>) and the MSEL reader (\<open>tools/msel.c\<close>). Files, \<open>access\<close>, the clock and
  mapped registers are arguments; what is printed is a string.
\<close>

section \<open>Logging\<close>

datatype fmma_log_level = FMMA_LOG_ERROR | FMMA_LOG_WARN | FMMA_LOG_INFO | FMMA_LOG_DEBUG

fun level_rank :: "fmma_log_level \<Rightarrow> nat" where
  "level_rank FMMA_LOG_ERROR = 0"
| "level_rank FMMA_LOG_WARN = 1"
| "level_rank FMMA_LOG_INFO = 2"
| "level_rank FMMA_LOG_DEBUG = 3"

instantiation fmma_log_level :: linorder
begin

definition less_eq_fmma_log_level :: "fmma_log_level \<Rightarrow> fmma_log_level \<Rightarrow> bool" where
  "less_eq_fmma_log_level a b \<longleftrightarrow> level_rank a \<le> level_rank b"

definition less_fmma_log_level :: "fmma_log_level \<Rightarrow> fmma_log_level \<Rightarrow> bool" where
  "less_fmma_log_level a b \<longleftrightarrow> level_rank a < level_rank b"

instance
proof
  fix a b c :: fmma_log_level
  show "(a < b) = (a \<le> b \<and> \<not> b \<le> a)" by (auto simp: less_eq_fmma_log_level_def less_fmma_log_level_def)
  show "a \<le> a" by (simp add: less_eq_fmma_log_level_def)
  show "a \<le> b \<Longrightarrow> b \<le> c \<Longrightarrow> a \<le> c" by (simp add: less_eq_fmma_log_level_def)
  show "a \<le> b \<Longrightarrow> b \<le> a \<Longrightarrow> a = b" by (cases a; cases b) (simp_all add: less_eq_fmma_log_level_def)
  show "a \<le> b \<or> b \<le> a" by (auto simp: less_eq_fmma_log_level_def)
qed

end

record log_state =
  s_level :: fmma_log_level
  s_start_us :: u64

fun level_name :: "fmma_log_level \<Rightarrow> string" where
  "level_name FMMA_LOG_ERROR = ''ERROR''"
| "level_name FMMA_LOG_WARN = ''WARN ''"
| "level_name FMMA_LOG_INFO = ''info ''"
| "level_name FMMA_LOG_DEBUG = ''debug''"

definition fmma_log_init :: "fmma_log_level \<Rightarrow> u64 \<Rightarrow> log_state" where
  "fmma_log_init level now = \<lparr>s_level = level, s_start_us = now\<rparr>"

definition fmma_log_set_level :: "log_state \<Rightarrow> fmma_log_level \<Rightarrow> log_state" where
  "fmma_log_set_level g level = g\<lparr>s_level := level\<rparr>"

definition fmma_log_get_level :: "log_state \<Rightarrow> fmma_log_level" where
  "fmma_log_get_level g = s_level g"

text \<open>One line, given the message the format produced.\<close>

definition fmma_log :: "log_state \<Rightarrow> fmma_log_level \<Rightarrow> string \<Rightarrow> string \<Rightarrow> u64 \<Rightarrow> string" where
  "fmma_log g level tag msg now =
     (if level > s_level g then []
      else
        let dt = now - s_start_us g
        in ''['' @ pad_left 6 (fmt_word (dt div 1000000)) @ ''.'' @
           zero_pad 3 (fmt_word ((dt div 1000) mod 1000)) @ ''] '' @ level_name level @ '' '' @
           pad_right 8 tag @ '' '' @ msg @ nl)"

definition fmma_print :: "string \<Rightarrow> string" where
  "fmma_print msg = msg"

section \<open>TLS\<close>

definition k_candidates :: "string list" where
  "k_candidates =
     [''/etc/ssl/certs/ca-certificates.crt'', ''/etc/pki/tls/certs/ca-bundle.crt'', ''/etc/ssl/cert.pem'',
      ''/usr/local/share/certs/ca-root-nss.crt'']"

definition fmma_tls_set_ca_file :: "string \<Rightarrow> string option" where
  "fmma_tls_set_ca_file path = Some path"

text \<open>The bundle in use: the override, else the first candidate that is readable.\<close>

definition fmma_tls_ca_file :: "string option \<Rightarrow> (string \<Rightarrow> bool) \<Rightarrow> string option" where
  "fmma_tls_ca_file s_override readable =
     (case s_override of Some p \<Rightarrow> Some p | None \<Rightarrow> List.find readable k_candidates)"

definition fmma_tls_check :: "string option \<Rightarrow> (string \<Rightarrow> bool) \<Rightarrow> (fmma_log_level \<times> string) list" where
  "fmma_tls_check s_override readable =
     (case fmma_tls_ca_file s_override readable of
        Some ca \<Rightarrow> [(FMMA_LOG_INFO, ''verifying certificates against '' @ ca)]
      | None \<Rightarrow> [(FMMA_LOG_WARN, ''no CA bundle found: certificates cannot be verified''),
                 (FMMA_LOG_WARN, ''install ca-certificates, or pass --ca /path/to/bundle'')])"

text \<open>The options handed to the TLS library: the contents of the bundle, if any, and the host name.\<close>

definition fmma_tls_start ::
    "string option \<Rightarrow> (string \<Rightarrow> bool) \<Rightarrow> (string \<Rightarrow> string) \<Rightarrow> string \<Rightarrow> string option \<times> string" where
  "fmma_tls_start s_override readable file_read host =
     (map_option file_read (fmma_tls_ca_file s_override readable), host)"

section \<open>Is the fabric configured?\<close>

datatype fabric_state = FMMA_FABRIC_USER_MODE | FMMA_FABRIC_UNCONFIGURED | FMMA_FABRIC_UNKNOWN

definition k_status_paths :: "string list" where
  "k_status_paths = [''/sys/class/fpga/fpga0/status'', ''/sys/class/fpga_manager/fpga0/state'']"

text \<open>\<open>fgets\<close> into a buffer of 64: up to and including a newline, at most 63 characters; \<open>None\<close> at end of file.\<close>

definition fgets64 :: "string \<Rightarrow> string option" where
  "fgets64 content =
     (if content = [] then None
      else Some (take 63 (takeWhile (\<lambda>c. c \<noteq> CHR 0x0A) content @
                 (if CHR 0x0A \<in> set content then [CHR 0x0A] else []))))"

text \<open>\<open>buf[strcspn (buf, "\\r\\n")] = 0\<close>, the buffer being a C string.\<close>

definition cut_line :: "string \<Rightarrow> string" where
  "cut_line buf = takeWhile (\<lambda>c. c \<noteq> CHR 0x0D \<and> c \<noteq> CHR 0x0A \<and> c \<noteq> CHR 0x00) buf"

definition classify :: "string \<Rightarrow> fabric_state" where
  "classify buf =
     (if strstr buf ''user mode'' \<noteq> None \<or> strstr buf ''operating'' \<noteq> None then FMMA_FABRIC_USER_MODE
      else FMMA_FABRIC_UNCONFIGURED)"

text \<open>The loop over the paths; \<open>files p = None\<close> when the file cannot be opened. With the state comes \<open>s_text\<close>.\<close>

fun fabric_scan :: "(string \<Rightarrow> string option) \<Rightarrow> string list \<Rightarrow> fabric_state \<times> string" where
  "fabric_scan files [] = (FMMA_FABRIC_UNKNOWN, snprintf_store 64 ''no FPGA manager'')"
| "fabric_scan files (p # ps) =
     (case files p of None \<Rightarrow> fabric_scan files ps
      | Some content \<Rightarrow>
          (case fgets64 content of None \<Rightarrow> fabric_scan files ps
           | Some line \<Rightarrow> let buf = cut_line line in (classify buf, snprintf_store 64 buf)))"

definition fmma_fabric_state :: "(string \<Rightarrow> string option) \<Rightarrow> fabric_state \<times> string" where
  "fmma_fabric_state files = fabric_scan files k_status_paths"

definition fmma_fabric_state_text :: "string \<Rightarrow> string" where
  "fmma_fabric_state_text s_text = s_text"

definition fmma_fabric_check :: "(string \<Rightarrow> string option) \<Rightarrow> bool \<Rightarrow> int" where
  "fmma_fabric_check files force =
     (case fst (fmma_fabric_state files) of
        FMMA_FABRIC_USER_MODE \<Rightarrow> 0
      | FMMA_FABRIC_UNCONFIGURED \<Rightarrow> if force then 0 else - 1
      | FMMA_FABRIC_UNKNOWN \<Rightarrow> if force then 0 else - 1)"

section \<open>The MSEL strap\<close>

definition msel_modes :: "string list" where
  "msel_modes = [''power off'', ''reset phase'', ''configuration phase'', ''initialisation phase'', ''user mode'',
     ''?'', ''?'', ''?'']"

definition msel_bit :: "u32 \<Rightarrow> nat \<Rightarrow> string" where
  "msel_bit msel i = fmt_word (drop_bit i msel AND 1)"

text \<open>Exit code, standard output and standard error.\<close>

definition msel_main :: "int \<Rightarrow> bool \<Rightarrow> u32 \<Rightarrow> int \<times> string \<times> string" where
  "msel_main fd mmap_ok stat =
     (if fd < 0 then (1, [], ''open /dev/mem failed (run as root)'' @ nl)
      else if \<not> mmap_ok then (1, [], ''mmap of the FPGA manager failed'' @ nl)
      else
        let mode = stat AND 7; msel = drop_bit 3 stat AND 0x1F
        in (0, fmt_word msel @ nl,
            ''fpgamgr stat 0x'' @ map (\<lambda>c. if char_code c \<ge> 65 then char_of (nat (char_code c + 32)) else c) (fmt_hex8 stat) @
            ''  mode '' @ fmt_word mode @ '' ('' @ msel_modes ! unat mode @ '')  MSEL '' @
            msel_bit msel 4 @ msel_bit msel 3 @ msel_bit msel 2 @ msel_bit msel 1 @ msel_bit msel 0 @ nl))"

section \<open>Properties\<close>

text \<open>The first line of a status file that can be opened and is not empty.\<close>

definition first_line :: "(string \<Rightarrow> string option) \<Rightarrow> string \<Rightarrow> string option" where
  "first_line files p = (case files p of None \<Rightarrow> None | Some content \<Rightarrow> fgets64 content)"

lemma fabric_scan_first:
  "fst (fabric_scan files ps) =
     (case List.map_filter (first_line files) ps of [] \<Rightarrow> FMMA_FABRIC_UNKNOWN | l # _ \<Rightarrow> classify (cut_line l))"
  by (induction ps) (auto simp: List.map_filter_simps first_line_def Let_def split: option.splits)

text \<open>
  The bridge is only touched when the FPGA manager says so: without \<open>--force\<close> the check succeeds
  if and only if one of the two status files can be read and the first one that can contains
  "user mode" or "operating" in its first line; with \<open>--force\<close> it always succeeds, even when the
  manager reports that the fabric is not configured.
\<close>

theorem fabric_check_safe:
  "fmma_fabric_check files force = 0 \<longleftrightarrow>
     force \<or> (\<exists>l ls. List.map_filter (first_line files) k_status_paths = l # ls \<and>
       (\<exists>at. strstr (cut_line l) ''user mode'' = Some at \<or> strstr (cut_line l) ''operating'' = Some at))"
proof -
  have "fst (fmma_fabric_state files) =
      (case List.map_filter (first_line files) k_status_paths of [] \<Rightarrow> FMMA_FABRIC_UNKNOWN | l # _ \<Rightarrow> classify (cut_line l))"
    by (simp add: fmma_fabric_state_def fabric_scan_first)
  then show ?thesis
    by (cases "List.map_filter (first_line files) k_status_paths")
      (auto simp: fmma_fabric_check_def classify_def)
qed

end
