(* ===== verification/Fmma_App.thy ===== *)
theory Fmma_App
  imports Fmma_Strategy Fmma_Risk Fmma_Fpga Fmma_Exec Fmma_Feed Fmma_Platform
begin

text \<open>
  The application, \<open>Software/src/fmma_app.c\<close> and \<open>Software/src/main.c\<close>: the wiring of feed, fabric,
  strategy, risk and broker, the event loop, and the start and stop of the program. The network
  library delivers events; what \<open>mg_mgr_poll\<close> hands to the callbacks in one call is a list of them.
  Every clock reading, allocation result and view of the shared RAM is an argument, collected in one
  record per place that reads them. What leaves the program is a list of outputs in program order:
  accesses to the shared RAM, orders, status queries, websocket messages, TLS set-ups, printed text.
\<close>

section \<open>State\<close>

text \<open>
  The struct, plus the CA override, which is a static of the TLS module. A built application has a
  feed and an order module; the fabric is absent in software-only mode.
\<close>

record fmma_app =
  ap_cfg :: fmma_config
  ap_fpga :: "fmma_fpga option"
  ap_feed :: fmma_feed
  ap_exec :: fmma_exec
  ap_stats :: fmma_stats
  ap_risk :: fmma_risk
  ap_soft :: fmma_strategy
  ap_last_mid :: int
  ap_next_stats_us :: u64
  ap_stale_warned :: bool
  ap_ca_override :: "string option"

datatype app_out =
    Bus access
  | Post nat string
  | StatusQuery nat string
  | WsSend string nat
  | TlsStart string
  | Printed string

section \<open>Callbacks\<close>

definition on_fill :: "fmma_app \<Rightarrow> u32 \<Rightarrow> u32 \<Rightarrow> int \<Rightarrow> fmma_app \<times> app_out list" where
  "on_fill a side qty price =
     (let risk = fmma_risk_on_fill (ap_risk a) side qty price;
          (fpga, acc) = fmma_fpga_report_fill (ap_fpga a) side qty;
          soft = fmma_strategy_on_fill (ap_soft a) side qty
      in (a\<lparr>ap_risk := risk, ap_fpga := fpga, ap_soft := soft\<rparr>, map Bus acc))"

text \<open>The readings of one \<open>act_on\<close>: the clock for the feed age, and those of \<open>fmma_exec_send\<close>.\<close>

record act_env =
  ae_age_now :: u64
  ae_now_ms :: u64
  ae_now_us :: u64
  ae_calloc :: bool
  ae_connect :: bool

definition act_on :: "fmma_app \<Rightarrow> u32 \<Rightarrow> act_env \<Rightarrow> fmma_app \<times> app_out list" where
  "act_on a side env =
     (let (risk, v) = fmma_risk_check (ap_risk a) (fmma_stats_feed_age_us (ap_stats a) (ae_age_now env));
          a1 = a\<lparr>ap_risk := risk\<rparr>
      in if v \<noteq> FMMA_RISK_OK
         then (a1, if v = FMMA_RISK_LOSS_LIMIT \<or> v = FMMA_RISK_HALTED
                   then map Bus (fmma_fpga_set_enabled (ap_fpga a1) False) else [])
         else
           let r = fmma_exec_send (ap_exec a1) (ap_stats a1) (ap_cfg a1) side (ap_last_mid a1)
                     (ae_now_ms env) (ae_now_us env) (ae_calloc env) (ae_connect env)
           in (a1\<lparr>ap_exec := sr_exec r, ap_stats := sr_stats r\<rparr>,
               case sr_request r of None \<Rightarrow> [] | Some (slot, text) \<Rightarrow> [Post slot text]))"

record quote_env =
  qe_t0_ns :: u64
  qe_t1_ns :: u64
  qe_tick_us :: u64
  qe_act :: act_env

definition on_quote :: "fmma_app \<Rightarrow> fmma_quote \<Rightarrow> quote_env \<Rightarrow> fmma_app \<times> app_out list" where
  "on_quote a q env =
     (let mid = s64 (cdiv (s64 (uint (q_bid q) + uint (q_ask q))) 2);
          a1 = a\<lparr>ap_last_mid := mid, ap_risk := fmma_risk_mark (ap_risk a) mid, ap_stale_warned := False\<rparr>;
          a2 = (if cfg_bench (ap_cfg a1)
                then a1\<lparr>ap_stats := fmma_stats_software (ap_stats a1) (qe_t1_ns env - qe_t0_ns env)\<rparr>
                else a1)
      in if fmma_fpga_present (ap_fpga a2)
         then
           let (fpga, acc, seq) =
                 fmma_fpga_publish_tick (ap_fpga a2) (q_bid q) (q_ask q) (q_bid_size q) (q_ask_size q)
           in (a2\<lparr>ap_fpga := fpga, ap_stats := fmma_stats_tick (ap_stats a2) seq (qe_tick_us env)\<rparr>, map Bus acc)
         else
           let st = fmma_stats_tick (ap_stats a2) (ucast (ticks (ap_stats a2))) (qe_tick_us env);
               (soft, side) = fmma_strategy_on_quote (ap_soft a2) (q_bid q) (q_ask q);
               a3 = a2\<lparr>ap_stats := st, ap_soft := soft\<rparr>
           in if side \<noteq> FMMA_SIGNAL_NONE then act_on a3 side (qe_act env) else (a3, []))"

text \<open>
  Draining the fabric. Each turn of the loop has its own view of the RAM; a list that ends while the
  loop still wants a view is a loop that has not returned, \<open>None\<close>. The state block is read for a log
  line only.
\<close>

record drain_env =
  de_view :: ram
  de_signal_us :: u64
  de_act :: act_env

definition take_signal :: "fmma_app \<Rightarrow> fmma_signal \<Rightarrow> drain_env \<Rightarrow> fmma_app \<times> app_out list" where
  "take_signal a sg d =
     (let s1 = (if sig_missed sg \<noteq> 0
                then (ap_stats a)\<lparr>missed_signals := missed_signals (ap_stats a) + ucast (sig_missed sg)\<rparr>
                else ap_stats a);
          (s2, latency) = fmma_stats_signal s1 (sig_tick sg) (de_signal_us d);
          a1 = a\<lparr>ap_stats := s2\<rparr>
      in if sig_side sg = FMMA_SIGNAL_BUY \<or> sig_side sg = FMMA_SIGNAL_SELL
         then act_on a1 (sig_side sg) (de_act d) else (a1, []))"

fun drain_fpga :: "fmma_app \<Rightarrow> drain_env list \<Rightarrow> (fmma_app \<times> app_out list) option" where
  "drain_fpga a [] = (if fmma_fpga_present (ap_fpga a) then None else Some (a, []))"
| "drain_fpga a (d # ds) =
     (case fmma_fpga_poll_signal (ap_fpga a) (de_view d) of
        (f, None) \<Rightarrow> Some (a\<lparr>ap_fpga := f\<rparr>, [])
      | (f, Some sg) \<Rightarrow>
          (case take_signal (a\<lparr>ap_fpga := f\<rparr>) sg d of (a1, o1) \<Rightarrow>
             do { (a2, o2) \<leftarrow> drain_fpga a1 ds; Some (a2, o1 @ o2) }))"

definition check_feed_age :: "fmma_app \<Rightarrow> u64 \<Rightarrow> fmma_app" where
  "check_feed_age a now =
     (if cfg_stale_feed_ms (ap_cfg a) = 0 \<or> ap_stale_warned a then a
      else
        let age = fmma_stats_feed_age_us (ap_stats a) now
        in if age > ucast (cfg_stale_feed_ms (ap_cfg a)) * 1000 then a\<lparr>ap_stale_warned := True\<rparr> else a)"

record report_env =
  re_now_us :: u64
  re_state_view :: ram
  re_beat_view :: ram

definition report :: "fmma_app \<Rightarrow> report_env \<Rightarrow> fmma_app \<times> app_out list" where
  "report a env =
     (let head = fmma_stats_report (ap_stats a) (re_now_us env) @ fmma_risk_report (ap_risk a);
          tail = ''  feed: '' @ (if fmma_feed_connected (Some (ap_feed a)) then ''connected'' else ''DOWN'') @
                 ''   orders working: '' @ dec_digits (fmma_exec_pending (ap_exec a)) @ nl
      in if fmma_fpga_present (ap_fpga a)
         then
           let st = fmma_fpga_read_state (ap_fpga a) (re_state_view env);
               (fpga, loops) = fmma_fpga_heartbeat_delta (ap_fpga a) (re_beat_view env)
           in (a\<lparr>ap_fpga := fpga\<rparr>,
               [Printed (head @ ''  fabric: position '' @ fmt_int (st_position st) @ ''   rejects '' @
                  fmt_word (st_rejects st) @ ''   status 0x'' @ fmt_hex (st_status st) @
                  (if st_status st AND FMMA_STATUS_RISK_BLOCKED \<noteq> 0 then '' [risk-blocked]'' else []) @
                  (if st_status st AND FMMA_STATUS_DISABLED \<noteq> 0 then '' [disabled]'' else []) @ ''   '' @
                  fmt_word loops @ '' loops since the last report'' @ nl @ tail)])
         else (a, [Printed (head @ tail)]))"

section \<open>Lifecycle\<close>

text \<open>What \<open>fmma_app_create\<close> reads from the system; the fabric part is only consulted when it is used.\<close>

record create_env =
  ce_calloc :: bool
  ce_now_us :: u64
  ce_status_files :: "string \<Rightarrow> string option"
  ce_fpga_calloc :: bool
  ce_fd :: int
  ce_mmap :: bool
  ce_readback :: ram
  ce_beat0 :: u32
  ce_wait_views :: "nat \<Rightarrow> ram"
  ce_exec_calloc :: bool
  ce_feed_calloc :: bool
  ce_key :: "string option"
  ce_secret :: "string option"

text \<open>The fabric part: the accesses, and the handle, \<open>None\<close> when the bridge must not or cannot be used.\<close>

definition fabric_up :: "fmma_config \<Rightarrow> create_env \<Rightarrow> access list \<times> fmma_fpga option" where
  "fabric_up cfg env =
     (if fmma_fabric_check (ce_status_files env) (cfg_force cfg) \<noteq> 0 then ([], None)
      else case fmma_fpga_open (ce_fpga_calloc env) (ce_fd env) (ce_mmap env) of
        None \<Rightarrow> ([], None)
      | Some f \<Rightarrow>
          let fc = \<lparr>fc_threshold = cfg_threshold cfg, fc_max_position = cfg_max_position cfg,
                    fc_start_position = cfg_start_position cfg, fc_half_spread = cfg_half_spread cfg,
                    fc_skew = cfg_skew cfg\<rparr>;
              (acc, f1, rc) = fmma_fpga_load (Some f) (Some fc) (ce_readback env) (ce_beat0 env) (ce_wait_views env)
          in if rc \<noteq> 0 then (acc @ fmma_fpga_close f1, None)
             else (acc @ fmma_fpga_set_enabled f1 True, f1))"

definition fmma_app_destroy :: "fmma_app option \<Rightarrow> access list" where
  "fmma_app_destroy ao =
     (case ao of None \<Rightarrow> [] | Some a \<Rightarrow> (case ap_fpga a of None \<Rightarrow> [] | Some d \<Rightarrow> fmma_fpga_close (Some d)))"

text \<open>
  The order module or the feed may fail to allocate after the fabric is up; the half-built
  application is then destroyed, which closes the fabric.
\<close>

definition fmma_app_create :: "fmma_config \<Rightarrow> create_env \<Rightarrow> access list \<times> fmma_app option" where
  "fmma_app_create cfg env =
     (if \<not> ce_calloc env then ([], None)
      else
        let stats = fmma_stats_init (ce_now_us env);
            risk = fmma_risk_init (cfg_max_loss cfg) (cfg_stale_feed_ms cfg) (cfg_start_position cfg);
            soft = fmma_strategy_init (cfg_threshold cfg) (cfg_max_position cfg) (cfg_start_position cfg);
            override = (case cfg_ca_file cfg of None \<Rightarrow> None | Some p \<Rightarrow> fmma_tls_set_ca_file p);
            (acc, fpga) = (if cfg_use_fpga cfg then fabric_up cfg env else ([], None))
        in if cfg_use_fpga cfg \<and> fpga = None then (acc, None)
           else case (fmma_exec_create (ce_exec_calloc env) True (ce_key env) (ce_secret env),
                      fmma_feed_create (ce_feed_calloc env) (cfg_product cfg) True) of
             (Some ex, Some fd) \<Rightarrow>
               (acc, Some \<lparr>ap_cfg = cfg, ap_fpga = fpga, ap_feed = fd, ap_exec = ex, ap_stats = stats,
                           ap_risk = risk, ap_soft = soft, ap_last_mid = 0, ap_next_stats_us = 0,
                           ap_stale_warned = False, ap_ca_override = override\<rparr>)
           | _ \<Rightarrow> (acc @ (case fpga of None \<Rightarrow> [] | Some d \<Rightarrow> fmma_fpga_close (Some d)), None))"

text \<open>
  An event the network library delivers: on the connection of an order or of a status query, with the
  context it carries, or on the feed's. A fill reported by a callback runs \<open>on_fill\<close>, a quote runs
  \<open>on_quote\<close>.
\<close>

datatype net_event =
    OnOrder "nat option" http_event
  | OnQuery "nat option" http_event
  | OnFeed ws_event bool u64 quote_env

definition after_cb :: "fmma_app \<Rightarrow> cb_result \<Rightarrow> fmma_app \<times> app_out list" where
  "after_cb a r =
     (let a1 = a\<lparr>ap_exec := cb_exec r, ap_stats := cb_stats r\<rparr>;
          tls = (if cb_tls r then [TlsStart ALPACA_HOST] else [])
      in case cb_fill r of None \<Rightarrow> (a1, tls)
         | Some (side, qty, price) \<Rightarrow> (case on_fill a1 side qty price of (a2, o2) \<Rightarrow> (a2, tls @ o2)))"

fun net_step :: "fmma_app \<Rightarrow> net_event \<Rightarrow> (fmma_app \<times> app_out list) option" where
  "net_step a (OnOrder ctx ev) = map_option (after_cb a) (order_cb (ap_exec a) (ap_stats a) ctx ev)"
| "net_step a (OnQuery ctx ev) = map_option (after_cb a) (query_cb (ap_exec a) (ap_stats a) ctx ev)"
| "net_step a (OnFeed ev malloc_ok now qenv) =
     do { r \<leftarrow> feed_cb (ap_feed a) (ap_stats a) ev malloc_ok now;
          let a1 = a\<lparr>ap_feed := fr_feed r, ap_stats := fr_stats r\<rparr>;
          let o1 = (if fr_tls r then [TlsStart ''ws-feed.exchange.coinbase.com''] else []) @
                   (case fr_sent r of None \<Rightarrow> [] | Some (t, n) \<Rightarrow> [WsSend t n]);
          Some (case fr_quote r of None \<Rightarrow> (a1, o1)
                | Some q \<Rightarrow> (case on_quote a1 q qenv of (a2, o2) \<Rightarrow> (a2, o1 @ o2))) }"

fun net_steps :: "fmma_app \<Rightarrow> net_event list \<Rightarrow> (fmma_app \<times> app_out list) option" where
  "net_steps a [] = Some (a, [])"
| "net_steps a (ev # evs) =
     do { (a1, o1) \<leftarrow> net_step a ev; (a2, o2) \<leftarrow> net_steps a1 evs; Some (a2, o1 @ o2) }"

text \<open>One turn of the event loop and everything it reads.\<close>

record turn_env =
  te_events :: "net_event list"
  te_drain :: "drain_env list"
  te_poll_us :: u64
  te_poll_calloc :: "nat \<Rightarrow> bool"
  te_poll_connect :: "nat \<Rightarrow> bool"
  te_feed_us :: u64
  te_feed_connect :: bool
  te_feed_start_us :: u64
  te_age_us :: u64
  te_stats_us :: u64
  te_report :: report_env

definition poll_orders :: "fmma_app \<Rightarrow> turn_env \<Rightarrow> fmma_app \<times> app_out list" where
  "poll_orders a t =
     (case fmma_exec_poll (ap_exec a) (ap_stats a) (ap_cfg a) (te_poll_us t) (te_poll_calloc t) (te_poll_connect t) of
        (e, s, qs) \<Rightarrow> (a\<lparr>ap_exec := e, ap_stats := s\<rparr>, map (\<lambda>(i, text). StatusQuery i text) qs))"

definition stats_due :: "fmma_app \<Rightarrow> turn_env \<Rightarrow> fmma_app \<times> app_out list" where
  "stats_due a t =
     (if cfg_stats_sec (ap_cfg a) \<noteq> 0 \<and> te_stats_us t \<ge> ap_next_stats_us a
      then (case report a (te_report t) of (a1, o1) \<Rightarrow>
              (a1\<lparr>ap_next_stats_us := te_stats_us t + ucast (cfg_stats_sec (ap_cfg a1)) * 1000000\<rparr>, o1))
      else (a, []))"

definition app_turn :: "fmma_app \<Rightarrow> turn_env \<Rightarrow> (fmma_app \<times> app_out list) option" where
  "app_turn a t =
     do { (a1, o1) \<leftarrow> net_steps a (te_events t);
          (a2, o2) \<leftarrow> drain_fpga a1 (te_drain t);
          let (a3, o3) = poll_orders a2 t;
          let a4 = a3\<lparr>ap_feed := fmma_feed_poll (ap_feed a3) (te_feed_us t) (te_feed_connect t) (te_feed_start_us t)\<rparr>;
          let a5 = check_feed_age a4 (te_age_us t);
          let (a6, o6) = stats_due a5 t;
          Some (a6, o1 @ o2 @ o3 @ o6) }"

text \<open>The turns until the stop flag is seen.\<close>

fun app_loop :: "fmma_app \<Rightarrow> turn_env list \<Rightarrow> (fmma_app \<times> app_out list) option" where
  "app_loop a [] = Some (a, [])"
| "app_loop a (t # ts) =
     do { (a1, o1) \<leftarrow> app_turn a t; (a2, o2) \<leftarrow> app_loop a1 ts; Some (a2, o1 @ o2) }"

record run_env =
  rn_connect :: bool
  rn_start_us :: u64
  rn_now_us :: u64
  rn_turns :: "turn_env list"
  rn_report :: report_env

definition fmma_app_run :: "fmma_app \<Rightarrow> run_env \<Rightarrow> (fmma_app \<times> app_out list \<times> int) option" where
  "fmma_app_run a env =
     do { let a1 = a\<lparr>ap_feed := fmma_feed_start (ap_feed a) (rn_connect env) (rn_start_us env),
                     ap_next_stats_us := rn_now_us env + ucast (cfg_stats_sec (ap_cfg a)) * 1000000\<rparr>;
          (a2, o2) \<leftarrow> app_loop a1 (rn_turns env);
          let (a3, o3) = report a2 (rn_report env);
          Some (a3, o2 @ o3, 0) }"

section \<open>The program\<close>

definition banner :: "fmma_config \<Rightarrow> string" where
  "banner cfg = ''=== FMMA: '' @ cfg_product cfg @ '' -> '' @ (if cfg_use_fpga cfg then ''FPGA'' else ''software'') @
     '' -> paper trading (protocol v'' @ fmt_word FMMA_PROTOCOL_VERSION @ '') ==='' @ nl"

text \<open>
  \<open>main\<close>: the exit code and the outputs; the first argument of the command line is the program's name.
  \<open>None\<close> while the event loop has not returned.
\<close>

definition fmma_main :: "string list \<Rightarrow> create_env \<Rightarrow> run_env \<Rightarrow> (int \<times> app_out list) option" where
  "fmma_main argv cenv renv =
     (case fmma_config_parse_args fmma_config_defaults argv of (cfg, rc, text) \<Rightarrow>
        if rc > 0 then Some (0, [Printed text])
        else if rc < 0 then Some (1, [Printed text])
        else (case fmma_app_create cfg cenv of
             (acc, None) \<Rightarrow> Some (if cfg_use_fpga cfg then 2 else 3, Printed (banner cfg) # map Bus acc)
           | (acc, Some app) \<Rightarrow>
               do { (app1, outs, result) \<leftarrow> fmma_app_run app renv;
                    Some (result, Printed (banner cfg) # map Bus acc @ outs @ map Bus (fmma_app_destroy (Some app1))) }))"

end
