(* ===== verification/Fmma_Loop.thy ===== *)
theory Fmma_Loop
  imports Fmma_App
begin

text \<open>
  Safety of the running program. The event loop of \<open>Fmma_App\<close> is decomposed into an inductive step
  relation (\<open>app_step\<close>); the locale \<open>app_invariant\<close> says what a predicate has to satisfy to survive a
  whole run, and its interpretations are the halt, the absence and presence of the device, the
  agreement of the position keepers and the position limit. The theorems are about
  \<open>fmma_app_run\<close> and \<open>fmma_main\<close>.
\<close>

section \<open>The application as a step relation\<close>

text \<open>
  The event loop as a sequence of small steps, one rule for each thing that can happen to the parts
  that carry the trading state: a broker callback, a quote marking the books, a decision of the
  software strategy with or without an order, a decision of the fabric, a status poll. Everything
  else leaves the configuration, the books, the strategy, the order table and the fill counter of
  the device alone, and the last mid price within its type.
\<close>

definition device_frame :: "fmma_app \<Rightarrow> (bool \<times> u32) option" where
  "device_frame a = map_option (\<lambda>d. (fpga_regs d, fpga_fill_seq d)) (ap_fpga a)"

definition app_frame :: "fmma_app \<Rightarrow> fmma_app \<Rightarrow> bool" where
  "app_frame a a' \<longleftrightarrow> ap_cfg a' = ap_cfg a \<and> ap_risk a' = ap_risk a \<and> ap_soft a' = ap_soft a \<and>
     ap_exec a' = ap_exec a \<and> device_frame a' = device_frame a \<and> (in64 (ap_last_mid a) \<longrightarrow> in64 (ap_last_mid a'))"

fun quiet_out :: "bool \<Rightarrow> app_out \<Rightarrow> bool" where
  "quiet_out dev (Post slot t) = False"
| "quiet_out dev (Bus (Store w v)) = (dev \<and> w \<notin> {FMMA_FILL_SIDE, FMMA_FILL_QTY, FMMA_FILL_SEQ, FMMA_CFG_ENABLE})"
| "quiet_out dev (Bus Barrier) = dev"
| "quiet_out dev _ = True"

definition has_device :: "fmma_app \<Rightarrow> bool" where
  "has_device a \<longleftrightarrow> fmma_fpga_present (ap_fpga a)"

fun ctx_ok :: "nat option \<Rightarrow> bool" where
  "ctx_ok None = True"
| "ctx_ok (Some slot) = (slot < MAX_PENDING)"

inductive app_step :: "fmma_app \<Rightarrow> app_out list \<Rightarrow> fmma_app \<Rightarrow> bool" where
  Quiet: "app_frame a a' \<Longrightarrow> list_all (quiet_out (has_device a)) outs \<Longrightarrow> app_step a outs a'"
| OrderCb: "ctx_ok ctx \<Longrightarrow> order_cb (ap_exec a) (ap_stats a) ctx ev = Some r \<Longrightarrow> after_cb a r = (a', outs) \<Longrightarrow>
    app_step a outs a'"
| QueryCb: "ctx_ok ctx \<Longrightarrow> query_cb (ap_exec a) (ap_stats a) ctx ev = Some r \<Longrightarrow> after_cb a r = (a', outs) \<Longrightarrow>
    app_step a outs a'"
| Mark: "app_step a [] (a\<lparr>ap_risk := fmma_risk_mark (ap_risk a) mid\<rparr>)"
| Decide: "\<not> has_device a \<Longrightarrow> fmma_strategy_on_quote (ap_soft a) bid ask = (soft, FMMA_SIGNAL_NONE) \<Longrightarrow>
    app_step a [] (a\<lparr>ap_soft := soft\<rparr>)"
| SoftOrder: "\<not> has_device a \<Longrightarrow> fmma_strategy_on_quote (ap_soft a) bid ask = (soft, side) \<Longrightarrow>
    side \<noteq> FMMA_SIGNAL_NONE \<Longrightarrow> act_on (a\<lparr>ap_soft := soft\<rparr>) side env = (a', outs) \<Longrightarrow> app_step a outs a'"
| FabricOrder: "has_device a \<Longrightarrow> side = FMMA_SIGNAL_BUY \<or> side = FMMA_SIGNAL_SELL \<Longrightarrow> act_on a side env = (a', outs) \<Longrightarrow>
    app_step a outs a'"
| PollWorking: "poll_orders a t = (a', outs) \<Longrightarrow> app_step a outs a'"

inductive app_steps :: "fmma_app \<Rightarrow> app_out list \<Rightarrow> fmma_app \<Rightarrow> bool" where
  Refl: "app_steps a [] a"
| Step: "app_step a o1 a1 \<Longrightarrow> app_steps a1 o2 a2 \<Longrightarrow> app_steps a (o1 @ o2) a2"

inductive_cases app_stepE: "app_step a outs a'"

lemma app_steps_single: "app_step a o1 a1 \<Longrightarrow> app_steps a o1 a1"
  using app_steps.Step [OF _ app_steps.Refl] by force

lemma app_steps_append: "app_steps a o1 a1 \<Longrightarrow> app_steps a1 o2 a2 \<Longrightarrow> app_steps a (o1 @ o2) a2"
  by (induction rule: app_steps.induct) (auto intro: app_steps.Step)

text \<open>What the loop may be given: contexts that name a slot of the table.\<close>

fun event_ok :: "net_event \<Rightarrow> bool" where
  "event_ok (OnOrder ctx ev) = ctx_ok ctx"
| "event_ok (OnQuery ctx ev) = ctx_ok ctx"
| "event_ok (OnFeed ev m now q) = True"

definition turn_ok :: "turn_env \<Rightarrow> bool" where
  "turn_ok t \<longleftrightarrow> list_all event_ok (te_events t)"

lemma on_quote_steps: "on_quote a q env = (a', outs) \<Longrightarrow> app_steps a outs a'"
proof -
  assume oq: "on_quote a q env = (a', outs)"
  define mid where "mid = s64 (cdiv (s64 (uint (q_bid q) + uint (q_ask q))) 2)"
  define a0 where "a0 = a\<lparr>ap_risk := fmma_risk_mark (ap_risk a) mid\<rparr>"
  define a1 where "a1 = a\<lparr>ap_last_mid := mid, ap_risk := fmma_risk_mark (ap_risk a) mid, ap_stale_warned := False\<rparr>"
  define a2 where "a2 = (if cfg_bench (ap_cfg a)
      then a1\<lparr>ap_stats := fmma_stats_software (ap_stats a1) (qe_t1_ns env - qe_t0_ns env)\<rparr> else a1)"
  have start: "app_steps a [] a2"
  proof -
    have "app_step a [] a0" unfolding a0_def by (rule app_step.Mark)
    moreover have "app_step a0 [] a2"
      by (rule app_step.Quiet) (auto simp: a2_def a1_def a0_def mid_def app_frame_def device_frame_def)
    ultimately show ?thesis using app_steps.Step [of a "[]"] app_steps_single by fastforce
  qed
  have oq2: "(a', outs) = (if fmma_fpga_present (ap_fpga a2)
      then
        let (fpga, acc, seq) =
              fmma_fpga_publish_tick (ap_fpga a2) (q_bid q) (q_ask q) (q_bid_size q) (q_ask_size q)
        in (a2\<lparr>ap_fpga := fpga, ap_stats := fmma_stats_tick (ap_stats a2) seq (qe_tick_us env)\<rparr>, map Bus acc)
      else
        let st = fmma_stats_tick (ap_stats a2) (ucast (ticks (ap_stats a2))) (qe_tick_us env);
            (soft, side) = fmma_strategy_on_quote (ap_soft a2) (q_bid q) (q_ask q);
            a3 = a2\<lparr>ap_stats := st, ap_soft := soft\<rparr>
        in if side \<noteq> FMMA_SIGNAL_NONE then act_on a3 side (qe_act env) else (a3, []))"
    unfolding oq [symmetric] on_quote_def mid_def [symmetric] Let_def a1_def [symmetric] a2_def
    by (simp add: a1_def)
  have "app_steps a2 outs a'"
  proof (cases "has_device a2")
    case True
    then show ?thesis using oq2
      by (intro app_steps_single app_step.Quiet)
        (auto simp: has_device_def fmma_fpga_present_def fmma_fpga_publish_tick_def app_frame_def device_frame_def
          Let_def split: option.splits if_splits)
  next
    case False
    define st where "st = fmma_stats_tick (ap_stats a2) (ucast (ticks (ap_stats a2))) (qe_tick_us env)"
    obtain soft side where d: "fmma_strategy_on_quote (ap_soft a2) (q_bid q) (q_ask q) = (soft, side)" by fastforce
    have pre: "app_step a2 [] (a2\<lparr>ap_stats := st\<rparr>)"
      by (rule app_step.Quiet) (auto simp: app_frame_def device_frame_def)
    have nd: "\<not> has_device (a2\<lparr>ap_stats := st\<rparr>)" using False by (simp add: has_device_def)
    have "app_step (a2\<lparr>ap_stats := st\<rparr>) outs a'"
    proof (cases "side = FMMA_SIGNAL_NONE")
      case True
      then have "(a', outs) = (a2\<lparr>ap_stats := st, ap_soft := soft\<rparr>, [])"
        using oq2 False d by (simp add: has_device_def st_def Let_def)
      then show ?thesis using app_step.Decide [OF nd, of "q_bid q" "q_ask q" soft] d True by simp
    next
      case ne: False
      then have "act_on (a2\<lparr>ap_stats := st, ap_soft := soft\<rparr>) side (qe_act env) = (a', outs)"
        using oq2 False d by (simp add: has_device_def st_def Let_def)
      then show ?thesis using app_step.SoftOrder [OF nd _ ne, of "q_bid q" "q_ask q" soft "qe_act env" a' outs] d by simp
    qed
    then show ?thesis using app_steps.Step [OF pre app_steps_single] by fastforce
  qed
  then show ?thesis using app_steps_append [OF start] by simp
qed

lemma take_signal_steps:
  assumes "has_device a" "take_signal a sg d = (a', outs)"
  shows "app_steps a outs a'" "has_device a'"
proof -
  define s1 where "s1 = (if sig_missed sg \<noteq> 0
    then (ap_stats a)\<lparr>missed_signals := missed_signals (ap_stats a) + ucast (sig_missed sg)\<rparr> else ap_stats a)"
  obtain s2 lat where s2: "fmma_stats_signal s1 (sig_tick sg) (de_signal_us d) = (s2, lat)" by fastforce
  have ts: "take_signal a sg d = (if sig_side sg = FMMA_SIGNAL_BUY \<or> sig_side sg = FMMA_SIGNAL_SELL
      then act_on (a\<lparr>ap_stats := s2\<rparr>) (sig_side sg) (de_act d) else (a\<lparr>ap_stats := s2\<rparr>, []))"
    by (simp add: take_signal_def s1_def [symmetric] s2 Let_def)
  have pre: "app_step a [] (a\<lparr>ap_stats := s2\<rparr>)"
    by (rule app_step.Quiet) (auto simp: app_frame_def device_frame_def)
  have dev: "has_device (a\<lparr>ap_stats := s2\<rparr>)" using assms(1) by (simp add: has_device_def)
  have "app_steps (a\<lparr>ap_stats := s2\<rparr>) outs a'"
  proof (cases "sig_side sg = FMMA_SIGNAL_BUY \<or> sig_side sg = FMMA_SIGNAL_SELL")
    case True
    then show ?thesis using assms(2) ts
      by (intro app_steps_single app_step.FabricOrder [OF dev True, of "de_act d"]) simp
  next
    case False
    then show ?thesis using assms(2) ts by (auto intro: app_steps.Refl)
  qed
  then show "app_steps a outs a'" using app_steps.Step [OF pre] by fastforce
  show "has_device a'" using assms ts dev
    by (auto simp: act_on_def has_device_def Let_def split: prod.splits if_splits)
qed

lemma poll_signal_frame [frame]:
  "map_option (\<lambda>d. (fpga_regs d, fpga_fill_seq d)) (fst (fmma_fpga_poll_signal f view)) =
   map_option (\<lambda>d. (fpga_regs d, fpga_fill_seq d)) f"
  by (cases f) (auto simp: fmma_fpga_poll_signal_def Let_def)

lemma heartbeat_frame [frame]:
  "map_option (\<lambda>d. (fpga_regs d, fpga_fill_seq d)) (fst (fmma_fpga_heartbeat_delta f view)) =
   map_option (\<lambda>d. (fpga_regs d, fpga_fill_seq d)) f"
  by (cases f) (auto simp: fmma_fpga_heartbeat_delta_def Let_def)

lemma drain_steps: "drain_fpga a ds = Some (a', outs) \<Longrightarrow> app_steps a outs a'"
proof (induction a ds arbitrary: a' outs rule: drain_fpga.induct)
  case (1 a)
  then show ?case by (auto intro: app_steps.Refl split: if_splits)
next
  case (2 a d ds)
  obtain f sgo where p: "fmma_fpga_poll_signal (ap_fpga a) (de_view d) = (f, sgo)" by fastforce
  have fr: "app_step a [] (a\<lparr>ap_fpga := f\<rparr>)"
    using poll_signal_frame [of "ap_fpga a" "de_view d"] p
    by (intro app_step.Quiet) (auto simp: app_frame_def device_frame_def)
  show ?case
  proof (cases sgo)
    case None
    then show ?thesis using 2(2) p app_steps.Step [OF fr app_steps.Refl] by simp
  next
    case (Some sg)
    obtain a1 o1 where t: "take_signal (a\<lparr>ap_fpga := f\<rparr>) sg d = (a1, o1)" by fastforce
    obtain o2 where d: "drain_fpga a1 ds = Some (a', o2)" "outs = o1 @ o2"
      using 2(2) p Some t by (auto simp: bind_eq_Some_conv)
    have dev: "has_device (a\<lparr>ap_fpga := f\<rparr>)"
      using p Some by (auto simp: has_device_def fmma_fpga_poll_signal_def fmma_fpga_present_def Let_def
          split: option.splits if_splits)
    have "app_steps a (o1 @ o2) a'"
      using app_steps.Step [OF fr app_steps_append [OF take_signal_steps(1) [OF dev t] 2(1) [OF p [symmetric] Some t [symmetric] d(1)]]]
      by simp
    then show ?thesis by (simp add: d(2))
  qed
qed

lemma net_step_steps:
  assumes "event_ok ev" "net_step a ev = Some (a', outs)"
  shows "app_steps a outs a'"
proof (cases ev)
  case (OnOrder ctx e)
  then obtain r where "order_cb (ap_exec a) (ap_stats a) ctx e = Some r" "after_cb a r = (a', outs)"
    using assms(2) by auto
  then show ?thesis using assms(1) OnOrder by (auto intro: app_steps_single app_step.OrderCb)
next
  case (OnQuery ctx e)
  then obtain r where "query_cb (ap_exec a) (ap_stats a) ctx e = Some r" "after_cb a r = (a', outs)"
    using assms(2) by auto
  then show ?thesis using assms(1) OnQuery by (auto intro: app_steps_single app_step.QueryCb)
next
  case (OnFeed e m now q)
  then obtain r where r: "feed_cb (ap_feed a) (ap_stats a) e m now = Some r"
    using assms(2) by (auto simp: bind_eq_Some_conv)
  define a1 where "a1 = a\<lparr>ap_feed := fr_feed r, ap_stats := fr_stats r\<rparr>"
  define o1 where "o1 = (if fr_tls r then [TlsStart ''ws-feed.exchange.coinbase.com''] else []) @
    (case fr_sent r of None \<Rightarrow> [] | Some (t, n) \<Rightarrow> [WsSend t n])"
  have res: "(a', outs) = (case fr_quote r of None \<Rightarrow> (a1, o1)
      | Some q' \<Rightarrow> (case on_quote a1 q' q of (a2, o2) \<Rightarrow> (a2, o1 @ o2)))"
    using assms(2) unfolding OnFeed net_step.simps r a1_def o1_def by (simp add: Let_def)
  have pre: "app_step a o1 a1"
    by (rule app_step.Quiet) (auto simp: a1_def o1_def app_frame_def device_frame_def split: option.splits)
  show ?thesis
  proof (cases "fr_quote r")
    case None
    then show ?thesis using res pre by (auto intro: app_steps_single)
  next
    case (Some q')
    obtain a2 o2 where q: "on_quote a1 q' q = (a2, o2)" by fastforce
    then show ?thesis using res Some app_steps.Step [OF pre on_quote_steps [OF q]] by simp
  qed
qed

lemma net_steps_steps:
  "list_all event_ok evs \<Longrightarrow> net_steps a evs = Some (a', outs) \<Longrightarrow> app_steps a outs a'"
  by (induction a evs arbitrary: a' outs rule: net_steps.induct)
    (auto simp: bind_eq_Some_conv intro: app_steps.Refl app_steps_append net_step_steps)

lemma report_step: "report a env = (a', outs) \<Longrightarrow> app_step a outs a'"
  using heartbeat_frame [of "ap_fpga a" "re_beat_view env"]
  by (intro app_step.Quiet)
    (auto simp: report_def Let_def app_frame_def device_frame_def split: prod.splits if_splits)

lemma stats_due_step: "stats_due a t = (a', outs) \<Longrightarrow> app_steps a outs a'"
proof -
  assume sd: "stats_due a t = (a', outs)"
  obtain a1 o1 where r: "report a (te_report t) = (a1, o1)" by fastforce
  have q: "app_step a1 [] (a1\<lparr>ap_next_stats_us := x\<rparr>)" for x
    by (rule app_step.Quiet) (auto simp: app_frame_def device_frame_def)
  show ?thesis using sd app_steps.Step [OF report_step [OF r] app_steps_single [OF q]]
    by (auto simp: stats_due_def r intro: app_steps.Refl split: if_splits)
qed

lemma app_turn_steps:
  assumes "turn_ok t" "app_turn a t = Some (a', outs)"
  shows "app_steps a outs a'"
proof -
  obtain a1 o1 where 1: "net_steps a (te_events t) = Some (a1, o1)" using assms(2) by (auto simp: app_turn_def bind_eq_Some_conv)
  obtain a2 o2 where 2: "drain_fpga a1 (te_drain t) = Some (a2, o2)" using assms(2) 1 by (auto simp: app_turn_def bind_eq_Some_conv)
  obtain a3 o3 where 3: "poll_orders a2 t = (a3, o3)" by fastforce
  define a5 where "a5 = check_feed_age
    (a3\<lparr>ap_feed := fmma_feed_poll (ap_feed a3) (te_feed_us t) (te_feed_connect t) (te_feed_start_us t)\<rparr>) (te_age_us t)"
  have q: "app_step a3 [] a5"
    by (rule app_step.Quiet) (auto simp: a5_def check_feed_age_def Let_def app_frame_def device_frame_def)
  obtain a6 o6 where 6: "stats_due a5 t = (a6, o6)" by fastforce
  have res: "a' = a6" "outs = o1 @ o2 @ o3 @ o6"
    using assms(2) 1 2 3 6 by (auto simp: app_turn_def a5_def Let_def)
  have "app_steps a3 o6 a6" using app_steps.Step [OF q stats_due_step [OF 6]] by simp
  then have "app_steps a2 (o3 @ o6) a6" by (rule app_steps.Step [OF app_step.PollWorking [OF 3]])
  then have "app_steps a1 (o2 @ o3 @ o6) a6" by (rule app_steps_append [OF drain_steps [OF 2]])
  then have "app_steps a (o1 @ o2 @ o3 @ o6) a6"
    using app_steps_append [OF net_steps_steps [OF _ 1]] assms(1) by (simp add: turn_ok_def)
  then show ?thesis by (simp add: res)
qed

lemma app_loop_steps:
  "list_all turn_ok ts \<Longrightarrow> app_loop a ts = Some (a', outs) \<Longrightarrow> app_steps a outs a'"
  by (induction a ts arbitrary: a' outs rule: app_loop.induct)
    (auto simp: bind_eq_Some_conv intro: app_steps.Refl app_steps_append app_turn_steps)

lemma app_run_steps:
  assumes "list_all turn_ok (rn_turns env)" "fmma_app_run a env = Some (a', outs, rc)"
  shows "app_steps a outs a'" "rc = 0"
proof -
  define a1 where "a1 = a\<lparr>ap_feed := fmma_feed_start (ap_feed a) (rn_connect env) (rn_start_us env),
    ap_next_stats_us := rn_now_us env + ucast (cfg_stats_sec (ap_cfg a)) * 1000000\<rparr>"
  obtain a2 o2 where 2: "app_loop a1 (rn_turns env) = Some (a2, o2)"
    using assms(2) by (auto simp: fmma_app_run_def a1_def Let_def bind_eq_Some_conv)
  obtain a3 o3 where 3: "report a2 (rn_report env) = (a3, o3)" by fastforce
  have res: "a' = a3" "outs = o2 @ o3" "rc = 0"
    using assms(2) 2 3 by (auto simp: fmma_app_run_def a1_def [symmetric] Let_def)
  have q: "app_step a [] a1"
    by (rule app_step.Quiet) (auto simp: a1_def app_frame_def device_frame_def)
  show "app_steps a outs a'" "rc = 0"
    using app_steps.Step [OF q app_steps_append [OF app_loop_steps [OF assms(1) 2] app_steps_single [OF report_step [OF 3]]]]
    by (simp_all add: res)
qed
section \<open>The order table, abstractly\<close>

text \<open>Each slot is the side of the order it follows, or nothing.\<close>

definition lots :: "fmma_exec \<Rightarrow> u32 option list" where
  "lots e = map (\<lambda>p. if p_active p then Some (p_side p) else None) (ex_pending e)"

definition cb_lots :: "fmma_exec \<Rightarrow> cb_result \<Rightarrow> bool" where
  "cb_lots e r \<longleftrightarrow>
     cb_fill r = None \<and> (lots (cb_exec r) = lots e \<or> (\<exists>i. lots (cb_exec r) = (lots e)[i := None])) \<or>
     (\<exists>i sd price. i < length (lots e) \<and> lots e ! i = Some sd \<and> lots (cb_exec r) = (lots e)[i := None] \<and>
        cb_fill r = Some (if sd = FMMA_SIGNAL_BUY then FMMA_FILL_BOUGHT else FMMA_FILL_SOLD, 1, price))"

lemma lots_set_slot [simp]:
  "lots (set_slot e i p) = (lots e)[i := if p_active p then Some (p_side p) else None]"
  by (simp add: lots_def map_update)

lemma lots_same [simp]:
  "i < length (ex_pending e) \<Longrightarrow>
     (lots e)[i := if p_active (ex_pending e ! i) then Some (p_side (ex_pending e ! i)) else None] = lots e"
  by (rule list_update_same_conv [THEN iffD2]) (simp_all add: lots_def)

lemma lots_update_id:
  assumes "i < length (ex_pending e)" "p_active p = p_active (ex_pending e ! i)" "p_side p = p_side (ex_pending e ! i)"
  shows "(lots e)[i := if p_active p then Some (p_side p) else None] = lots e"
  unfolding assms(2,3) by (rule lots_same [OF assms(1)])

lemma lots_clear_query [simp]: "lots (clear_query e i) = lots e"
proof (cases "i < length (ex_pending e)")
  case True
  then show ?thesis using lots_update_id [OF True, of "(ex_pending e ! i)\<lparr>p_query_in_flight := False\<rparr>"]
    by (simp add: clear_query_def)
qed (simp add: clear_query_def list_update_beyond lots_def)

lemma lots_last_order [simp]: "lots (e\<lparr>ex_last_order_ms := t\<rparr>) = lots e"
  by (simp add: lots_def)

lemma settle_lots:
  assumes "settle e s i st price 1 = (e', s', f)" "i < length (ex_pending e)"
  shows "f = None \<and> (lots e' = lots e \<or> lots e' = (lots e)[i := None]) \<or>
    (\<exists>sd. lots e ! i = Some sd \<and> lots e' = (lots e)[i := None] \<and>
       f = Some (if sd = FMMA_SIGNAL_BUY then FMMA_FILL_BOUGHT else FMMA_FILL_SOLD, 1, price))"
proof (cases "p_active (ex_pending e ! i)")
  case False
  then show ?thesis using assms(1) by (simp add: settle_def)
next
  case True
  then have "lots e ! i = Some (p_side (ex_pending e ! i))" using assms(2) by (simp add: lots_def)
  then show ?thesis using assms(1) True by (auto simp: settle_def Let_def split: if_splits)
qed

lemma cb_lotsI:
  assumes "i < length (ex_pending e)" "cb_fill r = f" "lots (cb_exec r) = ls"
    "f = None \<and> (ls = lots e \<or> ls = (lots e)[i := None]) \<or>
    (\<exists>sd. lots e ! i = Some sd \<and> ls = (lots e)[i := None] \<and>
       f = Some (if sd = FMMA_SIGNAL_BUY then FMMA_FILL_BOUGHT else FMMA_FILL_SOLD, 1, price))"
  shows "cb_lots e r"
proof -
  have "i < length (lots e)" using assms(1) by (simp add: lots_def)
  then show ?thesis using assms(2-4) unfolding cb_lots_def by blast
qed

lemma order_cb_lots:
  assumes "exec_ok e" "ctx_ok ctx" "order_cb e s ctx ev = Some r"
  shows "cb_lots e r"
proof (cases ctx)
  case None
  then show ?thesis using assms(3) by (auto simp: cb_keep_def cb_lots_def)
next
  case (Some i)
  have i: "i < length (ex_pending e)" using assms(1,2) Some by (simp add: exec_ok_def)
  show ?thesis
  proof (cases ev)
    case (EvHttp status b)
    show ?thesis
    proof (cases "200 \<le> status \<and> status < 300")
      case True
      have id: "lots (set_slot e i ((ex_pending e ! i)\<lparr>p_id := oid\<rparr>)) = lots e" for oid
        using lots_update_id [OF i, of "(ex_pending e ! i)\<lparr>p_id := oid\<rparr>"] by simp
      show ?thesis
      proof (cases rule: order_response_cases [of e s i "body_text b"])
        case (working oid)
        then show ?thesis using assms(3) True id [of oid] by (auto simp: Some EvHttp cb_keep_def cb_lots_def)
      next
        case (final oid st price)
        let ?e = "set_slot e i ((ex_pending e ! i)\<lparr>p_id := oid\<rparr>)"
        obtain e1 s1 f where st: "settle ?e s i st price 1 = (e1, s1, f)" by (metis prod_cases3)
        have r: "cb_exec r = e1" "cb_fill r = f"
          using final(3) assms(3) True by (auto simp: Some EvHttp cb_keep_def st)
        have "i < length (ex_pending ?e)" using i by simp
        from settle_lots [OF st this] show ?thesis using i r(2)
          unfolding id by (intro cb_lotsI [OF i r(2)]) (simp_all add: r)
      qed
    next
      case False
      then show ?thesis using assms(3) by (intro cb_lotsI [OF i refl refl]) (auto simp: Some EvHttp cb_keep_def)
    qed
  qed (use assms(3) in \<open>auto simp: Some cb_keep_def intro!: cb_lotsI [OF i refl refl]\<close>)
qed

lemma query_cb_lots:
  assumes "exec_ok e" "ctx_ok ctx" "query_cb e s ctx ev = Some r"
  shows "cb_lots e r"
proof (cases ctx)
  case None
  then show ?thesis using assms(3) by (auto simp: cb_keep_def cb_lots_def)
next
  case (Some i)
  have i: "i < length (ex_pending e)" using assms(1,2) Some by (simp add: exec_ok_def)
  show ?thesis
  proof (cases ev)
    case (EvHttp status b)
    show ?thesis
    proof (cases rule: query_response_cases [of e s i "body_text b"])
      case working
      then show ?thesis using assms(3) by (auto simp: Some EvHttp cb_keep_def cb_lots_def)
    next
      case (final st price)
      obtain e1 s1 f where st: "settle e s i st price 1 = (e1, s1, f)" by (metis prod_cases3)
      have r: "cb_fill r = f" "lots (cb_exec r) = lots e1"
        using final(3) assms(3) by (auto simp: Some EvHttp cb_keep_def st)
      show ?thesis by (rule cb_lotsI [OF i r settle_lots [OF st i]])
    next
      case nothing
      then show ?thesis using assms(3) by (intro cb_lotsI [OF i refl refl]) (auto simp: Some EvHttp cb_keep_def)
    qed
  qed (use assms(3) in \<open>auto simp: Some cb_keep_def cb_lots_def\<close>)
qed

lemma send_request_sent:
  "sr_request (fmma_exec_send e s cfg side mark now_ms now_us ca co) \<noteq> None \<longleftrightarrow>
   sr_rc (fmma_exec_send e s cfg side mark now_ms now_us ca co) = 0"
  by (auto simp: fmma_exec_send_def Let_def split: option.splits prod.splits)

lemma send_lots:
  obtains (same) "lots (sr_exec (fmma_exec_send e s cfg side mark now_ms now_us ca co)) = lots e"
  | (sent) i where "i < length (lots e)" "lots e ! i = None"
      "lots (sr_exec (fmma_exec_send e s cfg side mark now_ms now_us ca co)) = (lots e)[i := Some side]"
proof (cases rule: send_cases [of e s cfg side mark now_ms now_us ca co])
  case (dropped i p)
  then have "(lots e)[i := None] = lots e" using lots_same [of i e] by simp
  then show ?thesis using dropped that(1) by simp
next
  case (sent i)
  then show ?thesis using that(2) [of i] by (simp add: lots_def map_update)
qed (use that(1) in simp_all)

lemma poll_slots_lots:
  "poll_slots e now period ca co i ps s = (ps1, s1, qs) \<Longrightarrow>
     list_all2 (\<lambda>p p1. p_active p1 \<longrightarrow> p_active p \<and> p_side p1 = p_side p) ps ps1"
proof (induction e now period ca co i ps s arbitrary: ps1 s1 qs rule: poll_slots.induct)
  case (2 e now period ca co i p ps s)
  obtain p1 s' q where p: "poll_slot e now period (ca i) (co i) s p = (p1, s', q)" by (metis prod_cases3)
  obtain ps2 s2 qs2 where r: "poll_slots e now period ca co (Suc i) ps s' = (ps2, s2, qs2)" by (metis prod_cases3)
  have "p_active p1 \<longrightarrow> p_active p \<and> p_side p1 = p_side p"
    using p by (auto simp: poll_slot_def Let_def split: if_splits)
  then show ?case using "2.prems" "2.IH" [OF p [symmetric]] r by (auto simp: p)
qed simp
section \<open>Invariants of the running application\<close>

text \<open>
  What it takes for a predicate to survive a whole run, whatever the network, the fabric and the
  clock do: every small step keeps it, and emits only outputs it allows.
\<close>

locale app_invariant =
  fixes inv :: "fmma_app \<Rightarrow> bool" and allowed :: "app_out \<Rightarrow> bool"
  assumes preserved: "inv a \<Longrightarrow> app_step a outs a' \<Longrightarrow> inv a' \<and> list_all allowed outs"
begin

lemma steps: "app_steps a outs a' \<Longrightarrow> inv a \<Longrightarrow> inv a' \<and> list_all allowed outs"
  by (induction rule: app_steps.induct) (auto dest: preserved)

lemma loop:
  "inv a \<Longrightarrow> list_all turn_ok ts \<Longrightarrow> app_loop a ts = Some (a', outs) \<Longrightarrow> inv a' \<and> list_all allowed outs"
  using steps app_loop_steps by blast

lemma run:
  "inv a \<Longrightarrow> list_all turn_ok (rn_turns env) \<Longrightarrow> fmma_app_run a env = Some (a', outs, rc) \<Longrightarrow>
     inv a' \<and> list_all allowed outs"
  using steps app_run_steps(1) by blast

end

text \<open>The two outcomes of acting on a decision.\<close>

lemma act_on_cases:
  assumes "act_on a side env = (a', outs)"
  obtains (refused) v where
      "fmma_risk_check (ap_risk a) (fmma_stats_feed_age_us (ap_stats a) (ae_age_now env)) = (ap_risk a', v)"
      "v \<noteq> FMMA_RISK_OK" "a' = a\<lparr>ap_risk := ap_risk a'\<rparr>"
      "outs = [] \<or> outs = map Bus (fmma_fpga_set_enabled (ap_fpga a) False)"
  | (passed) r where
      "fmma_risk_check (ap_risk a) (fmma_stats_feed_age_us (ap_stats a) (ae_age_now env)) = (ap_risk a, FMMA_RISK_OK)"
      "r = fmma_exec_send (ap_exec a) (ap_stats a) (ap_cfg a) side (ap_last_mid a)
             (ae_now_ms env) (ae_now_us env) (ae_calloc env) (ae_connect env)"
      "a' = a\<lparr>ap_exec := sr_exec r, ap_stats := sr_stats r\<rparr>"
      "outs = (case sr_request r of None \<Rightarrow> [] | Some (slot, text) \<Rightarrow> [Post slot text])"
proof -
  obtain risk v where c: "fmma_risk_check (ap_risk a) (fmma_stats_feed_age_us (ap_stats a) (ae_age_now env)) = (risk, v)"
    by fastforce
  show ?thesis
  proof (cases "v = FMMA_RISK_OK")
    case True
    then have "risk = ap_risk a" using c by (auto simp: fmma_risk_check_def split: if_splits)
    then show ?thesis using assms c True that(2) [OF _ refl] by (auto simp: act_on_def Let_def)
  next
    case False
    then show ?thesis using assms c that(1) [of v] by (auto simp: act_on_def Let_def)
  qed
qed

lemma check_keeps:
  assumes "fmma_risk_check r age = (r', v)"
  shows "risk_position r' = risk_position r" "risk_halted r \<Longrightarrow> v = FMMA_RISK_HALTED \<and> r' = r"
  using assms by (auto simp: fmma_risk_check_def fmma_risk_halt_def split: if_splits)

lemma act_on_frame:
  assumes "act_on a side env = (a', outs)"
  shows "ap_cfg a' = ap_cfg a" "ap_soft a' = ap_soft a" "ap_fpga a' = ap_fpga a"
    "risk_position (ap_risk a') = risk_position (ap_risk a)"
proof -
  have "ap_cfg a' = ap_cfg a \<and> ap_soft a' = ap_soft a \<and> ap_fpga a' = ap_fpga a \<and>
    risk_position (ap_risk a') = risk_position (ap_risk a)"
    using assms
  proof (cases rule: act_on_cases)
    case (refused v)
    have "ap_cfg (a\<lparr>ap_risk := ap_risk a'\<rparr>) = ap_cfg a \<and> ap_soft (a\<lparr>ap_risk := ap_risk a'\<rparr>) = ap_soft a \<and>
        ap_fpga (a\<lparr>ap_risk := ap_risk a'\<rparr>) = ap_fpga a" by simp
    then show ?thesis using check_keeps(1) [OF refused(1)] refused(3) by metis
  qed simp
  then show "ap_cfg a' = ap_cfg a" "ap_soft a' = ap_soft a" "ap_fpga a' = ap_fpga a"
    "risk_position (ap_risk a') = risk_position (ap_risk a)" by auto
qed

text \<open>A callback: the order table moves, and a reported fill reaches the three position keepers.\<close>

lemma after_cb_cases:
  assumes "after_cb a r = (a', outs)"
  obtains (no_fill) "cb_fill r = None" "a' = a\<lparr>ap_exec := cb_exec r, ap_stats := cb_stats r\<rparr>"
      "outs = (if cb_tls r then [TlsStart ALPACA_HOST] else [])"
  | (a_fill) side qty price where "cb_fill r = Some (side, qty, price)"
      "a' = a\<lparr>ap_exec := cb_exec r, ap_stats := cb_stats r, ap_risk := fmma_risk_on_fill (ap_risk a) side qty price,
              ap_fpga := fst (fmma_fpga_report_fill (ap_fpga a) side qty),
              ap_soft := fmma_strategy_on_fill (ap_soft a) side qty\<rparr>"
      "outs = (if cb_tls r then [TlsStart ALPACA_HOST] else []) @ map Bus (snd (fmma_fpga_report_fill (ap_fpga a) side qty))"
proof (cases "cb_fill r")
  case None
  then show ?thesis using assms that(1) by (auto simp: after_cb_def Let_def)
next
  case (Some f)
  obtain side qty price where f: "f = (side, qty, price)" by (cases f)
  obtain d acc where rf: "fmma_fpga_report_fill (ap_fpga a) side qty = (d, acc)" by fastforce
  show ?thesis using assms Some
    by (intro that(2) [of side qty price]) (auto simp: after_cb_def Let_def f on_fill_def rf)
qed

lemma report_fill_present [frame]:
  "fmma_fpga_present (fst (fmma_fpga_report_fill f side qty)) = fmma_fpga_present f"
  "fst (fmma_fpga_report_fill f side qty) = None \<longleftrightarrow> f = None"
  by (cases f; auto simp: fmma_fpga_report_fill_def fmma_fpga_present_def Let_def)+

lemma report_fill_absent: "\<not> fmma_fpga_present f \<Longrightarrow> snd (fmma_fpga_report_fill f side qty) = []"
  by (cases f) (auto simp: fmma_fpga_report_fill_def)

lemma frame_device: "app_frame a a' \<Longrightarrow> has_device a' = has_device a"
  by (cases "ap_fpga a"; cases "ap_fpga a'")
    (auto simp: app_frame_def device_frame_def has_device_def fmma_fpga_present_def)

lemma frame_no_fpga: "app_frame a a' \<Longrightarrow> ap_fpga a' = None \<longleftrightarrow> ap_fpga a = None"
  by (cases "ap_fpga a"; cases "ap_fpga a'") (auto simp: app_frame_def device_frame_def)

text \<open>No order leaves a halted application.\<close>

fun no_post :: "app_out \<Rightarrow> bool" where
  "no_post (Post slot t) = False"
| "no_post _ = True"

lemma act_on_halted:
  assumes "act_on a side env = (a', outs)" "risk_halted (ap_risk a)"
  shows "risk_halted (ap_risk a') \<and> list_all no_post outs"
  using assms(1)
proof (cases rule: act_on_cases)
  case (refused v)
  then show ?thesis using check_keeps(2) [OF refused(1)] assms(2) by (auto simp: list_all_iff)
next
  case (passed r)
  then show ?thesis using assms(2) by (simp add: fmma_risk_check_def)
qed

lemma after_cb_halted:
  assumes "after_cb a r = (a', outs)" "risk_halted (ap_risk a)"
  shows "risk_halted (ap_risk a') \<and> list_all no_post outs"
  by (cases rule: after_cb_cases [OF assms(1)]) (use assms(2) in \<open>auto simp: frame list_all_iff\<close>)

lemma quiet_no_post: "quiet_out dev x \<Longrightarrow> no_post x"
  by (cases "(dev, x)" rule: quiet_out.cases) auto

interpretation halted: app_invariant "\<lambda>a. risk_halted (ap_risk a)" no_post
proof
  fix a outs a'
  assume h: "risk_halted (ap_risk a)" and "app_step a outs a'"
  from this(2) show "risk_halted (ap_risk a') \<and> list_all no_post outs"
  proof (cases rule: app_step.cases)
    case (SoftOrder bid ask soft side env)
    then show ?thesis using act_on_halted [OF SoftOrder(4)] h by simp
  next
    case (PollWorking t)
    then show ?thesis using h by (auto simp: poll_orders_def list_all_iff split: prod.splits)
  qed (use h in \<open>auto simp: app_frame_def frame list_all_iff intro: quiet_no_post
      dest: after_cb_halted act_on_halted\<close>)
qed

text \<open>Without a device nothing touches the bus, and the device stays absent; a present one stays present.\<close>

fun no_bus :: "app_out \<Rightarrow> bool" where
  "no_bus (Bus x) = False"
| "no_bus _ = True"

lemma quiet_no_bus: "quiet_out False x \<Longrightarrow> no_bus x"
  by (cases "(False, x)" rule: quiet_out.cases) auto

lemma poll_orders_frame:
  assumes "poll_orders a t = (a', outs)"
  shows "ap_cfg a' = ap_cfg a" "ap_soft a' = ap_soft a" "ap_fpga a' = ap_fpga a" "ap_risk a' = ap_risk a"
    "\<And>x. x \<in> set outs \<Longrightarrow> quiet_out dev x"
  using assms by (auto simp: poll_orders_def split: prod.splits)

lemma act_on_device:
  assumes "act_on a side env = (a', outs)" "\<not> has_device a"
  shows "list_all no_bus outs"
  by (cases rule: act_on_cases [OF assms(1)])
    (use assms(2) in \<open>auto simp: has_device_def fmma_fpga_set_enabled_def list_all_iff split: option.splits\<close>)

lemma step_device: "app_step a outs a' \<Longrightarrow> has_device a' = has_device a"
proof (induction rule: app_step.induct)
  case (OrderCb ctx a ev r a' outs)
  from OrderCb(3) show ?case by (cases rule: after_cb_cases) (auto simp: has_device_def frame)
next
  case (QueryCb ctx a ev r a' outs)
  from QueryCb(3) show ?case by (cases rule: after_cb_cases) (auto simp: has_device_def frame)
next
  case (Quiet a a' outs)
  then show ?case by (simp add: frame_device)
qed (auto simp: has_device_def act_on_frame poll_orders_frame)

interpretation software: app_invariant "\<lambda>a. \<not> has_device a" no_bus
proof
  fix a outs a'
  assume h: "\<not> has_device a" and st: "app_step a outs a'"
  from st have "list_all no_bus outs"
  proof (cases rule: app_step.cases)
    case (OrderCb ctx ev r)
    from OrderCb(3) show ?thesis by (cases rule: after_cb_cases) (use h in \<open>auto simp: has_device_def report_fill_absent\<close>)
  next
    case (QueryCb ctx ev r)
    from QueryCb(3) show ?thesis by (cases rule: after_cb_cases) (use h in \<open>auto simp: has_device_def report_fill_absent\<close>)
  next
    case (SoftOrder bid ask soft side env)
    then show ?thesis using act_on_device [OF SoftOrder(4)] h by (simp add: has_device_def)
  next
    case (PollWorking t)
    then show ?thesis by (auto simp: list_all_iff intro: quiet_no_bus poll_orders_frame(5))
  qed (use h in \<open>auto simp: list_all_iff intro: quiet_no_bus\<close>)
  then show "\<not> has_device a' \<and> list_all no_bus outs" using step_device [OF st] h by simp
qed

interpretation device: app_invariant has_device "\<lambda>_. True"
  by unfold_locales (auto simp: step_device list_all_iff)
section \<open>Positions\<close>

text \<open>Every fill goes to the books and to the strategy; the two keepers agree.\<close>

interpretation keepers: two_keepers strat_position "\<lambda>s side qty price. fmma_strategy_on_fill s side qty"
  risk_position fmma_risk_on_fill
  by unfold_locales

definition positions_ok :: "fmma_app \<Rightarrow> bool" where
  "positions_ok a \<longleftrightarrow> in32 (risk_position (ap_risk a)) \<and> strat_position (ap_soft a) = risk_position (ap_risk a)"

text \<open>
  The fills a reader of the shared RAM sees: the side and quantity words as they are when the fill
  counter is stored.
\<close>

fun publish :: "u32 \<times> u32 \<Rightarrow> app_out list \<Rightarrow> (u32 \<times> u32) \<times> fill list" where
  "publish (sd, q) [] = ((sd, q), [])"
| "publish (sd, q) (Bus (Store w v) # xs) =
     (if w = FMMA_FILL_SIDE then publish (v, q) xs
      else if w = FMMA_FILL_QTY then publish (sd, v) xs
      else if w = FMMA_FILL_SEQ then (case publish (sd, q) xs of (p, fs) \<Rightarrow> (p, (sd, q, 0) # fs))
      else publish (sd, q) xs)"
| "publish p (x # xs) = publish p xs"

definition published_fills :: "app_out list \<Rightarrow> fill list" where
  "published_fills outs = snd (publish (0, 0) outs)"

lemma publish_append:
  "publish p (xs @ ys) =
     (case publish p xs of (p1, f1) \<Rightarrow> case publish p1 ys of (p2, f2) \<Rightarrow> (p2, f1 @ f2))"
  by (induction p xs rule: publish.induct) (auto split: prod.splits)

lemma publish_quiet:
  assumes "list_all (\<lambda>x. case x of Bus (Store w v) \<Rightarrow> w \<notin> {FMMA_FILL_SIDE, FMMA_FILL_QTY, FMMA_FILL_SEQ} | _ \<Rightarrow> True) xs"
  shows "publish p xs = (p, [])"
  using assms by (induction p xs rule: publish.induct) auto

lemma quiet_publish: "list_all (quiet_out dev) xs \<Longrightarrow> publish p xs = (p, [])"
  by (rule publish_quiet) (auto simp: list_all_iff split: app_out.splits access.splits)

lemma net_fills_append [simp]: "net_fills (xs @ ys) = net_fills xs + net_fills ys"
  by (induction xs rule: net_fills.induct) auto

lemma act_on_publish:
  assumes "act_on a side env = (a', outs)"
  shows "publish p outs = (p, [])"
  by (rule publish_quiet; cases rule: act_on_cases [OF assms])
    (auto simp: fmma_fpga_set_enabled_def list_all_iff split: option.splits if_splits)

lemma fill_positions:
  assumes "positions_ok a"
  shows "\<And>price. risk_position (fmma_risk_on_fill (ap_risk a) side qty price) = s32 (risk_position (ap_risk a) + fill_delta side qty)"
    "strat_position (fmma_strategy_on_fill (ap_soft a) side qty) = s32 (risk_position (ap_risk a) + fill_delta side qty)"
  using assms risk_pos.pos_fill [of "ap_risk a" side qty]
    keepers.agree [of "ap_soft a" "ap_risk a" "[(side, qty, 0)]"]
  by (auto simp: positions_ok_def)

lemma after_cb_positions:
  assumes "after_cb a r = (a', outs)" "positions_ok a"
  shows "positions_ok a' \<and> (has_device a \<longrightarrow>
    risk_position (ap_risk a') = s32 (risk_position (ap_risk a) + net_fills (snd (publish p outs))))"
  using assms(1)
proof (cases rule: after_cb_cases)
  case no_fill
  then show ?thesis using assms(2) by (auto simp: positions_ok_def s32_in32 publish_quiet)
next
  case (a_fill side qty price)
  have ok: "positions_ok a'" using fill_positions [OF assms(2), of side qty] by (simp add: a_fill(2) positions_ok_def)
  moreover have "net_fills (snd (publish p outs)) = fill_delta side qty" if "has_device a"
    using that
    by (cases p; cases "ap_fpga a")
      (auto simp: a_fill(3) has_device_def fmma_fpga_report_fill_def fmma_fpga_present_def Let_def publish_append)
  ultimately show ?thesis using fill_positions [OF assms(2), of side qty] by (simp add: a_fill(2))
qed

lemma strategy_quote_keeps:
  "strat_position (fst (fmma_strategy_on_quote s b k)) = strat_position s"
  "strat_max_position (fst (fmma_strategy_on_quote s b k)) = strat_max_position s"
  by (auto simp: fmma_strategy_on_quote_def Let_def)

lemma positions_frame:
  assumes "positions_ok a" "strat_position (ap_soft a') = strat_position (ap_soft a)"
    "risk_position (ap_risk a') = risk_position (ap_risk a)" "publish p outs = (p, [])"
  shows "positions_ok a' \<and> (has_device a \<longrightarrow>
    risk_position (ap_risk a') = s32 (risk_position (ap_risk a) + net_fills (snd (publish p outs))))"
  using assms by (auto simp: positions_ok_def s32_in32)

lemma step_positions:
  assumes "app_step a outs a'" "positions_ok a"
  shows "positions_ok a' \<and> (has_device a \<longrightarrow>
    risk_position (ap_risk a') = s32 (risk_position (ap_risk a) + net_fills (snd (publish p outs))))"
  using assms(1)
proof (cases rule: app_step.cases)
  case Quiet
  then show ?thesis by (intro positions_frame [OF assms(2)]) (auto simp: app_frame_def quiet_publish)
next
  case (OrderCb ctx ev r)
  then show ?thesis using after_cb_positions assms(2) by blast
next
  case (QueryCb ctx ev r)
  then show ?thesis using after_cb_positions assms(2) by blast
next
  case (Mark mid)
  then show ?thesis by (intro positions_frame [OF assms(2)]) (auto simp: frame publish_quiet)
next
  case (Decide bid ask soft)
  then show ?thesis using strategy_quote_keeps(1) [of "ap_soft a" bid ask]
    by (intro positions_frame [OF assms(2)]) (auto simp: publish_quiet)
next
  case (SoftOrder bid ask soft side env)
  then show ?thesis using strategy_quote_keeps(1) [of "ap_soft a" bid ask] act_on_frame [OF SoftOrder(4)]
    by (intro positions_frame [OF assms(2)]) (auto simp: act_on_publish [OF SoftOrder(4)])
next
  case (FabricOrder side env)
  then show ?thesis using act_on_frame [OF FabricOrder(3)]
    by (intro positions_frame [OF assms(2)]) (auto simp: act_on_publish [OF FabricOrder(3)])
next
  case (PollWorking t)
  have "publish p outs = (p, [])"
    using poll_orders_frame(5) [OF PollWorking(1), where dev = True]
    by (intro quiet_publish [of True]) (auto simp: list_all_iff)
  then show ?thesis using poll_orders_frame(1-4) [OF PollWorking(1)]
    by (intro positions_frame [OF assms(2)]) auto
qed

interpretation agree: app_invariant positions_ok "\<lambda>_. True"
  by unfold_locales (auto simp: list_all_iff dest: step_positions)

lemma steps_published:
  "app_steps a outs a' \<Longrightarrow> positions_ok a \<Longrightarrow> has_device a \<Longrightarrow>
     risk_position (ap_risk a') = s32 (risk_position (ap_risk a) + net_fills (snd (publish p outs)))"
proof (induction arbitrary: p rule: app_steps.induct)
  case (Refl a)
  then show ?case by (cases p) (simp add: positions_ok_def s32_in32)
next
  case (Step a o1 a1 o2 a2)
  obtain p1 f1 where p1: "publish p o1 = (p1, f1)" by fastforce
  obtain p2 f2 where p2: "publish p1 o2 = (p2, f2)" by fastforce
  have "risk_position (ap_risk a1) = s32 (risk_position (ap_risk a) + net_fills f1)" "positions_ok a1" "has_device a1"
    using step_positions [OF Step(1,4), of p] Step(5) step_device [OF Step(1)] by (auto simp: p1)
  then show ?case using Step(3) [of p1] by (simp add: publish_append p1 p2 s32_add_left add.assoc)
qed
section \<open>The position limit in software mode\<close>

fun buying :: "u32 option \<Rightarrow> bool" where
  "buying None = False"
| "buying (Some side) = (side = FMMA_SIGNAL_BUY)"

fun selling :: "u32 option \<Rightarrow> bool" where
  "selling None = False"
| "selling (Some side) = (side \<noteq> FMMA_SIGNAL_BUY)"

definition lot_count :: "(u32 option \<Rightarrow> bool) \<Rightarrow> u32 option list \<Rightarrow> int" where
  "lot_count P ls = int (length (filter P ls))"

definition working_buys :: "fmma_app \<Rightarrow> int" where
  "working_buys a = lot_count buying (lots (ap_exec a))"

definition working_sells :: "fmma_app \<Rightarrow> int" where
  "working_sells a = lot_count selling (lots (ap_exec a))"

text \<open>
  With limit \<open>m\<close>, what the position can become if every working order fills stays within \<open>m + 7\<close>:
  seven of the eight slots can be taken while the position is still below the limit.
\<close>

definition limit_inv :: "int \<Rightarrow> fmma_app \<Rightarrow> bool" where
  "limit_inv m a \<longleftrightarrow> \<not> has_device a \<and> exec_ok (ap_exec a) \<and>
     sint (strat_max_position (ap_soft a)) = m \<and> 0 \<le> m \<and> m \<le> 2147483640 \<and>
     strat_position (ap_soft a) + working_buys a \<le> m + 7 \<and> - (m + 7) \<le> strat_position (ap_soft a) - working_sells a"

lemma lot_count_Cons: "lot_count P (x # xs) = (if P x then 1 else 0) + lot_count P xs"
  by (simp add: lot_count_def)

lemma lot_count_Nil: "lot_count P [] = 0"
  by (simp add: lot_count_def)

lemma lot_count_update:
  "i < length xs \<Longrightarrow> lot_count P (xs[i := x]) = lot_count P xs - (if P (xs ! i) then 1 else 0) + (if P x then 1 else 0)"
proof (induction xs arbitrary: i)
  case (Cons y ys)
  show ?case
  proof (cases i)
    case (Suc j)
    then show ?thesis using Cons.IH [of j] Cons.prems by (simp only: lot_count_Cons list_update_code nth_Cons_Suc) simp
  qed (simp add: lot_count_Cons)
qed simp

lemma lot_count_clear:
  assumes "\<not> P None"
  shows "lot_count P (xs[i := None]) \<le> lot_count P xs"
proof (cases "i < length xs")
  case True
  then show ?thesis using lot_count_update [of i xs P None] assms by (simp split: if_splits)
qed (simp add: list_update_beyond)

lemma lot_count_all2:
  "list_all2 (\<lambda>x y. y = None \<or> x = y) xs ys \<Longrightarrow> \<not> P None \<Longrightarrow> lot_count P ys \<le> lot_count P xs"
  by (induction rule: list_all2_induct) (auto simp: lot_count_Cons)

lemma working_nonneg: "0 \<le> working_buys a" "0 \<le> working_sells a"
  by (simp_all add: working_buys_def working_sells_def lot_count_def)

lemma lot_count_sides: "lot_count buying ls + lot_count selling ls \<le> int (length ls)"
proof (induction ls)
  case (Cons x xs)
  then show ?case by (cases x) (simp_all add: lot_count_Cons)
qed (simp add: lot_count_Nil)

lemma working_le_8: "exec_ok (ap_exec a) \<Longrightarrow> working_buys a + working_sells a \<le> 8"
  using lot_count_sides [of "lots (ap_exec a)"] by (simp add: working_buys_def working_sells_def exec_ok_def lots_def)

text \<open>A strategy that asks for a side is inside the limit on that side.\<close>

lemma strategy_signal_inside:
  assumes "fmma_strategy_on_quote s b k = (s', side)" "side \<noteq> FMMA_SIGNAL_NONE" "0 \<le> sint (strat_max_position s)"
  shows "side = FMMA_SIGNAL_BUY \<and> strat_position s < sint (strat_max_position s) \<or>
    side = FMMA_SIGNAL_SELL \<and> - sint (strat_max_position s) < strat_position s"
proof -
  have "s32 (- sint (strat_max_position s)) = - sint (strat_max_position s)"
    using assms(3) sint_u32_bounds [of "strat_max_position s"] by (intro s32_lim) linarith+
  then show ?thesis using assms(1,2)
    by (auto simp: fmma_strategy_on_quote_def strategy_want_def Let_def split: if_splits)
qed

text \<open>The table under a callback, a send and a poll.\<close>

lemma limit_frame:
  assumes "limit_inv m a" "ap_soft a' = ap_soft a \<or> (\<exists>b k. ap_soft a' = fst (fmma_strategy_on_quote (ap_soft a) b k))"
    "has_device a' = has_device a" "exec_ok (ap_exec a')"
    "working_buys a' \<le> working_buys a" "working_sells a' \<le> working_sells a"
  shows "limit_inv m a'"
  using assms by (auto simp: limit_inv_def strategy_quote_keeps)

lemma limit_after_cb:
  assumes "limit_inv m a" "after_cb a r = (a', outs)" "cb_lots (ap_exec a) r" "exec_ok (cb_exec r)" "has_device a' = has_device a"
  shows "limit_inv m a'"
  using assms(2)
proof (cases rule: after_cb_cases)
  case no_fill
  then have "lots (cb_exec r) = lots (ap_exec a) \<or> (\<exists>i. lots (cb_exec r) = (lots (ap_exec a))[i := None])"
    using assms(3) by (auto simp: cb_lots_def)
  then show ?thesis using no_fill assms(4,5)
    by (intro limit_frame [OF assms(1)])
      (auto simp: working_buys_def working_sells_def intro!: lot_count_clear)
next
  case (a_fill side qty price)
  then obtain i sd where l: "i < length (lots (ap_exec a))" "lots (ap_exec a) ! i = Some sd"
      "lots (cb_exec r) = (lots (ap_exec a))[i := None]"
      "side = (if sd = FMMA_SIGNAL_BUY then FMMA_FILL_BOUGHT else FMMA_FILL_SOLD)" "qty = 1"
    using assms(3) by (auto simp: cb_lots_def)
  have w: "working_buys a' = working_buys a - (if sd = FMMA_SIGNAL_BUY then 1 else 0)"
    "working_sells a' = working_sells a - (if sd = FMMA_SIGNAL_BUY then 0 else 1)"
    using l(1,2) by (simp_all add: a_fill(2) working_buys_def working_sells_def l(3) lot_count_update)
  let ?p = "strat_position (ap_soft a)"
  have b: "?p + working_buys a \<le> m + 7" "- (m + 7) \<le> ?p - working_sells a" "0 \<le> m" "m \<le> 2147483640"
    using assms(1) by (auto simp: limit_inv_def)
  have in32: "s32 (?p + 1) = ?p + 1" if "sd = FMMA_SIGNAL_BUY"
    using b w(1) working_nonneg [of a] working_nonneg [of a'] that by (intro s32_lim) auto
  have in32': "s32 (?p - 1) = ?p - 1" if "sd \<noteq> FMMA_SIGNAL_BUY"
    using b w(2) working_nonneg [of a] working_nonneg [of a'] that by (intro s32_lim) auto
  have pos: "strat_position (ap_soft a') = (if sd = FMMA_SIGNAL_BUY then ?p + 1 else ?p - 1)"
    using in32 in32' by (simp add: a_fill(2) fmma_strategy_on_fill_def l(4,5))
  have mx: "strat_max_position (ap_soft a') = strat_max_position (ap_soft a)"
    by (simp add: a_fill(2) fmma_strategy_on_fill_def)
  show ?thesis using assms(1,4,5) w pos mx by (auto simp: limit_inv_def a_fill(2))
qed

lemma limit_act_on:
  assumes "limit_inv m a" "fmma_strategy_on_quote (ap_soft a) b k = (soft, side)" "side \<noteq> FMMA_SIGNAL_NONE"
    "act_on (a\<lparr>ap_soft := soft\<rparr>) side env = (a', outs)"
  shows "limit_inv m a'"
proof -
  note ex = assms(1) [unfolded limit_inv_def]
  have soft: "ap_soft a' = fst (fmma_strategy_on_quote (ap_soft a) b k)" "ap_fpga a' = ap_fpga a"
    using act_on_frame [OF assms(4)] assms(2) by simp_all
  then have dev: "has_device a' = has_device a" by (simp add: has_device_def)
  from assms(4) show ?thesis
  proof (cases rule: act_on_cases)
    case (refused v)
    then have "ap_exec a' = ap_exec a" by (metis fmma_app.surjective fmma_app.update_convs(6,7) fmma_app.select_convs(4))
    then show ?thesis using ex soft dev
      by (intro limit_frame [OF assms(1)]) (auto simp: working_buys_def working_sells_def)
  next
    case (passed r)
    have ok: "exec_ok (ap_exec a')"
      by (rule send_cases [of "ap_exec a" "ap_stats a" "ap_cfg a" side "ap_last_mid a" "ae_now_ms env" "ae_now_us env"
            "ae_calloc env" "ae_connect env"])
        (use ex passed in \<open>auto simp: exec_ok_def\<close>)
    show ?thesis
    proof (cases rule: send_lots [of "ap_exec a" "ap_stats a" "ap_cfg a" side "ap_last_mid a" "ae_now_ms env" "ae_now_us env"
          "ae_calloc env" "ae_connect env"])
      case same
      then show ?thesis using passed soft dev ok
        by (intro limit_frame [OF assms(1)]) (auto simp: working_buys_def working_sells_def)
    next
      case (sent i)
      have w: "working_buys a' = working_buys a + (if side = FMMA_SIGNAL_BUY then 1 else 0)"
        "working_sells a' = working_sells a + (if side = FMMA_SIGNAL_BUY then 0 else 1)"
        using sent passed by (simp_all add: working_buys_def working_sells_def lot_count_update)
      have "strat_position (ap_soft a') = strat_position (ap_soft a)"
        "strat_max_position (ap_soft a') = strat_max_position (ap_soft a)"
        by (simp_all add: soft strategy_quote_keeps)
      then show ?thesis
        using strategy_signal_inside [OF assms(2,3)] ex dev ok w working_le_8 [OF ok] working_nonneg [of a']
        by (auto simp: limit_inv_def)
    qed
  qed
qed

lemma poll_orders_lots:
  assumes "poll_orders a t = (a', outs)"
  shows "working_buys a' \<le> working_buys a" "working_sells a' \<le> working_sells a"
    "exec_ok (ap_exec a) \<Longrightarrow> exec_ok (ap_exec a')"
proof -
  obtain ps s qs where p: "poll_slots (ap_exec a) (te_poll_us t) (ucast (cfg_order_poll_ms (ap_cfg a)) * 1000)
      (te_poll_calloc t) (te_poll_connect t) 0 (ex_pending (ap_exec a)) (ap_stats a) = (ps, s, qs)"
    by (metis prod_cases3)
  have e: "ap_exec a' = (ap_exec a)\<lparr>ex_pending := ps\<rparr>"
    using assms by (auto simp: poll_orders_def fmma_exec_poll_def p)
  note all2 = poll_slots_lots [OF p]
  have "list_all2 (\<lambda>x y. (if p_active y then Some (p_side y) else None) = None \<or>
      (if p_active x then Some (p_side x) else None) = (if p_active y then Some (p_side y) else None))
      (ex_pending (ap_exec a)) ps"
    by (rule list_all2_mono [OF all2]) auto
  then have "list_all2 (\<lambda>x y. y = None \<or> x = y) (lots (ap_exec a)) (lots (ap_exec a'))"
    by (simp add: lots_def e list.rel_map)
  then show "working_buys a' \<le> working_buys a" "working_sells a' \<le> working_sells a"
    unfolding working_buys_def working_sells_def by (auto intro: lot_count_all2)
  show "exec_ok (ap_exec a) \<Longrightarrow> exec_ok (ap_exec a')"
    using list_all2_lengthD [OF all2] by (simp add: exec_ok_def e)
qed

lemma cb_exec_ok:
  assumes "exec_ok e" "ctx_ok ctx" "order_cb e s ctx ev = Some r \<or> query_cb e s ctx ev = Some r"
  shows "exec_ok (cb_exec r)"
proof (cases ctx)
  case None
  then show ?thesis using assms(1,3) by (auto simp: cb_keep_def)
next
  case (Some i)
  then show ?thesis using assms order_cb_spec(1) [of i e s ev r] query_cb_spec(1) [of i e s ev r]
    by (auto simp: exec_ok_def)
qed

lemma step_limit:
  assumes "app_step a outs a'" "limit_inv m a"
  shows "limit_inv m a'"
  using assms(1)
proof (cases rule: app_step.cases)
  case Quiet
  then show ?thesis using assms(2) step_device [OF assms(1)]
    by (intro limit_frame [OF assms(2)])
      (auto simp: app_frame_def working_buys_def working_sells_def limit_inv_def)
next
  case (OrderCb ctx ev r)
  then show ?thesis using assms(2) step_device [OF assms(1)]
    by (intro limit_after_cb [OF assms(2) OrderCb(3)] order_cb_lots [OF _ OrderCb(1,2)] cb_exec_ok [OF _ OrderCb(1)])
      (auto simp: limit_inv_def)
next
  case (QueryCb ctx ev r)
  then show ?thesis using assms(2) step_device [OF assms(1)]
    by (intro limit_after_cb [OF assms(2) QueryCb(3)] query_cb_lots [OF _ QueryCb(1,2)] cb_exec_ok [OF _ QueryCb(1)])
      (auto simp: limit_inv_def)
next
  case (Mark mid)
  then show ?thesis using assms(2)
    by (auto simp: limit_inv_def working_buys_def working_sells_def has_device_def)
next
  case (Decide bid ask soft)
  then have "\<exists>b k. ap_soft a' = fst (fmma_strategy_on_quote (ap_soft a) b k)"
    by (intro exI [of _ bid] exI [of _ ask]) simp
  from limit_frame [OF assms(2) disjI2 [OF this]] show ?thesis using Decide assms(2)
    by (auto simp: working_buys_def working_sells_def has_device_def limit_inv_def)
next
  case (SoftOrder bid ask soft side env)
  then show ?thesis using limit_act_on [OF assms(2)] by blast
next
  case (FabricOrder side env)
  then show ?thesis using assms(2) by (simp add: limit_inv_def)
next
  case (PollWorking t)
  then show ?thesis using poll_orders_lots [OF PollWorking] poll_orders_frame [OF PollWorking] step_device [OF assms(1)] assms(2)
    by (intro limit_frame [OF assms(2)]) (auto simp: limit_inv_def)
qed

interpretation limit: app_invariant "limit_inv m" "\<lambda>_. True" for m
  by unfold_locales (auto simp: list_all_iff intro: step_limit)
section \<open>What the program guarantees\<close>

text \<open>
  C2. A halted program trades no more. Once the risk module is halted, no order leaves the program
  for the rest of the run, whatever quotes, fabric decisions, broker events and clock readings
  follow, and the halt is never lifted.
\<close>

theorem halted_app_sends_nothing:
  assumes "risk_halted (ap_risk a)" "list_all turn_ok (rn_turns env)" "fmma_app_run a env = Some (a', outs, rc)"
  shows "risk_halted (ap_risk a') \<and> (\<nexists>slot text. Post slot text \<in> set outs)"
  using halted.run [OF assms] by (auto simp: list_all_iff)



text \<open>
  C8. The position limit with orders in flight. In software mode a run that starts from a freshly
  built application with a position inside the limit never takes the position more than seven lots
  beyond the limit, on either side, and the same holds if every working order fills at once: the
  strategy counts filled lots only, and up to eight orders can be working.
\<close>

theorem position_limit_overshoot:
  assumes "fmma_app_create cfg cenv = (acc, Some a)" "\<not> cfg_use_fpga cfg"
    "uint (cfg_max_position cfg) \<le> 2147483640" "\<bar>cfg_start_position cfg\<bar> \<le> uint (cfg_max_position cfg)"
    "list_all turn_ok (rn_turns env)" "fmma_app_run a env = Some (a', outs, rc)"
  shows "\<bar>risk_position (ap_risk a')\<bar> \<le> uint (cfg_max_position cfg) + 7 \<and>
    risk_position (ap_risk a') + working_buys a' \<le> uint (cfg_max_position cfg) + 7 \<and>
    - (uint (cfg_max_position cfg) + 7) \<le> risk_position (ap_risk a') - working_sells a'"
proof -
  have a: "ap_fpga a = None" "ap_exec a = \<lparr>ex_on_fill = True, ex_key = ce_key cenv, ex_secret = ce_secret cenv,
      ex_pending = replicate MAX_PENDING pending_zero, ex_last_order_ms = 0\<rparr>"
    "ap_soft a = fmma_strategy_init (cfg_threshold cfg) (cfg_max_position cfg) (cfg_start_position cfg)"
    "ap_risk a = fmma_risk_init (cfg_max_loss cfg) (cfg_stale_feed_ms cfg) (cfg_start_position cfg)"
    using assms(1,2)
    by (auto simp: fmma_app_create_def Let_def fmma_exec_create_def fmma_feed_create_def split: if_splits option.splits prod.splits)
  have m: "sint (cfg_max_position cfg) = uint (cfg_max_position cfg)"
    using assms(3) by (intro sint_u32_small) simp
  have "lots (ap_exec a) = replicate 8 None" by (simp add: a lots_def pending_zero_def)
  then have w: "working_buys a = 0" "working_sells a = 0"
    by (simp_all add: working_buys_def working_sells_def lot_count_def)
  have "limit_inv (uint (cfg_max_position cfg)) a"
    unfolding limit_inv_def w using assms(3,4) m
    by (simp add: a has_device_def fmma_fpga_present_def exec_ok_def fmma_strategy_init_def) linarith
  note lim = limit.run [OF this assms(5,6), THEN conjunct1]
  have "positions_ok a" using assms(3,4) by (auto simp: positions_ok_def a fmma_strategy_init_def fmma_risk_init_def in32_def)
  note eq = agree.run [OF this assms(5,6), THEN conjunct1]
  show ?thesis using lim eq working_nonneg [of a'] by (auto simp: limit_inv_def positions_ok_def)
qed

text \<open>Two successive polls of one drain see the same counter.\<close>

fun settles :: "drain_env list \<Rightarrow> bool" where
  "settles (d1 # d2 # ds) = (de_view d1 FMMA_SIGNAL_SEQ = de_view d2 FMMA_SIGNAL_SEQ \<or> settles (d2 # ds))"
| "settles _ = False"

lemma take_signal_fpga: "ap_fpga (fst (take_signal a sg d)) = ap_fpga a"
proof -
  obtain s2 l where "fmma_stats_signal (if sig_missed sg \<noteq> 0
      then (ap_stats a)\<lparr>missed_signals := missed_signals (ap_stats a) + ucast (sig_missed sg)\<rparr> else ap_stats a)
      (sig_tick sg) (de_signal_us d) = (s2, l)" by fastforce
  then show ?thesis using act_on_frame(3) [of "a\<lparr>ap_stats := s2\<rparr>" "sig_side sg" "de_act d"]
    by (cases "act_on (a\<lparr>ap_stats := s2\<rparr>) (sig_side sg) (de_act d)") (auto simp: take_signal_def Let_def)
qed

lemma drain_returns: "settles ds \<Longrightarrow> \<exists>a' outs. drain_fpga a ds = Some (a', outs)"
proof (induction ds arbitrary: a rule: settles.induct)
  case (1 d1 d2 ds)
  obtain f sgo where p: "fmma_fpga_poll_signal (ap_fpga a) (de_view d1) = (f, sgo)" by fastforce
  show ?case
  proof (cases sgo)
    case None
    then show ?thesis using p by simp
  next
    case (Some sg)
    obtain a1 o1 where t: "take_signal (a\<lparr>ap_fpga := f\<rparr>) sg d1 = (a1, o1)" by fastforce
    have f1: "ap_fpga a1 = f" using take_signal_fpga [of "a\<lparr>ap_fpga := f\<rparr>" sg d1] t by simp
    have "\<exists>a2 o2. drain_fpga a1 (d2 # ds) = Some (a2, o2)"
    proof (cases "settles (d2 # ds)")
      case True
      then show ?thesis by (rule "1.IH")
    next
      case False
      then have "de_view d2 FMMA_SIGNAL_SEQ = de_view d1 FMMA_SIGNAL_SEQ" using "1.prems" by simp
      moreover obtain d where "f = Some d" "fpga_signal_seq d = de_view d1 FMMA_SIGNAL_SEQ"
        using p Some by (auto simp: fmma_fpga_poll_signal_def Let_def split: option.splits if_splits)
      ultimately have "fmma_fpga_poll_signal f (de_view d2) = (f, None)"
        by (simp add: fmma_fpga_poll_signal_def Let_def)
      then show ?thesis using f1 by simp
    qed
    then show ?thesis using p Some t by auto
  qed
qed simp_all

lemma handle_ticker_returns: "\<exists>s' q. handle_ticker f s json = Some (s', q)"
  by (rule handle_ticker_cases [of f s json]) auto

lemma net_step_returns: "\<exists>a' outs. net_step a ev = Some (a', outs)"
proof (cases ev)
  case (OnOrder ctx e)
  obtain r where "order_cb (ap_exec a) (ap_stats a) ctx e = Some r" by (rule order_cb_total)
  then show ?thesis by (cases "after_cb a r") (auto simp: OnOrder)
next
  case (OnQuery ctx e)
  obtain r where "query_cb (ap_exec a) (ap_stats a) ctx e = Some r" by (rule query_cb_total)
  then show ?thesis by (cases "after_cb a r") (auto simp: OnQuery)
next
  case (OnFeed e m now q)
  have "\<exists>r. feed_cb (ap_feed a) (ap_stats a) e m now = Some r"
  proof (cases e)
    case (WsMsg x)
    obtain s' q where "handle_ticker (ap_feed a) (ap_stats a) (takeWhile (\<lambda>c. c \<noteq> CHR 0x00) x) = Some (s', q)"
      using handle_ticker_returns by blast
    then show ?thesis by (simp add: WsMsg Let_def)
  qed (auto simp: Let_def)
  then obtain r where r: "feed_cb (ap_feed a) (ap_stats a) e m now = Some r" by blast
  show ?thesis unfolding OnFeed by (auto simp: r Let_def split: option.splits prod.splits)
qed

lemma net_steps_return: "\<exists>a' outs. net_steps a evs = Some (a', outs)"
proof (induction evs arbitrary: a)
  case (Cons ev evs)
  obtain a1 o1 where "net_step a ev = Some (a1, o1)" using net_step_returns by blast
  then show ?case using Cons.IH [of a1] by auto
qed simp

lemma app_turn_returns: "settles (te_drain t) \<Longrightarrow> \<exists>a' outs. app_turn a t = Some (a', outs)"
proof -
  assume s: "settles (te_drain t)"
  obtain a1 o1 where 1: "net_steps a (te_events t) = Some (a1, o1)" using net_steps_return by blast
  obtain a2 o2 where 2: "drain_fpga a1 (te_drain t) = Some (a2, o2)" using drain_returns [OF s] by blast
  show ?thesis by (auto simp: app_turn_def 1 2 Let_def split: prod.splits)
qed

lemma app_loop_returns: "list_all (\<lambda>t. settles (te_drain t)) ts \<Longrightarrow> \<exists>a' outs. app_loop a ts = Some (a', outs)"
proof (induction ts arbitrary: a)
  case (Cons t ts)
  obtain a1 o1 where "app_turn a t = Some (a1, o1)" using app_turn_returns Cons.prems by fastforce
  then show ?case using Cons.IH [of a1] Cons.prems by auto
qed simp

lemma app_run_returns:
  assumes "list_all (\<lambda>t. settles (te_drain t)) (rn_turns env)"
  shows "\<exists>a' outs. fmma_app_run a env = Some (a', outs, 0)"
proof -
  obtain a2 o2 where "app_loop (a\<lparr>ap_feed := fmma_feed_start (ap_feed a) (rn_connect env) (rn_start_us env),
      ap_next_stats_us := rn_now_us env + ucast (cfg_stats_sec (ap_cfg a)) * 1000000\<rparr>) (rn_turns env) = Some (a2, o2)"
    using app_loop_returns [OF assms] by blast
  then show ?thesis by (auto simp: fmma_app_run_def Let_def split: prod.splits)
qed

text \<open>
  C16. The event loop returns. Draining the fabric ends as soon as two successive polls see the same
  decision counter; when that happens in every turn, the loop performs all its turns, every handler
  returns, and the program ends with result 0.
\<close>

theorem event_loop_returns:
  assumes "list_all (\<lambda>t. settles (te_drain t)) (rn_turns env)"
  shows "\<exists>a' outs. fmma_app_run a env = Some (a', outs, 0)"
  using assms by (rule app_run_returns)

text \<open>The accesses among the outputs.\<close>

fun bus_accesses :: "app_out list \<Rightarrow> access list" where
  "bus_accesses [] = []"
| "bus_accesses (Bus x # xs) = x # bus_accesses xs"
| "bus_accesses (_ # xs) = bus_accesses xs"

lemma bus_accesses_append [simp]: "bus_accesses (xs @ ys) = bus_accesses xs @ bus_accesses ys"
  by (induction xs rule: bus_accesses.induct) auto

lemma bus_accesses_Bus [simp]: "bus_accesses (map Bus xs) = xs"
  by (induction xs) auto

lemma bus_accesses_none: "list_all no_bus xs \<Longrightarrow> bus_accesses xs = []"
  by (induction xs rule: bus_accesses.induct) auto

lemma close_disables:
  "fmma_fpga_present f \<Longrightarrow> run_accesses (fmma_fpga_close f) m FMMA_CFG_ENABLE = 0"
  by (cases f) (auto simp: fmma_fpga_close_def fmma_fpga_present_def)

lemma load_present:
  "fmma_fpga_load (Some f) cfg view beat0 views = (acc, f1, rc) \<Longrightarrow> fpga_regs f \<Longrightarrow> fmma_fpga_present f1"
proof -
  have w: "fpga_regs (fst (wait_loop n i beat0 views f)) = fpga_regs f" for n i
    by (induction n i beat0 views f rule: wait_loop.induct) (auto simp: Let_def)
  assume "fmma_fpga_load (Some f) cfg view beat0 views = (acc, f1, rc)" "fpga_regs f"
  then show ?thesis using w
    by (auto simp: fmma_fpga_load_def fmma_fpga_present_def wait_for_cpu_def Let_def split: prod.splits if_splits)
      (metis fst_conv)+
qed

lemma fabric_up_cases:
  assumes "fabric_up cfg env = (acc, fo)"
  obtains (down) "fo = None" "\<And>m. m FMMA_CFG_ENABLE = 0 \<Longrightarrow> run_accesses acc m FMMA_CFG_ENABLE = 0"
  | (up) "fmma_fpga_present fo"
proof (cases "fmma_fabric_check (ce_status_files env) (cfg_force cfg) \<noteq> 0 \<or>
    fmma_fpga_open (ce_fpga_calloc env) (ce_fd env) (ce_mmap env) = None")
  case True
  then have "acc = []" "fo = None" using assms by (auto simp: fabric_up_def split: if_splits option.splits)
  then show ?thesis using down by simp
next
  case False
  then obtain f where f: "fmma_fpga_open (ce_fpga_calloc env) (ce_fd env) (ce_mmap env) = Some f" by blast
  then have regs: "fpga_regs f" by (auto simp: fmma_fpga_open_def split: if_splits)
  define fc where "fc = \<lparr>fc_threshold = cfg_threshold cfg, fc_max_position = cfg_max_position cfg,
    fc_start_position = cfg_start_position cfg, fc_half_spread = cfg_half_spread cfg, fc_skew = cfg_skew cfg\<rparr>"
  obtain acc1 f1 rc where l:
    "fmma_fpga_load (Some f) (Some fc) (ce_readback env) (ce_beat0 env) (ce_wait_views env) = (acc1, f1, rc)"
    by (metis prod_cases3)
  note pres = load_present [OF l regs]
  have res: "(acc, fo) = (if rc \<noteq> 0 then (acc1 @ fmma_fpga_close f1, None) else (acc1 @ fmma_fpga_set_enabled f1 True, f1))"
    unfolding assms [symmetric] using False by (simp add: fabric_up_def f fc_def [symmetric] l Let_def)
  show ?thesis
  proof (cases "rc = 0")
    case True
    then show ?thesis using up res pres by simp
  next
    case False
    then show ?thesis using down res close_disables [OF pres] by simp
  qed
qed

lemma create_cases:
  assumes "fmma_app_create cfg env = (acc, ao)"
  obtains (failed) "ao = None" "\<And>m. m FMMA_CFG_ENABLE = 0 \<Longrightarrow> run_accesses acc m FMMA_CFG_ENABLE = 0"
    "\<not> cfg_use_fpga cfg \<Longrightarrow> acc = []"
  | (soft) a where "ao = Some a" "acc = []" "ap_fpga a = None" "ap_cfg a = cfg"
  | (fabric) a where "ao = Some a" "has_device a" "ap_cfg a = cfg"
proof -
  obtain acc1 fo where f: "(if cfg_use_fpga cfg then fabric_up cfg env else ([], None)) = (acc1, fo)" by fastforce
  have en: "\<And>m. fo = None \<Longrightarrow> m FMMA_CFG_ENABLE = 0 \<Longrightarrow> run_accesses acc1 m FMMA_CFG_ENABLE = 0"
    and pr: "cfg_use_fpga cfg \<Longrightarrow> fo \<noteq> None \<Longrightarrow> fmma_fpga_present fo"
    and sw: "\<not> cfg_use_fpga cfg \<Longrightarrow> acc1 = [] \<and> fo = None"
  proof -
    have "(fo = None \<longrightarrow> (\<forall>m. m FMMA_CFG_ENABLE = 0 \<longrightarrow> run_accesses acc1 m FMMA_CFG_ENABLE = 0)) \<and>
        (cfg_use_fpga cfg \<longrightarrow> fo \<noteq> None \<longrightarrow> fmma_fpga_present fo) \<and> (\<not> cfg_use_fpga cfg \<longrightarrow> acc1 = [] \<and> fo = None)"
    proof (cases "cfg_use_fpga cfg")
      case True
      then have "fabric_up cfg env = (acc1, fo)" using f by simp
      then show ?thesis using True by (cases rule: fabric_up_cases) (auto simp: fmma_fpga_present_def)
    qed (use f in auto)
    then show "\<And>m. fo = None \<Longrightarrow> m FMMA_CFG_ENABLE = 0 \<Longrightarrow> run_accesses acc1 m FMMA_CFG_ENABLE = 0"
      "cfg_use_fpga cfg \<Longrightarrow> fo \<noteq> None \<Longrightarrow> fmma_fpga_present fo"
      "\<not> cfg_use_fpga cfg \<Longrightarrow> acc1 = [] \<and> fo = None" by blast+
  qed
  define exec where "exec = fmma_exec_create (ce_exec_calloc env) True (ce_key env) (ce_secret env)"
  define feed where "feed = fmma_feed_create (ce_feed_calloc env) (cfg_product cfg) True"
  consider (early) "acc = []" "ao = None" | (no_fabric) "acc = acc1" "ao = None" "fo = None"
    | (late) "acc = acc1 @ (case fo of None \<Rightarrow> [] | Some d \<Rightarrow> fmma_fpga_close (Some d))" "ao = None"
        "cfg_use_fpga cfg \<Longrightarrow> fo \<noteq> None"
    | (built) a where "acc = acc1" "ao = Some a" "ap_fpga a = fo" "ap_cfg a = cfg" "cfg_use_fpga cfg \<Longrightarrow> fo \<noteq> None"
    using assms f unfolding fmma_app_create_def Let_def exec_def [symmetric] feed_def [symmetric]
    by (cases "ce_calloc env"; cases exec; cases feed; cases "cfg_use_fpga cfg \<and> fo = None") auto
  then show ?thesis
  proof cases
    case early
    then show ?thesis using failed by simp
  next
    case no_fabric
    then show ?thesis using failed en sw by simp
  next
    case late
    have "run_accesses acc m FMMA_CFG_ENABLE = 0" if "m FMMA_CFG_ENABLE = 0" for m
      using late(1) en [of m] that close_disables [of fo] pr sw by (cases fo) auto
    then show ?thesis using failed late sw by simp
  next
    case (built a)
    then show ?thesis using soft fabric pr sw by (cases "cfg_use_fpga cfg") (auto simp: has_device_def)
  qed
qed


section \<open>Concrete runs\<close>

text \<open>
  A session with limit one and no cooldown. The first three quotes fall by more than the threshold
  each time, so the second and third ask for a buy; the first buy is not filled yet when the third
  quote arrives, so both orders go out. Then both fill.
\<close>

definition demo_cfg :: fmma_config where
  "demo_cfg = fmma_config_defaults\<lparr>cfg_use_fpga := False, cfg_max_position := 1, cfg_cooldown_ms := 0, cfg_stats_sec := 0\<rparr>"

definition demo_files :: "string \<Rightarrow> string option" where
  "demo_files p = None"

definition demo_create :: create_env where
  "demo_create = \<lparr>ce_calloc = True, ce_now_us = 1, ce_status_files = demo_files, ce_fpga_calloc = True, ce_fd = 3,
     ce_mmap = True, ce_readback = (\<lambda>_. 0), ce_beat0 = 0, ce_wait_views = (\<lambda>_ _. 0), ce_exec_calloc = True,
     ce_feed_calloc = True, ce_key = Some ''key'', ce_secret = Some ''secret''\<rparr>"

definition demo_act :: act_env where
  "demo_act = \<lparr>ae_age_now = 2, ae_now_ms = 5, ae_now_us = 5000, ae_calloc = True, ae_connect = True\<rparr>"

definition demo_quote_env :: quote_env where
  "demo_quote_env = \<lparr>qe_t0_ns = 0, qe_t1_ns = 0, qe_tick_us = 2, qe_act = demo_act\<rparr>"

definition ticker :: "string \<Rightarrow> string \<Rightarrow> string" where
  "ticker bid ask =
     ''{'' @ [dq] @ ''type'' @ [dq] @ '':'' @ [dq] @ ''ticker'' @ [dq] @ '','' @
     [dq] @ ''best_bid'' @ [dq] @ '':'' @ [dq] @ bid @ [dq] @ '','' @
     [dq] @ ''best_ask'' @ [dq] @ '':'' @ [dq] @ ask @ [dq] @ ''}''"

definition demo_view :: ram where
  "demo_view w = 0"

definition demo_drain :: "drain_env list" where
  "demo_drain = replicate 2 \<lparr>de_view = demo_view, de_signal_us = 3, de_act = demo_act\<rparr>"

definition demo_report :: report_env where
  "demo_report = \<lparr>re_now_us = 9, re_state_view = demo_view, re_beat_view = demo_view\<rparr>"

definition demo_turn :: "net_event list \<Rightarrow> turn_env" where
  "demo_turn evs = \<lparr>te_events = evs, te_drain = demo_drain, te_poll_us = 4, te_poll_calloc = (\<lambda>_. True),
     te_poll_connect = (\<lambda>_. True), te_feed_us = 4, te_feed_connect = True, te_feed_start_us = 4, te_age_us = 4,
     te_stats_us = 4, te_report = demo_report\<rparr>"

definition demo_run :: "net_event list list \<Rightarrow> run_env" where
  "demo_run evss = \<lparr>rn_connect = True, rn_start_us = 1, rn_now_us = 1, rn_turns = map demo_turn evss, rn_report = demo_report\<rparr>"

definition quote_event :: "string \<Rightarrow> string \<Rightarrow> net_event" where
  "quote_event bid ask = OnFeed (WsMsg (ticker bid ask)) True 1 demo_quote_env"

definition fill_event :: "nat \<Rightarrow> net_event" where
  "fill_event slot = OnOrder (Some slot) (EvHttp 200 filled_body)"

definition demo_events :: "net_event list list" where
  "demo_events = [[quote_event ''500.00'' ''500.02''], [quote_event ''480.00'' ''480.02''], [quote_event ''460.00'' ''460.02''],
     [fill_event 0, fill_event 1]]"

definition demo_app :: fmma_app where
  "demo_app = the (snd (fmma_app_create demo_cfg demo_create))"

declare pad_frac.simps [code]

lemma demo_created: "fmma_app_create demo_cfg demo_create = ([], Some demo_app)"
  by code_simp

text \<open>The position limit is one lot; the run ends two lots long, with both orders sent by decisions inside the limit.\<close>

lemma position_limit_exceeded:
  "strat_max_position (ap_soft demo_app) = 1 \<and>
   map_option (\<lambda>(a, outs). (risk_position (ap_risk a), outs)) (app_loop demo_app (map demo_turn demo_events)) =
     Some (2, [Post 0 (order_request (ap_exec demo_app) demo_cfg ''buy''), Post 1 (order_request (ap_exec demo_app) demo_cfg ''buy'')])"
  by code_simp

lemma demo_turns_ok: "list_all turn_ok (rn_turns (demo_run demo_events))"
  by (simp add: demo_run_def demo_events_def turn_ok_def demo_turn_def quote_event_def fill_event_def)

lemma demo_turns_settle: "list_all (\<lambda>t. settles (te_drain t)) (rn_turns (demo_run demo_events))"
  by (simp add: demo_run_def demo_events_def demo_turn_def demo_drain_def numeral_2_eq_2)

lemma demo_run_returns: obtains a' outs where "fmma_app_run a (demo_run demo_events) = Some (a', outs, 0)"
  using app_run_returns [OF demo_turns_settle] by blast

theorem halted_app_sends_nothing_witness:
  "\<exists>a' outs. fmma_app_run (demo_app\<lparr>ap_risk := fmma_risk_halt (ap_risk demo_app) ''manual''\<rparr>) (demo_run demo_events) =
     Some (a', outs, 0) \<and> risk_halted (ap_risk a') \<and> (\<nexists>slot text. Post slot text \<in> set outs)"
proof -
  let ?a = "demo_app\<lparr>ap_risk := fmma_risk_halt (ap_risk demo_app) ''manual''\<rparr>"
  obtain a' outs where r: "fmma_app_run ?a (demo_run demo_events) = Some (a', outs, 0)" by (rule demo_run_returns)
  have "risk_halted (ap_risk ?a)" by (simp add: fmma_risk_halt_def)
  from halted_app_sends_nothing [OF this demo_turns_ok r] r show ?thesis by blast
qed

lemma demo_order: "snd (act_on demo_app FMMA_SIGNAL_BUY demo_act) = [Post 0 (order_request (ap_exec demo_app) demo_cfg ''buy'')]"
  by code_simp


definition demo_device :: fmma_app where
  "demo_device = demo_app\<lparr>ap_fpga := Some \<lparr>fpga_regs = True, fpga_map = True, fpga_fd = 3, fpga_tick_seq = 0,
     fpga_fill_seq = 0, fpga_signal_seq = 0, fpga_heartbeat = 0\<rparr>\<rparr>"

lemma demo_positions: "positions_ok demo_device" "has_device demo_device"
  by code_simp+


theorem position_limit_overshoot_witness:
  "\<exists>a' outs. fmma_app_run demo_app (demo_run demo_events) = Some (a', outs, 0) \<and> \<bar>risk_position (ap_risk a')\<bar> \<le> 8"
proof -
  obtain a' outs where r: "fmma_app_run demo_app (demo_run demo_events) = Some (a', outs, 0)" by (rule demo_run_returns)
  have "\<not> cfg_use_fpga demo_cfg" "uint (cfg_max_position demo_cfg) \<le> 2147483640"
    "\<bar>cfg_start_position demo_cfg\<bar> \<le> uint (cfg_max_position demo_cfg)" "uint (cfg_max_position demo_cfg) + 7 = 8"
    by (simp_all add: demo_cfg_def fmma_config_defaults_def)
  from position_limit_overshoot [OF demo_created this(1-3) demo_turns_ok r] this(4) r show ?thesis by auto
qed

theorem event_loop_returns_witness:
  "\<exists>a' outs. fmma_app_run demo_device (demo_run demo_events) = Some (a', outs, 0)"
  by (rule event_loop_returns [OF demo_turns_settle])

lemma demo_args: "fmma_config_parse_args fmma_config_defaults [''fmma'', ''--no-fpga''] =
    (fmma_config_defaults\<lparr>cfg_use_fpga := False\<rparr>, 0, [])"
  by code_simp

lemma demo_main:
  obtains outs where "fmma_main [''fmma'', ''--no-fpga''] demo_create (demo_run demo_events) = Some (0, outs)"
proof -
  let ?c = "fmma_config_defaults\<lparr>cfg_use_fpga := False\<rparr>"
  have "snd (fmma_app_create ?c demo_create) \<noteq> None"
    by (simp add: fmma_app_create_def demo_create_def Let_def fmma_exec_create_def fmma_feed_create_def)
  then obtain acc a where c: "fmma_app_create ?c demo_create = (acc, Some a)"
    by (cases "fmma_app_create ?c demo_create") auto
  obtain a' outs where r: "fmma_app_run a (demo_run demo_events) = Some (a', outs, 0)" by (rule demo_run_returns)
  show ?thesis by (rule that) (simp add: fmma_main_def demo_args c r)
qed



end
