(* ===== verification/Fmma_Types.thy ===== *)
theory Fmma_Types
  imports Fmma_Loop
begin

text \<open>
  The state of the running application keeps to its C types. The model's signed fields are integers and its
  arrays are lists; here every one that carries trading state is shown to stay in the range of its type, or at
  the length of its array, from the command line through the whole run.
\<close>

definition risk_typed :: "fmma_risk \<Rightarrow> bool" where
  "risk_typed r \<longleftrightarrow> in32 (risk_position r) \<and> in64 (risk_avg_price r) \<and> in64 (risk_realised r) \<and> in64 (risk_unrealised r) \<and>
     in64 (risk_max_loss r)"

definition strategy_typed :: "fmma_strategy \<Rightarrow> bool" where
  "strategy_typed s \<longleftrightarrow> in32 (strat_position s) \<and> in64 (strat_anchor s)"

definition slot_typed :: "pending \<Rightarrow> bool" where
  "slot_typed p \<longleftrightarrow> length (p_id p) < ORDER_ID_LEN \<and> in64 (p_mark p)"

definition exec_typed :: "fmma_exec \<Rightarrow> bool" where
  "exec_typed e \<longleftrightarrow> length (ex_pending e) = MAX_PENDING \<and> list_all slot_typed (ex_pending e)"

definition app_typed :: "fmma_app \<Rightarrow> bool" where
  "app_typed a \<longleftrightarrow> risk_typed (ap_risk a) \<and> strategy_typed (ap_soft a) \<and> exec_typed (ap_exec a) \<and> in64 (ap_last_mid a)"

section \<open>Books and strategy\<close>

lemma risk_typed_fill:
  assumes "risk_typed r" "in64 price"
  shows "risk_typed (fmma_risk_on_fill r side qty price)"
  using assms by (auto simp: risk_typed_def fmma_risk_on_fill_def Let_def)

lemma risk_typed_mark: "risk_typed r \<Longrightarrow> risk_typed (fmma_risk_mark r mid)"
  by (auto simp: risk_typed_def fmma_risk_mark_def)

lemma risk_typed_check: "fmma_risk_check r age = (r', v) \<Longrightarrow> risk_typed r \<Longrightarrow> risk_typed r'"
  by (auto simp: risk_typed_def fmma_risk_check_def fmma_risk_halt_def split: if_splits)

lemma strategy_typed_fill: "strategy_typed s \<Longrightarrow> strategy_typed (fmma_strategy_on_fill s side qty)"
  by (auto simp: strategy_typed_def fmma_strategy_on_fill_def)

lemma strategy_typed_quote: "strategy_typed s \<Longrightarrow> fmma_strategy_on_quote s b a = (s', side) \<Longrightarrow> strategy_typed s'"
  by (auto simp: strategy_typed_def fmma_strategy_on_quote_def Let_def split: if_splits)

section \<open>The order table\<close>

lemma exec_typed_slot: "exec_typed e \<Longrightarrow> i < MAX_PENDING \<Longrightarrow> slot_typed (ex_pending e ! i)"
  by (auto simp: exec_typed_def list_all_length)

lemma exec_typed_set: "exec_typed e \<Longrightarrow> slot_typed p \<Longrightarrow> exec_typed (set_slot e i p)"
  by (auto simp: exec_typed_def set_slot_def list_all_iff dest!: set_update_subset_insert [THEN subsetD])

lemma slot_typed_simps [simp]:
  "slot_typed (p\<lparr>p_active := b\<rparr>) = slot_typed p" "slot_typed (p\<lparr>p_query_in_flight := b\<rparr>) = slot_typed p"
  "slot_typed (p\<lparr>p_last_poll_us := t\<rparr>) = slot_typed p"
  by (simp_all add: slot_typed_def)

lemma exec_typed_drop: "exec_typed e \<Longrightarrow> i < MAX_PENDING \<Longrightarrow> exec_typed (set_slot e i ((ex_pending e ! i)\<lparr>p_active := b\<rparr>))"
  by (intro exec_typed_set) (simp_all add: exec_typed_slot)

lemma copy_field_length: "0 < n \<Longrightarrow> copy_field body name n = (rc, out) \<Longrightarrow> length out < n"
  by (auto simp: copy_field_def fmma_json_copy_string_def split: option.splits if_splits)

lemma fill_price_typed:
  assumes "fill_price body mark = Some v" "in64 mark"
  shows "in64 v"
proof -
  obtain rc fp where c: "copy_field body ''filled_avg_price'' 32 = (rc, fp)" by fastforce
  have "\<exists>w. fmma_parse_scaled (Some fp) 100 = Some w \<and> in64 w"
    by (rule parse_scaled_cases [of 2 "Some fp"]) (auto simp: in64_def FMMA_PARSE_ERROR_def int64_min_def)
  then show ?thesis using assms by (auto simp: fill_price_def c split: if_splits)
qed

text \<open>The result of a callback: the table is well-typed and a reported price fits.\<close>

definition cb_typed :: "cb_result \<Rightarrow> bool" where
  "cb_typed r \<longleftrightarrow> exec_typed (cb_exec r) \<and> (case cb_fill r of None \<Rightarrow> True | Some (sd, q, p) \<Rightarrow> in64 p)"

lemma settle_typed:
  assumes "settle e s i st price qty = (e', s', f)" "exec_typed e" "i < MAX_PENDING" "in64 price"
  shows "exec_typed e' \<and> (case f of None \<Rightarrow> True | Some (sd, q, p) \<Rightarrow> in64 p)"
  using assms exec_typed_slot [OF assms(2,3)]
  by (auto simp: settle_def Let_def intro!: exec_typed_set split: if_splits prod.splits)

lemma order_response_typed:
  assumes "order_response e s i body = Some (e', s', f)" "exec_typed e" "i < MAX_PENDING"
  shows "exec_typed e' \<and> (case f of None \<Rightarrow> True | Some (sd, q, p) \<Rightarrow> in64 p)"
proof -
  obtain rc oid where c: "copy_field body ''id'' ORDER_ID_LEN = (rc, oid)" by fastforce
  define p1 where "p1 = (ex_pending e ! i)\<lparr>p_id := (if rc \<noteq> 0 then ''(no id)'' else oid)\<rparr>"
  have p1: "slot_typed p1" "in64 (p_mark p1)"
    using exec_typed_slot [OF assms(2,3)] copy_field_length [OF _ c] by (auto simp: slot_typed_def p1_def)
  have e1: "exec_typed (set_slot e i p1)" by (rule exec_typed_set [OF assms(2) p1(1)])
  have "in64 price" if "fill_price body (p_mark p1) = Some price" for price
    using fill_price_typed [OF that p1(2)] .
  then show ?thesis using assms(1) e1 settle_typed [OF _ e1 assms(3)]
    by (auto simp: order_response_def Let_def c p1_def [symmetric] bind_eq_Some_conv split: if_splits)
qed

lemma query_response_typed:
  assumes "query_response e s i body = Some (e', s', f)" "exec_typed e" "i < MAX_PENDING"
  shows "exec_typed e' \<and> (case f of None \<Rightarrow> True | Some (sd, q, p) \<Rightarrow> in64 p)"
proof -
  have p: "slot_typed (ex_pending e ! i)" "in64 (p_mark (ex_pending e ! i))"
    using exec_typed_slot [OF assms(2,3)] by (auto simp: slot_typed_def)
  have "in64 price" if "fill_price body (p_mark (ex_pending e ! i)) = Some price" for price
    using fill_price_typed [OF that p(2)] .
  moreover obtain rc st where c: "copy_field body ''status'' 32 = (rc, st)" by fastforce
  moreover obtain rq fq where q: "copy_field body ''filled_qty'' 32 = (rq, fq)" by fastforce
  ultimately show ?thesis using assms exec_typed_drop [OF assms(2,3)] settle_typed [OF _ assms(2,3)]
    by (auto simp: query_response_def Let_def bind_eq_Some_conv split: if_splits)
qed

lemma order_cb_typed:
  assumes "order_cb e s ctx ev = Some r" "exec_typed e" "ctx_ok ctx"
  shows "cb_typed r"
  using assms order_response_typed [OF _ assms(2)]
  by (cases "(e, s, ctx, ev)" rule: order_cb.cases)
    (auto simp: cb_typed_def cb_keep_def bind_eq_Some_conv exec_typed_drop split: if_splits)

lemma query_cb_typed:
  assumes "query_cb e s ctx ev = Some r" "exec_typed e" "ctx_ok ctx"
  shows "cb_typed r"
proof -
  have cl: "exec_typed (clear_query e' i)" if "exec_typed e'" "i < MAX_PENDING" for e' i
    using exec_typed_slot [OF that] that(1) by (auto simp: clear_query_def intro: exec_typed_set)
  show ?thesis
    using assms query_response_typed [OF _ assms(2)]
    by (cases "(e, s, ctx, ev)" rule: query_cb.cases)
      (auto simp: cb_typed_def cb_keep_def bind_eq_Some_conv cl split: if_splits)
qed

lemma after_cb_typed:
  assumes "after_cb a r = (a', outs)" "app_typed a" "cb_typed r"
  shows "app_typed a'"
  by (cases rule: after_cb_cases [OF assms(1)])
    (use assms(2,3) in \<open>auto simp: app_typed_def cb_typed_def risk_typed_fill strategy_typed_fill\<close>)

lemma send_typed:
  assumes "exec_typed e" "in64 mark"
  shows "exec_typed (sr_exec (fmma_exec_send e s cfg side mark now_ms now_us ca co))"
proof -
  have [simp]: "exec_typed (e'\<lparr>ex_last_order_ms := t\<rparr>) = exec_typed e'" for e' t by (simp add: exec_typed_def)
  have al: "exec_typed e1 \<and> slot_typed ((ex_pending e1 ! i)\<lparr>p_side := side, p_mark := mark, p_sent_us := x, p_last_poll_us := y\<rparr>)"
    if "slot_alloc e = Some (e1, i)" for e1 i x y
  proof -
    have e1: "e1 = set_slot e i (pending_zero\<lparr>p_active := True\<rparr>)" "i < length (ex_pending e)"
      using that alloc_from_Some [of "ex_pending e" 0 i] by (auto simp: slot_alloc_def split: option.splits)
    have z: "slot_typed (pending_zero\<lparr>p_active := True\<rparr>)" by (simp add: slot_typed_def pending_zero_def)
    show ?thesis using exec_typed_set [OF assms(1) z] e1 assms(2)
      by (simp add: set_slot_def slot_typed_def pending_zero_def)
  qed
  show ?thesis using assms(1) al
    by (auto simp: fmma_exec_send_def Let_def exec_typed_set split: option.splits prod.splits)
qed

lemma poll_slots_typed:
  "poll_slots e now period ca co i ps s = (ps1, s1, qs) \<Longrightarrow> list_all slot_typed ps \<Longrightarrow>
     list_all slot_typed ps1 \<and> length ps1 = length ps"
proof (induction e now period ca co i ps s arbitrary: ps1 s1 qs rule: poll_slots.induct)
  case (2 e now period ca co i p ps s)
  obtain p1 s' q where p: "poll_slot e now period (ca i) (co i) s p = (p1, s', q)" by (metis prod_cases3)
  obtain ps2 s2 qs2 where r: "poll_slots e now period ca co (Suc i) ps s' = (ps2, s2, qs2)" by (metis prod_cases3)
  have "slot_typed p1" using p "2.prems"(2) by (auto simp: poll_slot_def Let_def split: if_splits)
  then show ?case using "2.prems" "2.IH" [OF p [symmetric]] r by (auto simp: p)
qed simp

section \<open>The run\<close>

lemma act_on_typed:
  assumes "act_on a side env = (a', outs)" "app_typed a"
  shows "app_typed a'"
  using assms(1)
proof (cases rule: act_on_cases)
  case (refused v)
  have "risk_typed (ap_risk a')" using risk_typed_check [OF refused(1)] assms(2) by (simp add: app_typed_def)
  moreover have "ap_soft a' = ap_soft a" "ap_exec a' = ap_exec a" "ap_last_mid a' = ap_last_mid a"
    by (subst refused(3), simp)+
  ultimately show ?thesis using assms(2) by (simp add: app_typed_def)
next
  case (passed r)
  then show ?thesis using assms(2) send_typed by (simp add: app_typed_def)
qed

lemma step_typed: "app_step a outs a' \<Longrightarrow> app_typed a \<Longrightarrow> app_typed a'"
proof (induction rule: app_step.induct)
  case (OrderCb ctx a ev r a' outs)
  have "cb_typed r" using OrderCb order_cb_typed [OF OrderCb.hyps(2)] by (simp add: app_typed_def)
  then show ?case by (rule after_cb_typed [OF OrderCb.hyps(3) OrderCb.prems])
next
  case (QueryCb ctx a ev r a' outs)
  have "cb_typed r" using QueryCb query_cb_typed [OF QueryCb.hyps(2)] by (simp add: app_typed_def)
  then show ?case by (rule after_cb_typed [OF QueryCb.hyps(3) QueryCb.prems])
next
  case (SoftOrder a bid ask soft side env a' outs)
  have "app_typed (a\<lparr>ap_soft := soft\<rparr>)"
    using SoftOrder.prems strategy_typed_quote [OF _ SoftOrder.hyps(2)] by (simp add: app_typed_def)
  then show ?case by (rule act_on_typed [OF SoftOrder.hyps(4)])
next
  case (FabricOrder a side env a' outs)
  show ?case by (rule act_on_typed [OF FabricOrder.hyps(3) FabricOrder.prems])
next
  case (PollWorking a t a' outs)
  then show ?case using poll_slots_typed
    by (fastforce simp: poll_orders_def fmma_exec_poll_def app_typed_def exec_typed_def split: prod.splits)
qed (auto simp: app_frame_def app_typed_def risk_typed_mark strategy_typed_quote)

interpretation typed: app_invariant app_typed "\<lambda>_. True"
  by unfold_locales (auto simp: list_all_iff step_typed)

lemma strtol_typed [simp]: "in32 (strtol v)" "in64 (strtoll v)"
  by (auto simp: strtol_def strtoll_def strto_signed_def in32_def in64_def Let_def split: prod.splits)

definition cfg_typed :: "fmma_config \<Rightarrow> bool" where
  "cfg_typed c \<longleftrightarrow> in32 (cfg_start_position c) \<and> in64 (cfg_max_loss c)"

lemma if_Some_E: "(if P then Some x else y) = Some z \<Longrightarrow> (x = z \<Longrightarrow> Q) \<Longrightarrow> (y = Some z \<Longrightarrow> Q) \<Longrightarrow> Q"
  by (auto split: if_splits)

lemma value_opt_typed: "value_opt a = Some g \<Longrightarrow> cfg_typed c \<Longrightarrow> cfg_typed (g v c)"
  unfolding value_opt_def by (elim if_Some_E) (auto simp: cfg_typed_def)

lemma flag_opt_typed: "flag_opt a = Some f \<Longrightarrow> cfg_typed c \<Longrightarrow> cfg_typed (f c)"
  unfolding flag_opt_def by (elim if_Some_E) (auto simp: cfg_typed_def)

lemma parse_loop_typed: "parse_loop argv0 c args = (c', rc, t) \<Longrightarrow> cfg_typed c \<Longrightarrow> cfg_typed c'"
proof (induction argv0 c args rule: parse_loop.induct)
  case (2 argv0 c a rest)
  show ?case
  proof (cases "a = ''-h'' \<or> a = ''--help''")
    case True
    then have "c' = c" using "2.prems"(1) by (simp only: parse_loop.simps if_True prod.inject)
    then show ?thesis using "2.prems"(2) by simp
  next
    case False
    then have r: "parse_loop argv0 c (a # rest) = (case flag_opt a of Some f \<Rightarrow> parse_loop argv0 (f c) rest
        | None \<Rightarrow> (case value_opt a of
             Some g \<Rightarrow> (case rest of [] \<Rightarrow> (c, - 1, need_value a) | v # rest' \<Rightarrow> parse_loop argv0 (g v c) rest')
           | None \<Rightarrow> (c, - 1, ''unknown option '' @ [CHR 0x27] @ a @ [CHR 0x27] @ '' (try --help)'' @ nl)))"
      by (simp only: parse_loop.simps if_False)
    show ?thesis
    proof (cases "flag_opt a")
      case (Some f)
      then show ?thesis using 2(2) [OF False Some] "2.prems" flag_opt_typed [OF Some] r by simp
    next
      case None
      show ?thesis
      proof (cases "value_opt a")
        case (Some g)
        then show ?thesis using 2(1) [OF False None Some] "2.prems" value_opt_typed [OF Some] r None by (cases rest) simp_all
      qed (use "2.prems" r None in simp)
    qed
  qed
qed (auto simp: cfg_typed_def split: if_splits)

lemma create_typed:
  assumes "fmma_app_create cfg cenv = (acc, Some a)" "cfg_typed cfg"
  shows "app_typed a"
  using assms
  by (auto simp: fmma_app_create_def Let_def fmma_exec_create_def fmma_feed_create_def app_typed_def cfg_typed_def
      risk_typed_def strategy_typed_def exec_typed_def fmma_risk_init_def fmma_strategy_init_def slot_typed_def
      pending_zero_def list_all_iff split: if_splits option.splits prod.splits)



end
