(* ===== verification/Fmma_Bus.thy ===== *)
theory Fmma_Bus
  imports Fmma_Fpga Fmma_Cstd "HOL-Library.State_Monad"
begin

text \<open>
  Running the host against hardware. The diagnostics read and write the shared window many times and
  their verdict depends on what the other side answers, so here the other side is explicit: a device
  of any state type \<open>'d\<close> with a read, a write, the passing of time and the monotonic clock in
  nanoseconds, all parameters. Any
  behaviour of the fabric, any interleaving and any other peripheral at this address is such a device.
  The operations of \<open>fmma_fpga.c\<close> are lifted to it word access by word access, in the order of the C
  code; the host state threads through them in the state monad.
\<close>

record 'd bus =
  bus_read :: "nat \<Rightarrow> 'd \<Rightarrow> u32 \<times> 'd"
  bus_write :: "nat \<Rightarrow> u32 \<Rightarrow> 'd \<Rightarrow> 'd"
  bus_sleep :: "nat \<Rightarrow> 'd \<Rightarrow> 'd"
  bus_clock :: "'d \<Rightarrow> u64 \<times> 'd"

record 'd host =
  h_dev :: 'd
  h_f :: "fmma_fpga option"
  h_out :: string
  h_err :: string

type_synonym ('d, 'a) prog = "('d host, 'a) state"

section \<open>Accesses\<close>

definition rd :: "'d bus \<Rightarrow> nat \<Rightarrow> ('d, u32) prog" where
  "rd io w = State (\<lambda>h. case bus_read io w (h_dev h) of (v, d) \<Rightarrow> (v, h\<lparr>h_dev := d\<rparr>))"

definition wr :: "'d bus \<Rightarrow> nat \<Rightarrow> u32 \<Rightarrow> ('d, unit) prog" where
  "wr io w v = State (\<lambda>h. ((), h\<lparr>h_dev := bus_write io w v (h_dev h)\<rparr>))"

text \<open>\<open>usleep\<close>, in microseconds.\<close>

definition usleep :: "'d bus \<Rightarrow> nat \<Rightarrow> ('d, unit) prog" where
  "usleep io us = State (\<lambda>h. ((), h\<lparr>h_dev := bus_sleep io us (h_dev h)\<rparr>))"

definition now_ns :: "'d bus \<Rightarrow> ('d, u64) prog" where
  "now_ns io = State (\<lambda>h. case bus_clock io (h_dev h) of (t, d) \<Rightarrow> (t, h\<lparr>h_dev := d\<rparr>))"

definition now_us :: "'d bus \<Rightarrow> ('d, u64) prog" where
  "now_us io = do { t \<leftarrow> now_ns io; State_Monad.return (t div 1000) }"

definition printf :: "string \<Rightarrow> ('d, unit) prog" where
  "printf s = State (\<lambda>h. ((), h\<lparr>h_out := h_out h @ s\<rparr>))"

definition eprintf :: "string \<Rightarrow> ('d, unit) prog" where
  "eprintf s = State (\<lambda>h. ((), h\<lparr>h_err := h_err h @ s\<rparr>))"

definition get_f :: "('d, fmma_fpga option) prog" where
  "get_f = State (\<lambda>h. (h_f h, h))"

definition set_f :: "fmma_fpga option \<Rightarrow> ('d, unit) prog" where
  "set_f f = State (\<lambda>h. ((), h\<lparr>h_f := f\<rparr>))"

fun stores :: "'d bus \<Rightarrow> access list \<Rightarrow> ('d, unit) prog" where
  "stores io [] = State_Monad.return ()"
| "stores io (Store w v # xs) = do { wr io w v; stores io xs }"
| "stores io (Barrier # xs) = stores io xs"

section \<open>The host protocol on a device\<close>

definition x_read :: "'d bus \<Rightarrow> nat \<Rightarrow> ('d, u32) prog" where
  "x_read io w = do {
     f \<leftarrow> get_f;
     if fmma_fpga_present f then do { v \<leftarrow> rd io w; State_Monad.return (fmma_fpga_read f (\<lambda>_. v) w) }
     else State_Monad.return (fmma_fpga_read f (\<lambda>_. 0) w) }"

definition x_write :: "'d bus \<Rightarrow> nat \<Rightarrow> u32 \<Rightarrow> ('d, unit) prog" where
  "x_write io w v = do { f \<leftarrow> get_f; stores io (fmma_fpga_write f w v) }"

definition x_set_enabled :: "'d bus \<Rightarrow> bool \<Rightarrow> ('d, unit) prog" where
  "x_set_enabled io on = do { f \<leftarrow> get_f; stores io (fmma_fpga_set_enabled f on) }"

definition x_push_config :: "'d bus \<Rightarrow> fmma_fpga_config option \<Rightarrow> ('d, unit) prog" where
  "x_push_config io cfg = do { f \<leftarrow> get_f; stores io (fmma_fpga_push_config f cfg) }"

text \<open>Loading: the readback stops at the first mismatch, the wait polls at most 50 times.\<close>

fun x_readback :: "'d bus \<Rightarrow> nat \<Rightarrow> u32 list \<Rightarrow> ('d, bool) prog" where
  "x_readback io a [] = State_Monad.return True"
| "x_readback io a (w # ws) = do { got \<leftarrow> rd io a; if got \<noteq> w then State_Monad.return False else x_readback io (a + 1) ws }"

fun x_wait_loop :: "'d bus \<Rightarrow> nat \<Rightarrow> nat \<Rightarrow> u32 \<Rightarrow> fmma_fpga \<Rightarrow> ('d, fmma_fpga \<times> int) prog" where
  "x_wait_loop io 0 i beat0 f = State_Monad.return (f, - 1)"
| "x_wait_loop io (Suc left) i beat0 f = do {
     usleep io 100000;
     version \<leftarrow> rd io FMMA_FW_VERSION;
     beat \<leftarrow> rd io FMMA_HEARTBEAT;
     if version = FMMA_PROTOCOL_VERSION \<and> beat \<noteq> beat0 then do {
       sg \<leftarrow> rd io FMMA_SIGNAL_SEQ; fl \<leftarrow> rd io FMMA_FILL_SEQ; tk \<leftarrow> rd io FMMA_TICK_SEQ;
       State_Monad.return (f\<lparr>fpga_heartbeat := beat, fpga_signal_seq := sg, fpga_fill_seq := fl, fpga_tick_seq := tk AND NOT 1\<rparr>, 0) }
     else if version \<noteq> 0 \<and> version \<noteq> FMMA_PROTOCOL_VERSION then State_Monad.return (f, - 1)
     else if beat \<noteq> beat0 \<and> version = 0 \<and> i > 20 then State_Monad.return (f, - 1)
     else x_wait_loop io left (i + 1) beat0 f }"

definition x_load :: "'d bus \<Rightarrow> fmma_fpga_config option \<Rightarrow> ('d, int) prog" where
  "x_load io cfg = do {
     fo \<leftarrow> get_f;
     (case fo of None \<Rightarrow> State_Monad.return (- 1)
      | Some f \<Rightarrow>
          if \<not> fmma_fpga_present fo then State_Monad.return (- 1)
          else do {
            stores io ([Store FMMA_CFG_ENABLE 0, Store FMMA_CFG_RESTART 0] @ fmma_fpga_push_config fo cfg);
            if FPGA_PROGRAM_BASE \<noteq> FMMA_PROGRAM_BASE \<or> FPGA_PROGRAM_BASE + FPGA_PROGRAM_LEN > FMMA_PROGRAM_LIMIT
            then State_Monad.return (- 1)
            else do {
              stores io program_stores;
              ok \<leftarrow> x_readback io FPGA_PROGRAM_BASE fpga_program;
              if \<not> ok then State_Monad.return (- 1)
              else do {
                stores io wait_stores;
                beat0 \<leftarrow> rd io FMMA_HEARTBEAT;
                res \<leftarrow> x_wait_loop io 50 0 beat0 f;
                set_f (Some (fst res));
                State_Monad.return (snd res) } } }) }"

definition x_publish_tick :: "'d bus \<Rightarrow> u32 \<Rightarrow> u32 \<Rightarrow> u32 \<Rightarrow> u32 \<Rightarrow> ('d, u32) prog" where
  "x_publish_tick io bid ask bid_size ask_size = do {
     f \<leftarrow> get_f;
     (case fmma_fpga_publish_tick f bid ask bid_size ask_size of (f1, acc, seq) \<Rightarrow>
        do { stores io acc; set_f f1; State_Monad.return seq }) }"

definition x_report_fill :: "'d bus \<Rightarrow> u32 \<Rightarrow> u32 \<Rightarrow> ('d, unit) prog" where
  "x_report_fill io side qty = do {
     f \<leftarrow> get_f;
     (case fmma_fpga_report_fill f side qty of (f1, acc) \<Rightarrow> do { stores io acc; set_f f1 }) }"

text \<open>The counter is read first; the two words it describes only when it has moved.\<close>

definition x_poll_signal :: "'d bus \<Rightarrow> ('d, fmma_signal option) prog" where
  "x_poll_signal io = do {
     f \<leftarrow> get_f;
     if \<not> fmma_fpga_present f then State_Monad.return None
     else do {
       seq \<leftarrow> rd io FMMA_SIGNAL_SEQ;
       if Some seq = map_option fpga_signal_seq f then State_Monad.return None
       else do {
         side \<leftarrow> rd io FMMA_SIGNAL;
         tick \<leftarrow> rd io FMMA_SIGNAL_TICK;
         (case fmma_fpga_poll_signal f ((\<lambda>_. 0)(FMMA_SIGNAL_SEQ := seq, FMMA_SIGNAL := side, FMMA_SIGNAL_TICK := tick)) of
            (f1, sg) \<Rightarrow> do { set_f f1; State_Monad.return sg }) } } }"

definition x_read_state :: "'d bus \<Rightarrow> ('d, fmma_fpga_state) prog" where
  "x_read_state io = do {
     f \<leftarrow> get_f;
     if \<not> fmma_fpga_present f then State_Monad.return (fmma_fpga_read_state f (\<lambda>_. 0))
     else do {
       hb \<leftarrow> rd io FMMA_HEARTBEAT; po \<leftarrow> rd io FMMA_POSITION; st \<leftarrow> rd io FMMA_STATUS; rj \<leftarrow> rd io FMMA_REJECTS;
       ve \<leftarrow> rd io FMMA_FW_VERSION; qb \<leftarrow> rd io FMMA_QUOTE_BID; qa \<leftarrow> rd io FMMA_QUOTE_ASK;
       State_Monad.return (fmma_fpga_read_state f ((\<lambda>_. 0)(FMMA_HEARTBEAT := hb, FMMA_POSITION := po,
         FMMA_STATUS := st, FMMA_REJECTS := rj, FMMA_FW_VERSION := ve, FMMA_QUOTE_BID := qb, FMMA_QUOTE_ASK := qa))) } }"

definition x_heartbeat_delta :: "'d bus \<Rightarrow> ('d, u32) prog" where
  "x_heartbeat_delta io = do {
     f \<leftarrow> get_f;
     if \<not> fmma_fpga_present f then State_Monad.return 0
     else do {
       b \<leftarrow> rd io FMMA_HEARTBEAT;
       (case fmma_fpga_heartbeat_delta f (\<lambda>_. b) of (f1, d) \<Rightarrow> do { set_f f1; State_Monad.return d }) } }"

definition x_close :: "'d bus \<Rightarrow> ('d, unit) prog" where
  "x_close io = do { f \<leftarrow> get_f; stores io (fmma_fpga_close f) }"

section \<open>Memory-like devices\<close>

text \<open>
  A device whose words in \<open>region\<close> are memory: a read returns what was last written, whatever the
  device does with its other words meanwhile.
\<close>

locale memory_region =
  fixes io :: "'d bus" and cell :: "'d \<Rightarrow> nat \<Rightarrow> u32" and region :: "nat set"
  assumes read_value: "w \<in> region \<Longrightarrow> fst (bus_read io w d) = cell d w"
    and read_keeps: "w \<in> region \<Longrightarrow> w' \<in> region \<Longrightarrow> cell (snd (bus_read io w d)) w' = cell d w'"
    and write_stores: "w \<in> region \<Longrightarrow> w' \<in> region \<Longrightarrow> cell (bus_write io w v d) w' = (if w' = w then v else cell d w')"
begin

lemma rd_run:
  "w \<in> region \<Longrightarrow> run_state (rd io w) h = (cell (h_dev h) w, h\<lparr>h_dev := snd (bus_read io w (h_dev h))\<rparr>)"
  using read_value [of w "h_dev h"] by (simp add: rd_def split_beta)

lemma wr_run: "run_state (wr io w v) h = ((), h\<lparr>h_dev := bus_write io w v (h_dev h)\<rparr>)"
  by (simp add: wr_def)

end

text \<open>The plain memory: nothing else ever writes to it.\<close>

definition ram_bus :: "ram bus" where
  "ram_bus = \<lparr>bus_read = (\<lambda>w m. (m w, m)), bus_write = (\<lambda>w v m. m(w := v)), bus_sleep = (\<lambda>us m. m),
     bus_clock = (\<lambda>m. (0, m))\<rparr>"

interpretation ram: memory_region ram_bus "\<lambda>m. m" UNIV
  by unfold_locales (auto simp: ram_bus_def)

lemma stores_ram: "run_state (stores ram_bus acc) h = ((), h\<lparr>h_dev := run_accesses acc (h_dev h)\<rparr>)"
  by (induction "ram_bus" acc arbitrary: h rule: stores.induct) (auto simp: wr_def ram_bus_def)

end
