(* ===== verification/Fmma_Selftest.thy ===== *)
theory Fmma_Selftest
  imports Fmma_Bus
begin

text \<open>
  Protocol conformance on hardware, \<open>Software/src/fmma_selftest.c\<close>: every check, driven through the
  host protocol against a device that is a parameter. The tally of the checks is passed through the
  tests; the printed lines go to standard output.
\<close>

section \<open>The code\<close>

abbreviation SETTLE_US :: nat where "SETTLE_US \<equiv> 20000"

definition BASE_PRICE :: u32 where
  "BASE_PRICE = 50000 * FMMA_PRICE_SCALE"

record fmma_selftest_result =
  tr_run :: u32
  tr_passed :: u32
  tr_failed :: u32

definition check :: "fmma_selftest_result \<Rightarrow> bool \<Rightarrow> string \<Rightarrow> string \<Rightarrow> ('d, fmma_selftest_result) prog" where
  "check r ok what detail =
     (let r1 = r\<lparr>tr_run := tr_run r + 1\<rparr>
      in if ok then do {
           printf (''  PASS  '' @ what @ nl);
           State_Monad.return (r1\<lparr>tr_passed := tr_passed r1 + 1\<rparr>) }
         else do {
           printf (''  FAIL  '' @ what @ nl @ (if detail \<noteq> [] then ''        '' @ detail @ nl else []));
           State_Monad.return (r1\<lparr>tr_failed := tr_failed r1 + 1\<rparr>) })"

definition checkf :: "fmma_selftest_result \<Rightarrow> bool \<Rightarrow> string \<Rightarrow> string \<Rightarrow> ('d, fmma_selftest_result) prog" where
  "checkf r ok what text = check r ok what (if ok then [] else snprintf_store 160 text)"

text \<open>The answer is the signal, or nothing; \<open>side_of\<close> is the side word of the zeroed struct.\<close>

definition side_of :: "fmma_signal option \<Rightarrow> u32" where
  "side_of got = (case got of None \<Rightarrow> 0 | Some s \<Rightarrow> sig_side s)"

definition quote_and_settle :: "'d bus \<Rightarrow> u32 \<Rightarrow> int \<Rightarrow> ('d, fmma_signal option) prog" where
  "quote_and_settle io step direction =
     (let mid = (if direction < 0 then BASE_PRICE - step else BASE_PRICE + step)
      in do {
        x_publish_tick io (BASE_PRICE - 100) (BASE_PRICE + 100) 1 1;
        usleep io SETTLE_US;
        x_poll_signal io;
        x_publish_tick io (mid - 100) (mid + 100) 1 1;
        usleep io SETTLE_US;
        x_poll_signal io })"

definition t_liveness :: "'d bus \<Rightarrow> fmma_selftest_result \<Rightarrow> ('d, fmma_selftest_result) prog" where
  "t_liveness io r = do {
     v \<leftarrow> x_read io FMMA_FW_VERSION;
     r \<leftarrow> checkf r (v = FMMA_PROTOCOL_VERSION) ''the CPU reports the protocol version this host was built for''
           (''FW_VERSION reads '' @ fmt_word v @ '', expected '' @ fmt_word FMMA_PROTOCOL_VERSION);
     a \<leftarrow> x_read io FMMA_HEARTBEAT;
     usleep io SETTLE_US;
     b \<leftarrow> x_read io FMMA_HEARTBEAT;
     r \<leftarrow> checkf r (b \<noteq> a) ''the heartbeat advances (the CPU is executing)'' (''HEARTBEAT stuck at '' @ fmt_word a);
     st \<leftarrow> x_read io FMMA_STATUS;
     checkf r (st AND FMMA_STATUS_RUNNING \<noteq> 0) ''STATUS reports RUNNING'' (''STATUS = 0x'' @ fmt_hex st) }"

definition t_seqlock_at_rest :: "'d bus \<Rightarrow> fmma_selftest_result \<Rightarrow> ('d, fmma_selftest_result) prog" where
  "t_seqlock_at_rest io r = do {
     x_publish_tick io (BASE_PRICE - 100) (BASE_PRICE + 100) 1 1;
     seq \<leftarrow> x_read io FMMA_TICK_SEQ;
     checkf r (seq AND 1 = 0) ''TICK_SEQ is even once a publish completes''
       (''TICK_SEQ = '' @ fmt_word seq @ '' (odd means a torn write)'') }"

definition t_decides :: "'d bus \<Rightarrow> u32 \<Rightarrow> fmma_selftest_result \<Rightarrow> ('d, fmma_selftest_result) prog" where
  "t_decides io step r = do {
     got \<leftarrow> quote_and_settle io step (- 1);
     r \<leftarrow> checkf r (got \<noteq> None \<and> side_of got = FMMA_SIGNAL_BUY) ''a downward move past the threshold produces BUY''
           (if got \<noteq> None then ''got side '' @ fmt_word (side_of got) else ''no decision at all'');
     got \<leftarrow> quote_and_settle io step 1;
     checkf r (got \<noteq> None \<and> side_of got = FMMA_SIGNAL_SELL) ''an upward move past the threshold produces SELL''
       (if got \<noteq> None then ''got side '' @ fmt_word (side_of got) else ''no decision at all'') }"

definition t_below_threshold :: "'d bus \<Rightarrow> fmma_selftest_result \<Rightarrow> ('d, fmma_selftest_result) prog" where
  "t_below_threshold io r = do {
     got \<leftarrow> quote_and_settle io 1 (- 1);
     checkf r (got = None) ''a move smaller than the threshold produces nothing''
       (''got a decision (side '' @ fmt_word (side_of got) @ '') that should have been suppressed'') }"

definition t_kill_switch :: "'d bus \<Rightarrow> u32 \<Rightarrow> fmma_selftest_result \<Rightarrow> ('d, fmma_selftest_result) prog" where
  "t_kill_switch io step r = do {
     before \<leftarrow> x_read io FMMA_REJECTS;
     x_set_enabled io False;
     usleep io SETTLE_US;
     got \<leftarrow> quote_and_settle io step (- 1);
     r \<leftarrow> checkf r (got = None) ''no decisions are published while disabled''
           (''got side '' @ fmt_word (side_of got) @ '' while CFG_ENABLE was 0'');
     st \<leftarrow> x_read io FMMA_STATUS;
     r \<leftarrow> checkf r (st AND FMMA_STATUS_DISABLED \<noteq> 0) ''the quote evaluated while disabled sets STATUS_DISABLED''
           (''STATUS = 0x'' @ fmt_hex st);
     after \<leftarrow> x_read io FMMA_REJECTS;
     r \<leftarrow> checkf r (after > before) ''a suppressed decision is counted in REJECTS''
           (''REJECTS did not move from '' @ fmt_word before);
     hb \<leftarrow> x_read io FMMA_HEARTBEAT;
     usleep io SETTLE_US;
     hb2 \<leftarrow> x_read io FMMA_HEARTBEAT;
     r \<leftarrow> checkf r (hb2 \<noteq> hb) ''the heartbeat keeps running while disabled'' (''HEARTBEAT stuck at '' @ fmt_word hb);
     x_set_enabled io True;
     usleep io SETTLE_US;
     got \<leftarrow> quote_and_settle io step (- 1);
     checkf r (got \<noteq> None) ''CFG_ENABLE = 1 resumes trading'' ''still suppressed'' }"

definition restart_cpu :: "'d bus \<Rightarrow> ('d, unit) prog" where
  "restart_cpu io = do { v \<leftarrow> x_read io FMMA_CFG_RESTART; x_write io FMMA_CFG_RESTART (v + 1); usleep io SETTLE_US }"

abbreviation TEST_LIMIT :: int where "TEST_LIMIT \<equiv> 2"

fun drive_up :: "'d bus \<Rightarrow> u32 \<Rightarrow> nat \<Rightarrow> int \<Rightarrow> ('d, int) prog" where
  "drive_up io step 0 buys = State_Monad.return buys"
| "drive_up io step (Suc n) buys = do {
     got \<leftarrow> quote_and_settle io step (- 1);
     if got \<noteq> None \<and> side_of got = FMMA_SIGNAL_BUY then do {
       x_report_fill io FMMA_FILL_BOUGHT 1;
       usleep io SETTLE_US;
       drive_up io step n (buys + 1) }
     else drive_up io step n buys }"

definition t_risk_limit :: "'d bus \<Rightarrow> u32 \<Rightarrow> fmma_selftest_result \<Rightarrow> ('d, fmma_selftest_result) prog" where
  "t_risk_limit io step r = do {
     x_write io FMMA_CFG_POSITION 0;
     x_write io FMMA_CFG_MAX_POS (word_of_int TEST_LIMIT);
     restart_cpu io;
     rejects_before \<leftarrow> x_read io FMMA_REJECTS;
     buys \<leftarrow> drive_up io step (nat (TEST_LIMIT + 3)) 0;
     v \<leftarrow> x_read io FMMA_POSITION;
     r \<leftarrow> checkf r (sint v = TEST_LIMIT) ''the fabric clamps the position at CFG_MAX_POS''
           (''POSITION = '' @ fmt_int (sint v) @ '', expected '' @ fmt_int TEST_LIMIT @ '' after '' @ fmt_int buys @ '' buys'');
     r \<leftarrow> checkf r (buys = TEST_LIMIT) ''buys past the limit are refused, not filled''
           (''the fabric issued '' @ fmt_int buys @ '' buys with a limit of '' @ fmt_int TEST_LIMIT);
     rejects_after \<leftarrow> x_read io FMMA_REJECTS;
     r \<leftarrow> checkf r (rejects_after > rejects_before) ''refusals at the limit are counted in REJECTS''
           (''REJECTS did not move from '' @ fmt_word rejects_before);
     st \<leftarrow> x_read io FMMA_STATUS;
     r \<leftarrow> checkf r (st AND FMMA_STATUS_RISK_BLOCKED \<noteq> 0) ''STATUS reports RISK_BLOCKED at the limit''
           (''STATUS = 0x'' @ fmt_hex st);
     got \<leftarrow> quote_and_settle io step 1;
     r \<leftarrow> checkf r (got \<noteq> None \<and> side_of got = FMMA_SIGNAL_SELL) ''the reducing side is still allowed at the limit''
           (if got \<noteq> None then ''got side '' @ fmt_word (side_of got) else ''the reducing side was blocked too'');
     if got \<noteq> None then do {
       x_report_fill io FMMA_FILL_SOLD 1;
       usleep io SETTLE_US;
       v2 \<leftarrow> x_read io FMMA_POSITION;
       checkf r (sint v2 = TEST_LIMIT - 1) (''a reported fill moves the fabric'' @ [CHR 0x27] @ ''s position'')
         (''POSITION = '' @ fmt_int (sint v2) @ '', expected '' @ fmt_int (TEST_LIMIT - 1)) }
     else State_Monad.return r }"

definition t_restart :: "'d bus \<Rightarrow> fmma_selftest_result \<Rightarrow> ('d, fmma_selftest_result) prog" where
  "t_restart io r = do {
     x_write io FMMA_CFG_POSITION (word_of_int (- 3));
     restart_cpu io;
     v \<leftarrow> x_read io FMMA_POSITION;
     r \<leftarrow> checkf r (sint v = - 3) ''restart adopts CFG_POSITION, including a short one''
           (''POSITION = '' @ fmt_int (sint v) @ '', expected '' @ fmt_int (- 3));
     st \<leftarrow> x_read io FMMA_STATUS;
     r \<leftarrow> checkf r (st AND FMMA_STATUS_RUNNING \<noteq> 0) ''the CPU is still running after a restart'' (''STATUS = 0x'' @ fmt_hex st);
     x_write io FMMA_CFG_POSITION 0;
     restart_cpu io;
     State_Monad.return r }"

definition t_host_never_written :: "'d bus \<Rightarrow> fmma_selftest_result \<Rightarrow> ('d, fmma_selftest_result) prog" where
  "t_host_never_written io r = do {
     seq \<leftarrow> x_read io FMMA_SIGNAL_SEQ;
     usleep io SETTLE_US;
     seq2 \<leftarrow> x_read io FMMA_SIGNAL_SEQ;
     checkf r (seq2 = seq) ''SIGNAL_SEQ does not move without a quote''
       ''it advanced with no input, so something else is writing it'' }"

definition all_tests :: "'d bus \<Rightarrow> u32 \<Rightarrow> fmma_selftest_result \<Rightarrow> ('d, fmma_selftest_result) prog" where
  "all_tests io step r = do {
     r \<leftarrow> t_liveness io r;
     r \<leftarrow> t_seqlock_at_rest io r;
     r \<leftarrow> t_decides io step r;
     r \<leftarrow> t_below_threshold io r;
     r \<leftarrow> t_host_never_written io r;
     r \<leftarrow> t_kill_switch io step r;
     r \<leftarrow> t_risk_limit io step r;
     t_restart io r }"

definition fmma_selftest_run :: "'d bus \<Rightarrow> ('d, int \<times> fmma_selftest_result) prog" where
  "fmma_selftest_run io = do {
     thresh0 \<leftarrow> x_read io FMMA_CFG_THRESH;
     let thresh = (if thresh0 = 0 then 5 else thresh0);
     printf (''hardware protocol conformance'' @ nl @ nl);
     x_set_enabled io True;
     usleep io SETTLE_US;
     r \<leftarrow> all_tests io (thresh * 4) \<lparr>tr_run = 0, tr_passed = 0, tr_failed = 0\<rparr>;
     x_set_enabled io False;
     printf (nl @ ''  '' @ fmt_word (tr_run r) @ '' checks, '' @ fmt_word (tr_passed r) @ '' passed, '' @
       fmt_word (tr_failed r) @ '' failed'' @ nl);
     (if tr_failed r = 0
      then printf (''  the fabric implements protocol v'' @ fmt_word FMMA_PROTOCOL_VERSION @ '' as specified'' @ nl)
      else State_Monad.return ());
     State_Monad.return (if tr_failed r = 0 then 0 else 1, r) }"

section \<open>Counting\<close>

text \<open>
  A test adds between \<open>lo\<close> and \<open>hi\<close> checks to the tally, each to exactly one of the two verdicts, at
  least \<open>bad\<close> of them failures.
\<close>

definition tallied :: "nat \<Rightarrow> nat \<Rightarrow> nat \<Rightarrow> fmma_selftest_result \<Rightarrow> fmma_selftest_result \<Rightarrow> bool" where
  "tallied lo hi bad r r' \<longleftrightarrow> (\<exists>p f. lo \<le> p + f \<and> p + f \<le> hi \<and> bad \<le> f \<and>
     tr_run r' = tr_run r + of_nat (p + f) \<and> tr_passed r' = tr_passed r + of_nat p \<and> tr_failed r' = tr_failed r + of_nat f)"

definition counts :: "nat \<Rightarrow> nat \<Rightarrow> fmma_selftest_result \<Rightarrow> ('d, fmma_selftest_result) prog \<Rightarrow> bool" where
  "counts lo hi r m \<longleftrightarrow> (\<forall>h. tallied lo hi 0 r (fst (run_state m h)))"

lemma tallied_trans:
  assumes "tallied l1 h1 b1 r r1" "tallied l2 h2 b2 r1 r2"
  shows "tallied (l1 + l2) (h1 + h2) (b1 + b2) r r2"
proof -
  obtain p1 f1 where 1: "l1 \<le> p1 + f1" "p1 + f1 \<le> h1" "b1 \<le> f1" "tr_run r1 = tr_run r + of_nat (p1 + f1)"
      "tr_passed r1 = tr_passed r + of_nat p1" "tr_failed r1 = tr_failed r + of_nat f1"
    using assms(1) by (auto simp: tallied_def)
  obtain p2 f2 where 2: "l2 \<le> p2 + f2" "p2 + f2 \<le> h2" "b2 \<le> f2" "tr_run r2 = tr_run r1 + of_nat (p2 + f2)"
      "tr_passed r2 = tr_passed r1 + of_nat p2" "tr_failed r2 = tr_failed r1 + of_nat f2"
    using assms(2) by (auto simp: tallied_def)
  show ?thesis unfolding tallied_def
    by (intro exI [of _ "p1 + p2"] exI [of _ "f1 + f2"]) (use 1 2 in simp)
qed

lemma tallied_refl: "tallied 0 0 0 r r"
  by (simp add: tallied_def)

lemma check_tallied: "tallied 1 1 (if ok then 0 else 1) r (fst (run_state (check r ok what detail) h))"
  unfolding tallied_def
  by (intro exI [of _ "if ok then 1 else 0"] exI [of _ "if ok then 0 else 1"]) (simp add: check_def Let_def printf_def)

lemma checkf_tallied: "tallied 1 1 (if ok then 0 else 1) r (fst (run_state (checkf r ok what detail) h))"
  unfolding checkf_def by (rule check_tallied)

lemma tallied_weaken: "tallied l1 h1 b1 r r' \<Longrightarrow> l2 \<le> l1 \<Longrightarrow> h1 \<le> h2 \<Longrightarrow> b2 \<le> b1 \<Longrightarrow> tallied l2 h2 b2 r r'"
  unfolding tallied_def by (meson order_trans)

lemma counts_checkf: "counts 1 1 r (checkf r ok what detail)"
  unfolding counts_def using checkf_tallied tallied_weaken by (metis order_refl zero_le)

lemma counts_return: "counts 0 0 r (State_Monad.return r)"
  by (simp add: counts_def tallied_refl)

lemma counts_seq:
  assumes "counts l1 h1 r m" "\<And>r1. counts l2 h2 r1 (k r1)"
  shows "counts (l1 + l2) (h1 + h2) r (State_Monad.bind m k)"
  unfolding counts_def
proof
  fix h
  obtain r1 h' where m: "run_state m h = (r1, h')" by fastforce
  have "tallied (l1 + l2) (h1 + h2) (0 + 0) r (fst (run_state (k r1) h'))"
    using assms(1) [unfolded counts_def, rule_format, of h] assms(2) [of r1, unfolded counts_def, rule_format, of h'] m
    by (intro tallied_trans) auto
  then show "tallied (l1 + l2) (h1 + h2) 0 r (fst (run_state (State_Monad.bind m k) h))" by (simp add: m)
qed

lemma counts_step:
  assumes "\<And>x. counts l u r (k x)"
  shows "counts l u r (State_Monad.bind m k)"
  unfolding counts_def
proof
  fix h
  obtain x h' where m: "run_state m h = (x, h')" by fastforce
  show "tallied l u 0 r (fst (run_state (State_Monad.bind m k) h))"
    using assms [of x, unfolded counts_def, rule_format, of h'] by (simp add: m)
qed

lemma counts_if: "counts l1 u1 r m1 \<Longrightarrow> counts l2 u2 r m2 \<Longrightarrow> counts (min l1 l2) (max u1 u2) r (if b then m1 else m2)"
  unfolding counts_def by (auto intro: tallied_weaken)

lemma counts_weaken: "counts l1 u1 r m \<Longrightarrow> l2 \<le> l1 \<Longrightarrow> u1 \<le> u2 \<Longrightarrow> counts l2 u2 r m"
  unfolding counts_def by (blast intro: tallied_weaken)

lemmas counts_rules = counts_checkf counts_return counts_seq [OF counts_checkf] counts_step

lemma tallied_bind:
  "run_state m h = (r1, h2) \<Longrightarrow> tallied l u b r (fst (run_state (k r1) h2)) \<Longrightarrow>
     tallied l u b r (fst (run_state (State_Monad.bind m k) h))"
  by simp

lemma t_liveness_counts: "counts 3 3 r (t_liveness io r)"
  unfolding t_liveness_def
  by (rule counts_weaken, (rule counts_rules)+) simp_all

lemma t_seqlock_counts: "counts 1 1 r (t_seqlock_at_rest io r)"
  unfolding t_seqlock_at_rest_def by (rule counts_weaken, (rule counts_rules)+) simp_all

lemma t_decides_counts: "counts 2 2 r (t_decides io step r)"
  unfolding t_decides_def by (rule counts_weaken, (rule counts_rules)+) simp_all

lemma t_below_counts: "counts 1 1 r (t_below_threshold io r)"
  unfolding t_below_threshold_def by (rule counts_weaken, (rule counts_rules)+) simp_all

lemma t_host_counts: "counts 1 1 r (t_host_never_written io r)"
  unfolding t_host_never_written_def by (rule counts_weaken, (rule counts_rules)+) simp_all

lemma t_kill_counts: "counts 5 5 r (t_kill_switch io step r)"
  unfolding t_kill_switch_def by (rule counts_weaken, (rule counts_rules)+) simp_all

lemma t_risk_counts: "counts 5 6 r (t_risk_limit io step r)"
  unfolding t_risk_limit_def by (rule counts_weaken, (rule counts_rules counts_if)+) simp_all

lemma t_restart_counts: "counts 2 2 r (t_restart io r)"
  unfolding t_restart_def by (rule counts_weaken, (rule counts_rules)+) simp_all

lemma later_tests_count:
  "counts 17 18 r (do {
     r \<leftarrow> t_seqlock_at_rest io r;
     r \<leftarrow> t_decides io step r;
     r \<leftarrow> t_below_threshold io r;
     r \<leftarrow> t_host_never_written io r;
     r \<leftarrow> t_kill_switch io step r;
     r \<leftarrow> t_risk_limit io step r;
     t_restart io r })"
  by (rule counts_weaken, (rule counts_seq t_seqlock_counts t_decides_counts t_below_counts t_host_counts t_kill_counts
      t_risk_counts t_restart_counts)+) simp_all

lemma all_tests_count: "counts 20 21 r (all_tests io step r)"
  unfolding all_tests_def
  by (rule counts_weaken, rule counts_seq, rule t_liveness_counts, rule later_tests_count) simp_all

text \<open>The parts of a run.\<close>

lemma selftest_run_parts:
  obtains step h1 where
    "fst (run_state (fmma_selftest_run io) h) =
      (let r = fst (run_state (all_tests io step \<lparr>tr_run = 0, tr_passed = 0, tr_failed = 0\<rparr>) h1)
       in (if tr_failed r = 0 then 0 else 1, r))"
    "h1 = snd (run_state (usleep io SETTLE_US) (snd (run_state (x_set_enabled io True)
       (snd (run_state (printf (''hardware protocol conformance'' @ nl @ nl)) (snd (run_state (x_read io FMMA_CFG_THRESH) h)))))))"
  by (rule that [OF _ refl]) (simp add: fmma_selftest_run_def Let_def split_beta)

lemma of_nat_small_zero: "n \<le> 21 \<Longrightarrow> of_nat n = (0 :: u32) \<longleftrightarrow> n = 0"
  by (auto simp: word_of_nat_eq_0_iff dest: dvd_imp_le)


section \<open>A CPU that is not running\<close>

lemma x_read_ram:
  "fmma_fpga_present (h_f h) \<Longrightarrow> run_state (x_read ram_bus w) h = (h_dev h w, h)"
  by (simp add: x_read_def get_f_def fmma_fpga_read_def rd_def ram_bus_def)

lemma check_outcome: "h_dev (snd (run_state (checkf r ok what d) h)) = h_dev h" "h_f (snd (run_state (checkf r ok what d) h)) = h_f h"
  by (auto simp: checkf_def check_def Let_def printf_def)

lemma liveness_dead:
  assumes "fmma_fpga_present (h_f h)"
  shows "tallied 3 3 1 r (fst (run_state (t_liveness ram_bus r) h))"
proof -
  let ?m = "h_dev h"
  let ?ca = "checkf r (?m FMMA_FW_VERSION = FMMA_PROTOCOL_VERSION) ''the CPU reports the protocol version this host was built for''
      (''FW_VERSION reads '' @ fmt_word (?m FMMA_FW_VERSION) @ '', expected '' @ fmt_word FMMA_PROTOCOL_VERSION)"
  obtain r1 h1 where c1: "run_state ?ca h = (r1, h1)" by fastforce
  have h1: "h_dev h1 = ?m" "fmma_fpga_present (h_f h1)"
    using check_outcome(1) [of r _ _ _ h] check_outcome(2) [of r _ _ _ h] c1 assms by (metis snd_conv)+
  have sl: "run_state (usleep ram_bus us) x = ((), x)" for us x by (simp add: usleep_def ram_bus_def)
  let ?cb = "checkf r1 (?m FMMA_HEARTBEAT \<noteq> ?m FMMA_HEARTBEAT) ''the heartbeat advances (the CPU is executing)''
      (''HEARTBEAT stuck at '' @ fmt_word (?m FMMA_HEARTBEAT))"
  obtain r2 h2 where c2: "run_state ?cb h1 = (r2, h2)" by fastforce
  have h2: "h_dev h2 = ?m" "fmma_fpga_present (h_f h2)"
    using check_outcome(1) [of r1 _ _ _ h1] check_outcome(2) [of r1 _ _ _ h1] c2 h1 by (metis snd_conv)+
  let ?cc = "checkf r2 (?m FMMA_STATUS AND FMMA_STATUS_RUNNING \<noteq> 0) ''STATUS reports RUNNING'' (''STATUS = 0x'' @ fmt_hex (?m FMMA_STATUS))"
  have eq: "run_state (t_liveness ram_bus r) h = run_state ?cc h2"
    unfolding t_liveness_def
    by (simp only: run_state_bind x_read_ram [OF assms] prod.case c1 x_read_ram [OF h1(2)] sl h1(1) c2
        x_read_ram [OF h2(2)] h2(1))
  have t1: "tallied 1 1 0 r (fst (run_state ?ca h))" by (rule tallied_weaken [OF checkf_tallied]) simp_all
  have t2: "tallied 1 1 (if ?m FMMA_HEARTBEAT \<noteq> ?m FMMA_HEARTBEAT then 0 else 1) r1 (fst (run_state ?cb h1))"
    by (rule checkf_tallied)
  have t2': "tallied 1 1 1 r1 r2" using t2 [unfolded c2 fst_conv] by simp
  have t3: "tallied 1 1 0 r2 (fst (run_state ?cc h2))" by (rule tallied_weaken [OF checkf_tallied]) simp_all
  have "tallied (1 + 1 + 1) (1 + 1 + 1) (0 + 1 + 0) r (fst (run_state ?cc h2))"
    by (rule tallied_trans [OF tallied_trans [OF t1 [unfolded c1 fst_conv]
        t2'] t3])
  then show ?thesis unfolding eq by (rule tallied_weaken) simp_all
qed

text \<open>
  A dead CPU never passes. Against a window that is plain memory, whatever it holds, with nothing
  executing behind it, the conformance run fails: a RAM image left by an earlier run, version and
  status words included, cannot stand in for a running CPU.
\<close>

theorem selftest_rejects_dead_cpu:
  assumes "fmma_fpga_present (h_f h)"
  shows "fst (fst (run_state (fmma_selftest_run ram_bus) h)) = 1"
proof (rule selftest_run_parts [of ram_bus h])
  fix step h1
  let ?zero = "\<lparr>tr_run = 0, tr_passed = 0, tr_failed = 0\<rparr>"
  let ?r = "fst (run_state (all_tests ram_bus step ?zero) h1)"
  assume a: "fst (run_state (fmma_selftest_run ram_bus) h) = (let r = ?r in (if tr_failed r = 0 then 0 else 1, r))"
    and h1: "h1 = snd (run_state (usleep ram_bus SETTLE_US) (snd (run_state (x_set_enabled ram_bus True)
       (snd (run_state (printf (''hardware protocol conformance'' @ nl @ nl)) (snd (run_state (x_read ram_bus FMMA_CFG_THRESH) h)))))))"
  have "h_f h1 = h_f h"
    unfolding h1 by (simp add: x_read_ram [OF assms] printf_def x_set_enabled_def get_f_def stores_ram usleep_def)
  then have p: "fmma_fpga_present (h_f h1)" using assms by simp
  obtain r1 h2 where l: "run_state (t_liveness ram_bus ?zero) h1 = (r1, h2)" by fastforce
  have "tallied 3 3 1 ?zero r1" using liveness_dead [OF p, of ?zero] l by simp
  moreover have "tallied 17 18 0 r1 ?r"
    unfolding all_tests_def
    by (rule tallied_bind [OF l]) (rule later_tests_count [unfolded counts_def, rule_format])
  ultimately have "tallied 20 21 1 ?zero ?r" using tallied_trans [of 3 3 1 ?zero r1 17 18 0 ?r] by simp
  then obtain p f where "p + f \<le> 21" "1 \<le> f" "tr_failed ?r = of_nat f" by (auto simp: tallied_def)
  then have "tr_failed ?r \<noteq> 0" using of_nat_small_zero [of f] by simp
  then show ?thesis using a by (simp add: Let_def)
qed

definition idle_fpga :: fmma_fpga where
  "idle_fpga = \<lparr>fpga_regs = True, fpga_map = True, fpga_fd = 3, fpga_tick_seq = 0, fpga_fill_seq = 0,
     fpga_signal_seq = 0, fpga_heartbeat = 0\<rparr>"

definition stale_ram :: ram where
  "stale_ram = (\<lambda>_. 0)(FMMA_FW_VERSION := FMMA_PROTOCOL_VERSION, FMMA_STATUS := 1, FMMA_HEARTBEAT := 77)"

theorem selftest_rejects_dead_cpu_witness:
  "fst (fst (run_state (fmma_selftest_run ram_bus) \<lparr>h_dev = stale_ram, h_f = Some idle_fpga, h_out = [], h_err = []\<rparr>)) = 1"
  by (rule selftest_rejects_dead_cpu) (simp add: fmma_fpga_present_def idle_fpga_def)

section \<open>What the run leaves behind\<close>

text \<open>A program that keeps the handle, and one that keeps a word as well; a program after which a word has a value.\<close>

definition steady :: "('d, 'a) prog \<Rightarrow> bool" where
  "steady m \<longleftrightarrow> (\<forall>h. fmma_fpga_present (h_f (snd (run_state m h))) = fmma_fpga_present (h_f h))"

definition keeps :: "('d \<Rightarrow> nat \<Rightarrow> u32) \<Rightarrow> nat \<Rightarrow> ('d, 'a) prog \<Rightarrow> bool" where
  "keeps cell w m \<longleftrightarrow> steady m \<and> (\<forall>h. cell (h_dev (snd (run_state m h))) w = cell (h_dev h) w)"

definition ends :: "('d \<Rightarrow> nat \<Rightarrow> u32) \<Rightarrow> nat \<Rightarrow> u32 \<Rightarrow> ('d, 'a) prog \<Rightarrow> bool" where
  "ends cell w v m \<longleftrightarrow> steady m \<and> (\<forall>h. fmma_fpga_present (h_f h) \<longrightarrow> cell (h_dev (snd (run_state m h))) w = v)"

lemma steady_bind: "steady m \<Longrightarrow> (\<And>x. steady (k x)) \<Longrightarrow> steady (State_Monad.bind m k)"
  by (simp add: steady_def split_beta)

lemma steady_if: "steady m1 \<Longrightarrow> steady m2 \<Longrightarrow> steady (if b then m1 else m2)"
  by simp

lemma steady_basic:
  "steady (State_Monad.return x)" "steady (printf s)" "steady (eprintf s)" "steady (usleep io us)" "steady (rd io w)" "steady (wr io w v)"
  "steady get_f"
  by (simp_all add: steady_def printf_def eprintf_def usleep_def rd_def wr_def get_f_def split_beta)

lemma steady_stores: "steady (stores io acc)"
  by (induction io acc rule: stores.induct) (auto intro: steady_basic steady_bind)

lemma stores_handle: "h_f (snd (run_state (stores io acc) h)) = h_f h"
  by (induction io acc arbitrary: h rule: stores.induct) (simp_all add: wr_def)

lemma publish_present: "fmma_fpga_present (fst (fmma_fpga_publish_tick f b a bs as)) = fmma_fpga_present f"
  by (cases f) (simp_all add: fmma_fpga_publish_tick_def fmma_fpga_present_def Let_def)

lemma fill_present: "fmma_fpga_present (fst (fmma_fpga_report_fill f side qty)) = fmma_fpga_present f"
  by (cases f) (simp_all add: fmma_fpga_report_fill_def fmma_fpga_present_def Let_def)

lemma poll_present: "fmma_fpga_present (fst (fmma_fpga_poll_signal f view)) = fmma_fpga_present f"
  by (cases f) (simp_all add: fmma_fpga_poll_signal_def fmma_fpga_present_def Let_def)

lemma steady_x:
  "steady (x_read io w)" "steady (x_write io w v)" "steady (x_set_enabled io on)"
  "steady (x_publish_tick io b a bs as)" "steady (x_report_fill io side qty)" "steady (x_poll_signal io)"
proof -
  show "steady (x_read io w)" by (auto simp: steady_def x_read_def get_f_def rd_def split_beta)
  show "steady (x_write io w v)" "steady (x_set_enabled io on)"
    unfolding x_write_def x_set_enabled_def by (intro steady_bind steady_basic steady_stores)+
  show "steady (x_publish_tick io b a bs as)"
    by (simp add: steady_def x_publish_tick_def get_f_def set_f_def split_beta publish_present)
  show "steady (x_report_fill io side qty)"
    by (simp add: steady_def x_report_fill_def get_f_def set_f_def split_beta fill_present)
  show "steady (x_poll_signal io)"
    by (simp add: steady_def x_poll_signal_def get_f_def set_f_def rd_def split_beta poll_present)
qed

text \<open>Words that only the host changes.\<close>

locale host_owned =
  fixes io :: "'d bus" and cell :: "'d \<Rightarrow> nat \<Rightarrow> u32" and owned :: "nat set"
  assumes read_any: "w \<in> owned \<Longrightarrow> cell (snd (bus_read io a d)) w = cell d w"
    and write_any: "w \<in> owned \<Longrightarrow> cell (bus_write io a v d) w = (if w = a then v else cell d w)"
    and sleep_any: "w \<in> owned \<Longrightarrow> cell (bus_sleep io us d) w = cell d w"
begin

lemma keeps_bind: "keeps cell w m \<Longrightarrow> (\<And>x. keeps cell w (k x)) \<Longrightarrow> keeps cell w (State_Monad.bind m k)"
  by (simp add: keeps_def steady_bind) (simp add: split_beta)

lemma ends_right: "steady m \<Longrightarrow> (\<And>x. ends cell w v (k x)) \<Longrightarrow> ends cell w v (State_Monad.bind m k)"
  by (simp add: ends_def steady_bind) (simp add: split_beta steady_def)

lemma ends_left: "ends cell w v m \<Longrightarrow> (\<And>x. keeps cell w (k x)) \<Longrightarrow> ends cell w v (State_Monad.bind m k)"
  by (simp add: ends_def keeps_def steady_bind) (simp add: split_beta)

lemma keeps_basic:
  assumes "w \<in> owned"
  shows "keeps cell w (State_Monad.return x)" "keeps cell w (printf s)" "keeps cell w (eprintf s)" "keeps cell w (usleep io us)"
    "keeps cell w (rd io a)"
  using assms
  by (simp_all add: keeps_def steady_basic)
    (simp_all add: printf_def eprintf_def usleep_def rd_def split_beta sleep_any read_any)

lemma keeps_x:
  assumes "w \<in> owned"
  shows "keeps cell w (x_read io a)" "a \<noteq> w \<Longrightarrow> keeps cell w (x_write io a v)"
    "w \<noteq> FMMA_CFG_ENABLE \<Longrightarrow> keeps cell w (x_set_enabled io on)"
    "w \<notin> {FMMA_TICK_SEQ, FMMA_BID, FMMA_ASK, FMMA_BID_SIZE, FMMA_ASK_SIZE} \<Longrightarrow> keeps cell w (x_publish_tick io p q ps qs)"
    "w \<notin> {FMMA_FILL_SEQ, FMMA_FILL_SIDE, FMMA_FILL_QTY} \<Longrightarrow> keeps cell w (x_report_fill io side qty)"
    "keeps cell w (x_poll_signal io)"
proof -
  show "keeps cell w (x_read io a)"
    using assms by (simp add: keeps_def steady_x) (simp add: x_read_def get_f_def rd_def split_beta read_any)
  show "a \<noteq> w \<Longrightarrow> keeps cell w (x_write io a v)"
    using assms by (simp add: keeps_def steady_x)
      (simp add: x_write_def get_f_def fmma_fpga_write_def wr_def split_beta write_any)
  show "w \<noteq> FMMA_CFG_ENABLE \<Longrightarrow> keeps cell w (x_set_enabled io on)"
    using assms by (simp add: keeps_def steady_x)
      (simp add: x_set_enabled_def get_f_def fmma_fpga_set_enabled_def wr_def split_beta write_any)
  show "w \<notin> {FMMA_TICK_SEQ, FMMA_BID, FMMA_ASK, FMMA_BID_SIZE, FMMA_ASK_SIZE} \<Longrightarrow> keeps cell w (x_publish_tick io p q ps qs)"
    using assms unfolding keeps_def
    by (intro conjI steady_x allI, case_tac "h_f h")
      (simp_all add: x_publish_tick_def get_f_def set_f_def fmma_fpga_publish_tick_def wr_def split_beta write_any Let_def)
  show "w \<notin> {FMMA_FILL_SEQ, FMMA_FILL_SIDE, FMMA_FILL_QTY} \<Longrightarrow> keeps cell w (x_report_fill io side qty)"
    using assms unfolding keeps_def
    by (intro conjI steady_x allI, case_tac "h_f h")
      (simp_all add: x_report_fill_def get_f_def set_f_def fmma_fpga_report_fill_def wr_def split_beta write_any Let_def)
  show "keeps cell w (x_poll_signal io)"
    using assms by (simp add: keeps_def steady_x)
      (simp add: x_poll_signal_def get_f_def set_f_def rd_def split_beta read_any)
qed

lemma keeps_if: "keeps cell w m1 \<Longrightarrow> keeps cell w m2 \<Longrightarrow> keeps cell w (if b then m1 else m2)"
  by simp

lemma keeps_checkf: "w \<in> owned \<Longrightarrow> keeps cell w (checkf r ok what text)"
  unfolding checkf_def check_def Let_def by (intro keeps_if keeps_bind keeps_basic)

lemma ends_write: "w \<in> owned \<Longrightarrow> ends cell w v (x_write io w v)"
  by (simp add: ends_def steady_x) (simp add: x_write_def get_f_def fmma_fpga_write_def wr_def write_any)

lemma ends_enabled: "FMMA_CFG_ENABLE \<in> owned \<Longrightarrow> ends cell FMMA_CFG_ENABLE (if on then 1 else 0) (x_set_enabled io on)"
  by (simp add: ends_def steady_x) (simp add: x_set_enabled_def get_f_def fmma_fpga_set_enabled_def wr_def write_any)

lemmas keeps_rules = keeps_bind keeps_basic keeps_x keeps_if keeps_checkf

lemma keeps_settle: "w \<in> owned \<Longrightarrow> w \<in> {FMMA_CFG_ENABLE, FMMA_CFG_MAX_POS, FMMA_CFG_POSITION} \<Longrightarrow> keeps cell w (quote_and_settle io step dir)"
  unfolding quote_and_settle_def Let_def by (intro keeps_rules) auto

lemma keeps_drive: "w \<in> owned \<Longrightarrow> w \<in> {FMMA_CFG_ENABLE, FMMA_CFG_MAX_POS, FMMA_CFG_POSITION} \<Longrightarrow> keeps cell w (drive_up io step n buys)"
proof (induction n arbitrary: buys)
  case (Suc n)
  then show ?case unfolding drive_up.simps by (intro keeps_rules keeps_settle) auto
qed (simp add: keeps_basic)

lemma keeps_restart_cpu: "w \<in> owned \<Longrightarrow> w \<noteq> FMMA_CFG_RESTART \<Longrightarrow> keeps cell w (restart_cpu io)"
  unfolding restart_cpu_def by (intro keeps_rules) auto

lemma risk_limit_ends:
  assumes "FMMA_CFG_MAX_POS \<in> owned"
  shows "ends cell FMMA_CFG_MAX_POS 2 (t_risk_limit io step r)"
  unfolding t_risk_limit_def
  by (rule ends_right [OF steady_x(2)], rule ends_left, use ends_write [OF assms, of 2] in simp)
    (intro keeps_rules keeps_settle keeps_drive keeps_restart_cpu; (simp add: assms)?)+

lemma restart_ends:
  assumes "FMMA_CFG_POSITION \<in> owned"
  shows "ends cell FMMA_CFG_POSITION 0 (t_restart io r)"
proof -
  have st: "steady (restart_cpu io)" for io :: "'d bus"
    unfolding restart_cpu_def by (intro steady_bind steady_x steady_basic)
  have ck: "steady (checkf r ok what d :: ('d, fmma_selftest_result) prog)" for r ok what d
    unfolding checkf_def check_def Let_def by (intro steady_if steady_bind steady_basic)
  show ?thesis unfolding t_restart_def
    by (intro ends_right [OF steady_x(2)] ends_right [OF st] ends_right [OF steady_x(1)] ends_right [OF ck]
        ends_left [OF ends_write [OF assms]] keeps_rules keeps_restart_cpu; (simp add: assms)?)
qed

end

lemma steady_settle: "steady (quote_and_settle io step dir)"
  unfolding quote_and_settle_def Let_def by (intro steady_bind steady_basic steady_x)

lemma steady_checkf: "steady (checkf r ok what text)"
  unfolding checkf_def check_def Let_def by (intro steady_if steady_bind steady_basic)

lemma steady_drive: "steady (drive_up io step n buys)"
proof (induction n arbitrary: buys)
  case (Suc n)
  then show ?case unfolding drive_up.simps by (intro steady_if steady_bind steady_basic steady_x steady_settle)
qed (simp add: steady_basic)

lemma steady_restart_cpu: "steady (restart_cpu io)"
  unfolding restart_cpu_def by (intro steady_bind steady_x steady_basic)

lemmas steady_rules = steady_bind steady_basic steady_x steady_if steady_settle steady_checkf steady_drive steady_restart_cpu

lemma steady_tests:
  "steady (t_liveness io r)" "steady (t_seqlock_at_rest io r)" "steady (t_decides io step r)" "steady (t_below_threshold io r)"
  "steady (t_host_never_written io r)" "steady (t_kill_switch io step r)" "steady (t_risk_limit io step r)" "steady (t_restart io r)"
  unfolding t_liveness_def t_seqlock_at_rest_def t_decides_def t_below_threshold_def t_host_never_written_def
    t_kill_switch_def t_risk_limit_def t_restart_def
  by (intro steady_rules)+

lemma selftest_main_part:
  "\<exists>step. snd (run_state (fmma_selftest_run io) h) =
     snd (run_state (do { x_read io FMMA_CFG_THRESH; printf (''hardware protocol conformance'' @ nl @ nl); x_set_enabled io True;
       usleep io SETTLE_US; r \<leftarrow> all_tests io step \<lparr>tr_run = 0, tr_passed = 0, tr_failed = 0\<rparr>; x_set_enabled io False;
       printf (nl @ ''  '' @ fmt_word (tr_run r) @ '' checks, '' @ fmt_word (tr_passed r) @ '' passed, '' @
         fmt_word (tr_failed r) @ '' failed'' @ nl);
       (if tr_failed r = 0
        then printf (''  the fabric implements protocol v'' @ fmt_word FMMA_PROTOCOL_VERSION @ '' as specified'' @ nl)
        else State_Monad.return ()) }) h)"
  by (rule exI [where x = "(if fst (run_state (x_read io FMMA_CFG_THRESH) h) = 0 then 5
        else fst (run_state (x_read io FMMA_CFG_THRESH) h)) * 4"])
    (simp add: fmma_selftest_run_def Let_def split_beta)

context host_owned
begin

lemma tests_leave_limit:
  assumes "FMMA_CFG_MAX_POS \<in> owned" "FMMA_CFG_POSITION \<in> owned"
  shows "ends cell FMMA_CFG_MAX_POS 2 (all_tests io step r)" "ends cell FMMA_CFG_POSITION 0 (all_tests io step r)"
proof -
  have k: "keeps cell FMMA_CFG_MAX_POS (t_restart io r)" for r
    unfolding t_restart_def by (intro keeps_rules keeps_restart_cpu) (simp_all add: assms)
  show "ends cell FMMA_CFG_MAX_POS 2 (all_tests io step r)" unfolding all_tests_def
    by (intro ends_right [OF steady_tests(1)] ends_right [OF steady_tests(2)] ends_right [OF steady_tests(3)]
        ends_right [OF steady_tests(4)] ends_right [OF steady_tests(5)] ends_right [OF steady_tests(6)]
        ends_left [OF risk_limit_ends [OF assms(1)]] k)
  show "ends cell FMMA_CFG_POSITION 0 (all_tests io step r)" unfolding all_tests_def
    by (intro ends_right [OF steady_tests(1)] ends_right [OF steady_tests(2)] ends_right [OF steady_tests(3)]
        ends_right [OF steady_tests(4)] ends_right [OF steady_tests(5)] ends_right [OF steady_tests(6)]
        ends_right [OF steady_tests(7)] restart_ends [OF assms(2)])
qed

lemma selftest_leaves:
  assumes "{FMMA_CFG_ENABLE, FMMA_CFG_MAX_POS, FMMA_CFG_POSITION} \<subseteq> owned" "fmma_fpga_present (h_f h)"
  shows "cell (h_dev (snd (run_state (fmma_selftest_run io) h))) FMMA_CFG_ENABLE = 0 \<and>
    cell (h_dev (snd (run_state (fmma_selftest_run io) h))) FMMA_CFG_MAX_POS = 2 \<and>
    cell (h_dev (snd (run_state (fmma_selftest_run io) h))) FMMA_CFG_POSITION = 0"
proof -
  obtain step where eq: "snd (run_state (fmma_selftest_run io) h) =
     snd (run_state (do { x_read io FMMA_CFG_THRESH; printf (''hardware protocol conformance'' @ nl @ nl); x_set_enabled io True;
       usleep io SETTLE_US; r \<leftarrow> all_tests io step \<lparr>tr_run = 0, tr_passed = 0, tr_failed = 0\<rparr>; x_set_enabled io False;
       printf (nl @ ''  '' @ fmt_word (tr_run r) @ '' checks, '' @ fmt_word (tr_passed r) @ '' passed, '' @
         fmt_word (tr_failed r) @ '' failed'' @ nl);
       (if tr_failed r = 0
        then printf (''  the fabric implements protocol v'' @ fmt_word FMMA_PROTOCOL_VERSION @ '' as specified'' @ nl)
        else State_Monad.return ()) }) h)" (is "_ = snd (run_state ?m h)")
    using selftest_main_part [of io h] by blast
  have own: "FMMA_CFG_ENABLE \<in> owned" "FMMA_CFG_MAX_POS \<in> owned" "FMMA_CFG_POSITION \<in> owned" using assms(1) by auto
  have st: "steady (all_tests io step r)" for r
    unfolding all_tests_def by (intro steady_bind steady_tests)
  have "ends cell FMMA_CFG_MAX_POS 2 ?m" "ends cell FMMA_CFG_POSITION 0 ?m"
    by (intro ends_right [OF steady_x(1)] ends_right [OF steady_basic(2)] ends_right [OF steady_x(3)] ends_right [OF steady_basic(4)]
        ends_left [OF tests_leave_limit(1) [OF own(2,3)]] ends_left [OF tests_leave_limit(2) [OF own(2,3)]] keeps_rules;
        (simp add: own)?)+
  moreover have "ends cell FMMA_CFG_ENABLE 0 ?m"
    using ends_enabled [OF own(1), of False]
    by (intro ends_right [OF steady_x(1)] ends_right [OF steady_basic(2)] ends_right [OF steady_x(3)] ends_right [OF steady_basic(4)]
        ends_right [OF st] ends_left keeps_rules; (simp add: own)?)
  ultimately show ?thesis unfolding eq using assms(2) unfolding ends_def by blast
qed

end

text \<open>The plain memory is owned by the host.\<close>

interpretation ram_owned: host_owned ram_bus "\<lambda>m. m" UNIV
  by unfold_locales (auto simp: ram_bus_def)

text \<open>
  The state after a conformance run. On any device that leaves the configuration words to the
  host, the run ends with trading disabled and the starting position zero, but with the position limit
  at 2, the value the limit test wrote, whatever it was before.
\<close>

theorem selftest_leaves_limit:
  assumes "host_owned io cell {FMMA_CFG_ENABLE, FMMA_CFG_MAX_POS, FMMA_CFG_POSITION}" "fmma_fpga_present (h_f h)"
  shows "cell (h_dev (snd (run_state (fmma_selftest_run io) h))) FMMA_CFG_ENABLE = 0 \<and>
    cell (h_dev (snd (run_state (fmma_selftest_run io) h))) FMMA_CFG_MAX_POS = 2 \<and>
    cell (h_dev (snd (run_state (fmma_selftest_run io) h))) FMMA_CFG_POSITION = 0"
  by (rule host_owned.selftest_leaves [OF assms(1) _ assms(2)]) simp

theorem selftest_leaves_limit_witness:
  "h_dev (snd (run_state (fmma_selftest_run ram_bus)
     \<lparr>h_dev = stale_ram(FMMA_CFG_MAX_POS := 10), h_f = Some idle_fpga, h_out = [], h_err = []\<rparr>)) FMMA_CFG_MAX_POS = 2"
proof -
  have "host_owned ram_bus (\<lambda>m. m) {FMMA_CFG_ENABLE, FMMA_CFG_MAX_POS, FMMA_CFG_POSITION}"
    by unfold_locales (auto simp: ram_bus_def)
  from selftest_leaves_limit [OF this, of "\<lparr>h_dev = stale_ram(FMMA_CFG_MAX_POS := 10), h_f = Some idle_fpga, h_out = [], h_err = []\<rparr>"]
  show ?thesis by (simp add: fmma_fpga_present_def idle_fpga_def)
qed

end
