(* ===== verification/Fmma_Bench.thy ===== *)
theory Fmma_Bench
  imports Fmma_Selftest Fmma_Platform Fmma_Stats Fmma_Strategy
begin

text \<open>
  The latency harness, \<open>Software/src/fmma_bench.c\<close>: options, the synthetic quote series, the busy poll,
  the measured loop, the report and \<open>main\<close>, against a device that is a parameter. The interrupt flag is
  the number of iterations after which it is seen; a busy poll that has not returned after \<open>polls\<close>
  polls makes the run \<open>None\<close>. Log lines are omitted.
\<close>

section \<open>Options\<close>

record bench_opts =
  bo_ticks :: u32
  bo_interval_us :: u32
  bo_threshold :: u32
  bo_max_position :: u32
  bo_half_spread :: u32
  bo_skew :: u32
  bo_base_price :: u32
  bo_spread :: u32
  bo_load :: bool
  bo_force :: bool
  bo_selftest :: bool
  bo_verbose :: bool
  bo_csv :: "string option"

definition bench_defaults :: bench_opts where
  "bench_defaults = \<lparr>bo_ticks = 1000, bo_interval_us = 1000, bo_threshold = 5, bo_max_position = 10, bo_half_spread = 0,
     bo_skew = 0, bo_base_price = 50000 * FMMA_PRICE_SCALE, bo_spread = 2 * FMMA_PRICE_SCALE, bo_load = True,
     bo_force = False, bo_selftest = False, bo_verbose = False, bo_csv = None\<rparr>"

definition bench_usage :: string where
  "bench_usage = ''fmma-bench - measure fabric decision latency (protocol v'' @ fmt_word FMMA_PROTOCOL_VERSION @ '')'' @ nl @ nl @
     ''  --selftest       check protocol conformance instead of timing'' @ nl @
     ''  --ticks N        quotes to publish            (default 1000)'' @ nl @
     ''  --interval US    microseconds between them    (default 1000)'' @ nl @
     ''  --threshold N    CFG_THRESH, price units      (default 5)'' @ nl @
     ''  --max-pos N      CFG_MAX_POS, lots            (default 10)'' @ nl @
     ''  --price N        centre price, price units    (default 5000000)'' @ nl @
     ''  --spread N       ask minus bid, price units   (default 200)'' @ nl @
     ''  --no-load        do not reload the CPU program'' @ nl @
     ''  --csv FILE       write one line per sample'' @ nl @
     ''  --force          map the bridge without the fabric-state check'' @ nl @
     ''  -v, --verbose'' @ nl"

text \<open>The options with a value, as updates.\<close>

definition bench_value_opt :: "string \<Rightarrow> (string \<Rightarrow> bench_opts \<Rightarrow> bench_opts) option" where
  "bench_value_opt a =
     (if a = ''--csv'' then Some (\<lambda>v opt. opt\<lparr>bo_csv := Some v\<rparr>)
      else if a = ''--ticks'' then Some (\<lambda>v opt. opt\<lparr>bo_ticks := strtoul v\<rparr>)
      else if a = ''--interval'' then Some (\<lambda>v opt. opt\<lparr>bo_interval_us := strtoul v\<rparr>)
      else if a = ''--threshold'' then Some (\<lambda>v opt. opt\<lparr>bo_threshold := strtoul v\<rparr>)
      else if a = ''--max-pos'' then Some (\<lambda>v opt. opt\<lparr>bo_max_position := strtoul v\<rparr>)
      else if a = ''--half-spread'' then Some (\<lambda>v opt. opt\<lparr>bo_half_spread := strtoul v\<rparr>)
      else if a = ''--skew'' then Some (\<lambda>v opt. opt\<lparr>bo_skew := strtoul v\<rparr>)
      else if a = ''--price'' then Some (\<lambda>v opt. opt\<lparr>bo_base_price := strtoul v\<rparr>)
      else if a = ''--spread'' then Some (\<lambda>v opt. opt\<lparr>bo_spread := strtoul v\<rparr>)
      else None)"

text \<open>Options, return code, standard output and standard error.\<close>

fun bench_parse :: "bench_opts \<Rightarrow> string list \<Rightarrow> bench_opts \<times> int \<times> string \<times> string" where
  "bench_parse opt [] = (if bo_ticks opt = 0 then opt\<lparr>bo_ticks := 1\<rparr> else opt, 0, [], [])"
| "bench_parse opt (a # rest) =
     (if a = ''-h'' \<or> a = ''--help'' then (opt, 1, bench_usage, [])
      else if a = ''--no-load'' then bench_parse (opt\<lparr>bo_load := False\<rparr>) rest
      else if a = ''--selftest'' then bench_parse (opt\<lparr>bo_selftest := True\<rparr>) rest
      else if a = ''--force'' then bench_parse (opt\<lparr>bo_force := True\<rparr>) rest
      else if a = ''-v'' \<or> a = ''--verbose'' then bench_parse (opt\<lparr>bo_verbose := True\<rparr>) rest
      else case (bench_value_opt a, rest) of
        (Some g, v # rest') \<Rightarrow> bench_parse (g v opt) rest'
      | _ \<Rightarrow> (opt, - 1, bench_usage, ''unknown option: '' @ a @ nl @ nl))"

section \<open>The series and the loop\<close>

definition synth_quote :: "bench_opts \<Rightarrow> u32 \<Rightarrow> u32 \<times> u32" where
  "synth_quote opt i =
     (let step = bo_threshold opt + 1;
          mid = (if i AND 1 \<noteq> 0 then bo_base_price opt + step else bo_base_price opt - step)
      in (mid - bo_spread opt div 2, mid + bo_spread opt div 2))"

abbreviation ANSWER_TIMEOUT_US :: u64 where "ANSWER_TIMEOUT_US \<equiv> 50000"

text \<open>\<open>Some (Some s)\<close> a decision, \<open>Some None\<close> a timeout, \<open>None\<close> still polling.\<close>

fun await_loop :: "'d bus \<Rightarrow> nat \<Rightarrow> u64 \<Rightarrow> ('d, fmma_signal option option) prog" where
  "await_loop io 0 deadline = State_Monad.return None"
| "await_loop io (Suc n) deadline = do {
     got \<leftarrow> x_poll_signal io;
     if got \<noteq> None then State_Monad.return (Some got)
     else do {
       t \<leftarrow> now_us io;
       if t < deadline then await_loop io n deadline else State_Monad.return (Some None) } }"

definition await_signal :: "'d bus \<Rightarrow> nat \<Rightarrow> ('d, fmma_signal option option) prog" where
  "await_signal io polls = do { t \<leftarrow> now_us io; await_loop io polls (t + ANSWER_TIMEOUT_US) }"

text \<open>The rate itself only goes to the log.\<close>

definition report_loop_rate :: "'d bus \<Rightarrow> ('d, u32) prog" where
  "report_loop_rate io = do { x_heartbeat_delta io; usleep io 1000000; x_heartbeat_delta io }"

record run_result =
  rr_published :: u32
  rr_answered :: u32
  rr_unanswered :: u32
  rr_mismatched :: u32
  rr_comparable :: bool

definition image_is_comparable :: bool where
  "image_is_comparable \<longleftrightarrow> FPGA_PROGRAM_NAME = ''trading.asm''"

definition prime :: "'d bus \<Rightarrow> bench_opts \<Rightarrow> fmma_strategy \<Rightarrow> ('d, fmma_strategy) prog" where
  "prime io opt sw =
     (case synth_quote opt 0 of (bid, ask) \<Rightarrow>
        do {
          x_publish_tick io bid ask 1 1;
          usleep io 1000;
          x_poll_signal io;
          State_Monad.return (fst (fmma_strategy_on_quote sw bid ask)) })"

record bench_state =
  bs_stats :: fmma_stats
  bs_sw :: fmma_strategy
  bs_result :: run_result
  bs_csv :: string

definition side_text :: "u32 \<Rightarrow> string" where
  "side_text side = (if side = FMMA_SIGNAL_BUY then ''BUY'' else ''SELL'')"

text \<open>What one answered tick adds: the latency sample, the counters, the CSV line and the fill.\<close>

definition answered :: "bench_opts \<Rightarrow> bool \<Rightarrow> u32 \<Rightarrow> u32 \<Rightarrow> u32 \<Rightarrow> fmma_signal \<Rightarrow> u64 \<Rightarrow> bench_state \<Rightarrow> bench_state" where
  "answered opt csv i seq sw_side sg now b =
     (let (st, us) = fmma_stats_signal (bs_stats b) (sig_tick sg) now;
          st1 = st\<lparr>signals := signals st + 1\<rparr>;
          r = bs_result b;
          r1 = r\<lparr>rr_answered := rr_answered r + 1\<rparr>;
          r2 = (if rr_comparable r1 \<and> sw_side \<noteq> FMMA_SIGNAL_NONE \<and> sw_side \<noteq> sig_side sg
                then r1\<lparr>rr_mismatched := rr_mismatched r1 + 1\<rparr> else r1);
          line = (if csv then fmt_word i @ '','' @ fmt_word seq @ '','' @ fmt_word (sig_tick sg) @ '','' @
                    side_text (sig_side sg) @ '','' @ fmt_word us @ nl else []);
          fill = (if sig_side sg = FMMA_SIGNAL_BUY then FMMA_FILL_BOUGHT else FMMA_FILL_SOLD)
      in b\<lparr>bs_stats := st1, bs_result := r2, bs_csv := bs_csv b @ line, bs_sw := fmma_strategy_on_fill (bs_sw b) fill 1\<rparr>)"

definition bench_tick :: "'d bus \<Rightarrow> nat \<Rightarrow> bench_opts \<Rightarrow> bool \<Rightarrow> u32 \<Rightarrow> bench_state \<Rightarrow> ('d, bench_state option) prog" where
  "bench_tick io polls opt csv i b =
     (case synth_quote opt i of (bid, ask) \<Rightarrow>
        do {
          t0 \<leftarrow> now_ns io;
          let (sw, sw_side) = fmma_strategy_on_quote (bs_sw b) bid ask;
          t1 \<leftarrow> now_ns io;
          let st = fmma_stats_software (bs_stats b) (t1 - t0);
          seq \<leftarrow> x_publish_tick io bid ask 1 1;
          t2 \<leftarrow> now_us io;
          let r = bs_result b;
          let b1 = b\<lparr>bs_sw := sw, bs_stats := fmma_stats_tick st seq t2, bs_result := r\<lparr>rr_published := rr_published r + 1\<rparr>\<rparr>;
          res \<leftarrow> await_signal io polls;
          (case res of
             None \<Rightarrow> State_Monad.return None
           | Some None \<Rightarrow>
               let r1 = bs_result b1
               in State_Monad.return (Some (b1\<lparr>bs_result := r1\<lparr>rr_unanswered := rr_unanswered r1 + 1\<rparr>\<rparr>))
           | Some (Some sg) \<Rightarrow> do {
               t3 \<leftarrow> now_us io;
               x_report_fill io (if sig_side sg = FMMA_SIGNAL_BUY then FMMA_FILL_BOUGHT else FMMA_FILL_SOLD) 1;
               (if bo_interval_us opt \<noteq> 0 then usleep io (unat (bo_interval_us opt)) else State_Monad.return ());
               State_Monad.return (Some (answered opt csv i seq sw_side sg t3 b1)) }) })"

fun bench_loop :: "'d bus \<Rightarrow> nat \<Rightarrow> bench_opts \<Rightarrow> bool \<Rightarrow> u32 list \<Rightarrow> bench_state \<Rightarrow> ('d, bench_state option) prog" where
  "bench_loop io polls opt csv [] b = State_Monad.return (Some b)"
| "bench_loop io polls opt csv (i # is) b = do {
     res \<leftarrow> bench_tick io polls opt csv i b;
     (case res of None \<Rightarrow> State_Monad.return None | Some b1 \<Rightarrow> bench_loop io polls opt csv is b1) }"

text \<open>The iterations \<open>1, \<dots>, ticks\<close> before the interrupt.\<close>

definition run_ticks ::
    "'d bus \<Rightarrow> nat \<Rightarrow> nat \<Rightarrow> bench_opts \<Rightarrow> bool \<Rightarrow> fmma_stats \<Rightarrow> fmma_strategy \<Rightarrow> ('d, bench_state option) prog" where
  "run_ticks io polls stop opt csv st sw = do {
     sw1 \<leftarrow> prime io opt sw;
     bench_loop io polls opt csv (map of_nat (take stop [1..<unat (bo_ticks opt) + 1]))
       \<lparr>bs_stats = st, bs_sw = sw1,
        bs_result = \<lparr>rr_published = 0, rr_answered = 0, rr_unanswered = 0, rr_mismatched = 0, rr_comparable = image_is_comparable\<rparr>,
        bs_csv = []\<rparr> }"

section \<open>Report and main\<close>

definition pad6 :: "u64 \<Rightarrow> string" where
  "pad6 v = pad_left 6 (fmt_word v)"

definition bench_report :: "'d bus \<Rightarrow> bench_opts \<Rightarrow> fmma_stats \<Rightarrow> run_result \<Rightarrow> ('d, unit) prog" where
  "bench_report io opt st r = do {
     s \<leftarrow> x_read_state io;
     printf (nl @ ''fabric decision latency, '' @ fmt_word (ucast (lat_count st) :: u32) @ '' samples'' @ nl);
     (if lat_count st \<noteq> 0 then
        printf (''  min   '' @ pad6 (lat_min st) @ '' us'' @ nl @
          ''  mean  '' @ pad6 (lat_sum st div lat_count st) @ '' us'' @ nl @
          ''  p99   '' @ pad6 (fmma_stats_percentile st dbl_0_99) @ '' us'' @ nl @
          ''  max   '' @ pad6 (lat_max st) @ '' us'' @ nl)
      else State_Monad.return ());
     printf (nl @ ''software transcription on the ARM core, '' @ fmt_word (ucast (sw_count st) :: u32) @ '' samples'' @ nl);
     (if sw_count st \<noteq> 0 then
        printf (''  mean  '' @ pad6 (sw_sum st div sw_count st) @ '' ns'' @ nl @ ''  max   '' @ pad6 (sw_max st) @ '' ns'' @ nl)
      else State_Monad.return ());
     printf (nl @ ''ticks published   '' @ fmt_word (rr_published r) @ nl @
       ''decisions read    '' @ fmt_word (rr_answered r) @ nl @
       ''unanswered        '' @ fmt_word (rr_unanswered r) @
         (if rr_unanswered r \<noteq> 0 then ''  <-- the CPU did not respond in time'' else []) @ nl @
       ''side mismatches   '' @ fmt_word (rr_mismatched r) @
         (if rr_mismatched r \<noteq> 0 then ''  <-- fabric and software disagree'' else []) @ nl @
       ''CPU rejects       '' @ fmt_word (st_rejects s) @ ''   position '' @ fmt_int (st_position s) @
         '' lots   status 0x'' @ fmt_hex (st_status s) @ nl @
       ''interval          '' @ fmt_word (bo_interval_us opt) @ '' us between ticks'' @ nl);
     printf (nl @ ''The fabric figure is a full round trip - publish, CPU loop,'' @ nl @
       ''decide, poll - across the lightweight bridge.  The software'' @ nl @
       ''figure is the strategy arithmetic alone, with no bridge in it.'' @ nl @
       ''They are not competitors; see docs/14-latency-and-performance.md.'' @ nl) }"

record bench_env =
  be_files :: "string \<Rightarrow> string option"
  be_calloc :: bool
  be_fd :: int
  be_mmap :: bool
  be_csv_ok :: bool
  be_polls :: nat
  be_stop :: nat

text \<open>After the device is open: the exit code and the CSV file, \<open>None\<close> while the busy poll has not returned.\<close>

definition bench_measure :: "'d bus \<Rightarrow> bench_env \<Rightarrow> bench_opts \<Rightarrow> ('d, (int \<times> string) option) prog" where
  "bench_measure io env opt = do {
     report_loop_rate io;
     let csv = (bo_csv opt \<noteq> None \<and> be_csv_ok env);
     t \<leftarrow> now_us io;
     res \<leftarrow> run_ticks io (be_polls env) (be_stop env) opt csv (fmma_stats_init t)
       (fmma_strategy_init (bo_threshold opt) (bo_max_position opt) 0);
     (case res of None \<Rightarrow> State_Monad.return None
      | Some b \<Rightarrow> do {
          x_set_enabled io False;
          bench_report io opt (bs_stats b) (bs_result b);
          x_close io;
          State_Monad.return (Some (if rr_unanswered (bs_result b) \<noteq> 0 \<or> rr_mismatched (bs_result b) \<noteq> 0 then 1 else 0,
            if csv then ''tick,seq,answer_tick,side,latency_us'' @ nl @ bs_csv b else [])) }) }"

definition bench_main :: "'d bus \<Rightarrow> bench_env \<Rightarrow> string list \<Rightarrow> ('d, (int \<times> string) option) prog" where
  "bench_main io env argv =
     (case bench_parse bench_defaults (tl argv) of (opt, rc, usage, err) \<Rightarrow>
        do {
          printf usage; eprintf err;
          if rc \<noteq> 0 then State_Monad.return (Some (if rc < 0 then 2 else 0, []))
          else if fmma_fabric_check (be_files env) (bo_force opt) \<noteq> 0 then State_Monad.return (Some (1, []))
          else do {
            let f = fmma_fpga_open (be_calloc env) (be_fd env) (be_mmap env);
            set_f f;
            if f = None \<or> \<not> fmma_fpga_present f then do { x_close io; State_Monad.return (Some (1, [])) }
            else do {
              let cfg = \<lparr>fc_threshold = bo_threshold opt, fc_max_position = bo_max_position opt, fc_start_position = 0,
                         fc_half_spread = bo_half_spread opt, fc_skew = bo_skew opt\<rparr>;
              rc2 \<leftarrow> (if bo_load opt then x_load io (Some cfg) else do { x_push_config io (Some cfg); State_Monad.return 0 });
              if rc2 \<noteq> 0 then do { x_close io; State_Monad.return (Some (1, [])) }
              else do {
                x_set_enabled io True;
                if bo_selftest opt then do {
                  sr \<leftarrow> fmma_selftest_run io;
                  x_close io;
                  State_Monad.return (Some (fst sr, [])) }
                else bench_measure io env opt } } } })"

section \<open>Accounting\<close>

text \<open>
  What a sequence of ticks adds to the result: \<open>a\<close> answered, \<open>u\<close> unanswered, \<open>m\<close> mismatched; every
  answered tick adds two to the signal counter, one in \<open>fmma_stats_signal\<close> and one after it.
\<close>

definition ticked :: "nat \<Rightarrow> nat \<Rightarrow> nat \<Rightarrow> bench_state \<Rightarrow> bench_state \<Rightarrow> bool" where
  "ticked a u m b b' \<longleftrightarrow> m \<le> a \<and>
     rr_published (bs_result b') = rr_published (bs_result b) + of_nat (a + u) \<and>
     rr_answered (bs_result b') = rr_answered (bs_result b) + of_nat a \<and>
     rr_unanswered (bs_result b') = rr_unanswered (bs_result b) + of_nat u \<and>
     rr_mismatched (bs_result b') = rr_mismatched (bs_result b) + of_nat m \<and>
     signals (bs_stats b') = signals (bs_stats b) + 2 * of_nat a"

lemma ticked_trans: "ticked a1 u1 m1 b b1 \<Longrightarrow> ticked a2 u2 m2 b1 b2 \<Longrightarrow> ticked (a1 + a2) (u1 + u2) (m1 + m2) b b2"
  by (simp add: ticked_def algebra_simps)

lemma stats_signal_signals: "signals (fst (fmma_stats_signal s seq now)) = signals s + 1"
  by (simp add: fmma_stats_signal_def Let_def record_latency_def)

lemma answered_counts:
  "ticked 1 0 0 b (answered opt csv i seq side sg now (b\<lparr>bs_sw := sw, bs_stats := fmma_stats_tick (fmma_stats_software (bs_stats b) ns) q t,
     bs_result := (bs_result b)\<lparr>rr_published := rr_published (bs_result b) + 1\<rparr>\<rparr>)) \<or>
   ticked 1 0 1 b (answered opt csv i seq side sg now (b\<lparr>bs_sw := sw, bs_stats := fmma_stats_tick (fmma_stats_software (bs_stats b) ns) q t,
     bs_result := (bs_result b)\<lparr>rr_published := rr_published (bs_result b) + 1\<rparr>\<rparr>))"
  using stats_signal_signals [of "fmma_stats_tick (fmma_stats_software (bs_stats b) ns) q t" "sig_tick sg" now]
  by (auto simp: answered_def ticked_def Let_def split_beta fmma_stats_tick_def fmma_stats_software_def)

lemma bench_tick_counts:
  assumes "fst (run_state (bench_tick io polls opt csv i b) h) = Some b'"
  shows "\<exists>a u m. a + u = 1 \<and> ticked a u m b b'"
proof -
  obtain bid ask where q: "synth_quote opt i = (bid, ask)" by fastforce
  obtain sw side where s: "fmma_strategy_on_quote (bs_sw b) bid ask = (sw, side)" by fastforce
  obtain t0 h1 where 1: "run_state (now_ns io) h = (t0, h1)" by fastforce
  obtain t1 h2 where 2: "run_state (now_ns io) h1 = (t1, h2)" by fastforce
  obtain seq h3 where 3: "run_state (x_publish_tick io bid ask 1 1) h2 = (seq, h3)" by fastforce
  obtain t2 h4 where 4: "run_state (now_us io) h3 = (t2, h4)" by fastforce
  obtain res h5 where 5: "run_state (await_signal io polls) h4 = (res, h5)" by fastforce
  define b1 where "b1 = b\<lparr>bs_sw := sw, bs_stats := fmma_stats_tick (fmma_stats_software (bs_stats b) (t1 - t0)) seq t2,
    bs_result := (bs_result b)\<lparr>rr_published := rr_published (bs_result b) + 1\<rparr>\<rparr>"
  show ?thesis
  proof (cases res)
    case None
    then show ?thesis using assms by (simp add: bench_tick_def q s Let_def 1 2 3 4 5)
  next
    case (Some got)
    show ?thesis
    proof (cases got)
      case None
      then have "b' = b1\<lparr>bs_result := (bs_result b1)\<lparr>rr_unanswered := rr_unanswered (bs_result b1) + 1\<rparr>\<rparr>"
        using assms Some by (simp add: bench_tick_def q s Let_def 1 2 3 4 5 b1_def)
      then have "ticked 0 1 0 b b'"
        by (simp add: ticked_def b1_def fmma_stats_tick_def fmma_stats_software_def)
      then show ?thesis by (intro exI [of _ 0] exI [of _ 1]) simp
    next
      case (Some sg)
      obtain t3 h6 where 6: "run_state (now_us io) h5 = (t3, h6)" by fastforce
      have "b' = answered opt csv i seq side sg t3 b1"
        using assms Some \<open>res = Some got\<close> by (simp add: bench_tick_def q s Let_def 1 2 3 4 5 6 b1_def split_beta)
      then have "ticked 1 0 0 b b' \<or> ticked 1 0 1 b b'"
        using answered_counts [where b = b and opt = opt and csv = csv and i = i and seq = seq and side = side and sg = sg
          and now = t3 and sw = sw and ns = "t1 - t0" and q = seq and t = t2] unfolding b1_def by simp
      then obtain m where "ticked 1 0 m b b'" by blast
      then show ?thesis by (intro exI [of _ 1] exI [of _ 0] exI [of _ m]) simp
    qed
  qed
qed

lemma bench_loop_counts:
  "fst (run_state (bench_loop io polls opt csv is b) h) = Some b' \<Longrightarrow> \<exists>a u m. a + u = length is \<and> ticked a u m b b'"
proof (induction "is" arbitrary: b h)
  case Nil
  then show ?case by (intro exI [of _ 0]) (simp add: ticked_def)
next
  case (Cons i "is")
  obtain res h1 where r: "run_state (bench_tick io polls opt csv i b) h = (res, h1)" by fastforce
  then obtain b1 where b1: "res = Some b1" using Cons.prems by (cases res) auto
  obtain a1 u1 m1 where 1: "a1 + u1 = 1" "ticked a1 u1 m1 b b1" using bench_tick_counts [of io polls opt csv i b h b1] r b1 by auto
  obtain a2 u2 m2 where 2: "a2 + u2 = length is" "ticked a2 u2 m2 b1 b'"
    using Cons.IH [of b1 h1] Cons.prems r b1 by auto
  show ?case using 1 2 ticked_trans [OF 1(2) 2(2)]
    by (intro exI [of _ "a1 + a2"] exI [of _ "u1 + u2"] exI [of _ "m1 + m2"]) simp
qed

text \<open>
  Every tick of the harness is accounted for, against any device: the ticks published are the ones
  answered plus the ones that timed out, all iterations up to the interrupt are made, and mismatches
  are answered ticks. The signal counter of the statistics ends at twice the answered ticks.
\<close>

theorem bench_accounts_for_ticks:
  assumes "fst (run_state (run_ticks io polls stop opt csv (fmma_stats_init t) sw) h) = Some b"
  shows "\<exists>a u m. a + u = min stop (unat (bo_ticks opt)) \<and> m \<le> a \<and>
    rr_published (bs_result b) = of_nat (a + u) \<and> rr_answered (bs_result b) = of_nat a \<and>
    rr_unanswered (bs_result b) = of_nat u \<and> rr_mismatched (bs_result b) = of_nat m \<and>
    signals (bs_stats b) = 2 * of_nat a"
proof -
  obtain sw1 h1 where p: "run_state (prime io opt sw) h = (sw1, h1)" by fastforce
  let ?is = "map of_nat (take stop [1..<unat (bo_ticks opt) + 1]) :: u32 list"
  let ?b = "\<lparr>bs_stats = fmma_stats_init t, bs_sw = sw1,
     bs_result = \<lparr>rr_published = 0, rr_answered = 0, rr_unanswered = 0, rr_mismatched = 0, rr_comparable = image_is_comparable\<rparr>, bs_csv = []\<rparr>"
  have "fst (run_state (bench_loop io polls opt csv ?is ?b) h1) = Some b" using assms by (simp add: run_ticks_def p)
  from bench_loop_counts [OF this] obtain a u m where "a + u = length ?is" "ticked a u m ?b b" by blast
  then show ?thesis by (intro exI [of _ a] exI [of _ u] exI [of _ m]) (auto simp: ticked_def fmma_stats_init_def min.commute)
qed

text \<open>The harness on a device that never answers and whose clock moves: one tick, published and timed out.\<close>

definition silent_bus :: "(ram \<times> u64) bus" where
  "silent_bus = \<lparr>bus_read = (\<lambda>w d. (fst d w, d)), bus_write = (\<lambda>w v d. ((fst d)(w := v), snd d)), bus_sleep = (\<lambda>us d. d),
     bus_clock = (\<lambda>d. (snd d, (fst d, snd d + 60000000)))\<rparr>"

abbreviation silent_host :: "(ram \<times> u64) host" where
  "silent_host \<equiv> \<lparr>h_dev = (\<lambda>_. 0, 0), h_f = Some idle_fpga, h_out = [], h_err = []\<rparr>"

abbreviation silent_ticks :: "bench_state option" where
  "silent_ticks \<equiv> fst (run_state (run_ticks silent_bus 3 5 (bench_defaults\<lparr>bo_ticks := 1\<rparr>) False (fmma_stats_init 0)
     (fmma_strategy_init 5 10 0)) silent_host)"

lemma silent_bus_sel:
  "bus_read silent_bus w d = (fst d w, d)" "bus_write silent_bus w v d = ((fst d)(w := v), snd d)" "bus_sleep silent_bus us d = d"
  "bus_clock silent_bus d = (snd d, (fst d, snd d + 60000000))"
  by (simp_all add: silent_bus_def)

lemma silent_stores: "run_state (stores silent_bus acc) h = ((), h\<lparr>h_dev := (run_accesses acc (fst (h_dev h)), snd (h_dev h))\<rparr>)"
  by (induction silent_bus acc arbitrary: h rule: stores.induct) (auto simp: wr_def silent_bus_sel split_beta)

lemma silent_publish:
  "run_state (x_publish_tick silent_bus bid ask bs as) h =
    (snd (snd (fmma_fpga_publish_tick (h_f h) bid ask bs as)),
     h\<lparr>h_dev := (run_accesses (fst (snd (fmma_fpga_publish_tick (h_f h) bid ask bs as))) (fst (h_dev h)), snd (h_dev h)),
       h_f := fst (fmma_fpga_publish_tick (h_f h) bid ask bs as)\<rparr>)"
  by (simp add: x_publish_tick_def get_f_def set_f_def silent_stores split_beta)

lemma silent_poll:
  "fst (h_dev h) FMMA_SIGNAL_SEQ = fpga_signal_seq f \<Longrightarrow> h_f h = Some f \<Longrightarrow> run_state (x_poll_signal silent_bus) h = (None, h)"
  by (simp add: x_poll_signal_def get_f_def rd_def silent_bus_sel)

lemma silent_await:
  assumes "fst (h_dev h) FMMA_SIGNAL_SEQ = fpga_signal_seq f" "h_f h = Some f" "snd (h_dev h) < 2 ^ 40"
  shows "fst (run_state (await_signal silent_bus (Suc n)) h) = Some None"
proof -
  let ?h = "h\<lparr>h_dev := (fst (h_dev h), snd (h_dev h) + 60000000)\<rparr>"
  have "run_state (x_poll_signal silent_bus) ?h = (None, ?h)" using assms(1,2) by (intro silent_poll [of _ f]) simp_all
  moreover have "\<not> (snd (h_dev h) + 60000000) div 1000 < snd (h_dev h) div 1000 + ANSWER_TIMEOUT_US"
    using assms(3) by (unfold word_less_nat_alt unat_div) (simp add: word_less_nat_alt unat_word_ariths unat_div)
  ultimately show ?thesis
    by (simp add: await_signal_def now_us_def now_ns_def silent_bus_sel)
qed

lemma silent_publish_keeps:
  assumes "fst (h_dev h) FMMA_SIGNAL_SEQ = fpga_signal_seq f" "h_f h = Some f"
    and "run_state (x_publish_tick silent_bus bid ask bs as) h = (seq, h')"
  shows "\<exists>f'. h_f h' = Some f' \<and> fst (h_dev h') FMMA_SIGNAL_SEQ = fpga_signal_seq f' \<and> snd (h_dev h') = snd (h_dev h)"
  using assms unfolding silent_publish
  by (auto simp: fmma_fpga_publish_tick_def Let_def split: if_splits)

lemma silent_tick:
  assumes f: "h_f h = Some f" and s: "fst (h_dev h) FMMA_SIGNAL_SEQ = fpga_signal_seq f" and c: "snd (h_dev h) < 2 ^ 39"
  shows "\<exists>b'. fst (run_state (bench_tick silent_bus (Suc n) opt csv i b) h) = Some b' \<and>
    rr_unanswered (bs_result b') = rr_unanswered (bs_result b) + 1"
proof -
  obtain bid ask where q: "synth_quote opt i = (bid, ask)" by fastforce
  obtain sw side where sd: "fmma_strategy_on_quote (bs_sw b) bid ask = (sw, side)" by fastforce
  define h2 where "h2 = h\<lparr>h_dev := (fst (h_dev h), snd (h_dev h) + 120000000)\<rparr>"
  obtain seq h3 where 3: "run_state (x_publish_tick silent_bus bid ask 1 1) h2 = (seq, h3)" by fastforce
  from silent_publish_keeps [OF _ _ this] s f obtain f' where
    f': "h_f h3 = Some f'" "fst (h_dev h3) FMMA_SIGNAL_SEQ = fpga_signal_seq f'" "snd (h_dev h3) = snd (h_dev h) + 120000000"
    by (auto simp: h2_def)
  let ?h4 = "h3\<lparr>h_dev := (fst (h_dev h3), snd (h_dev h3) + 60000000)\<rparr>"
  have "snd (h_dev h) + 180000000 < 2 ^ 40" using c by (simp add: word_less_nat_alt unat_word_ariths)
  then have "fst (run_state (await_signal silent_bus (Suc n)) ?h4) = Some None"
    using f' by (intro silent_await [of _ f']) (simp_all add: add.assoc)
  then show ?thesis
    by (simp add: bench_tick_def q sd now_us_def now_ns_def silent_bus_sel add.assoc 3 [unfolded h2_def] split_beta Let_def)
qed

lemma silent_prime:
  assumes "fst (h_dev h) FMMA_SIGNAL_SEQ = fpga_signal_seq f" "h_f h = Some f"
    and "run_state (prime silent_bus opt sw) h = (sw1, h1)"
  shows "\<exists>f'. h_f h1 = Some f' \<and> fst (h_dev h1) FMMA_SIGNAL_SEQ = fpga_signal_seq f' \<and> snd (h_dev h1) = snd (h_dev h)"
proof -
  obtain bid ask where q: "synth_quote opt 0 = (bid, ask)" by fastforce
  obtain seq h2 where p: "run_state (x_publish_tick silent_bus bid ask 1 1) h = (seq, h2)" by fastforce
  from silent_publish_keeps [OF assms(1,2) p] obtain f' where
    f': "h_f h2 = Some f'" "fst (h_dev h2) FMMA_SIGNAL_SEQ = fpga_signal_seq f'" "snd (h_dev h2) = snd (h_dev h)" by blast
  then have "h1 = h2" using assms(3)
    by (simp add: prime_def q p usleep_def silent_bus_sel silent_poll [of _ f'])
  then show ?thesis using f' by blast
qed

lemma silent_run: "\<exists>b. silent_ticks = Some b \<and> rr_unanswered (bs_result b) = 1"
proof -
  let ?opt = "bench_defaults\<lparr>bo_ticks := 1\<rparr>"
  obtain sw1 h1 where p: "run_state (prime silent_bus ?opt (fmma_strategy_init 5 10 0)) silent_host = (sw1, h1)" by fastforce
  let ?b = "\<lparr>bs_stats = fmma_stats_init 0, bs_sw = sw1,
     bs_result = \<lparr>rr_published = 0, rr_answered = 0, rr_unanswered = 0, rr_mismatched = 0, rr_comparable = image_is_comparable\<rparr>, bs_csv = []\<rparr>"
  obtain f where f: "h_f h1 = Some f" "fst (h_dev h1) FMMA_SIGNAL_SEQ = fpga_signal_seq f" "snd (h_dev h1) = 0"
    using silent_prime [OF _ _ p, of idle_fpga] by (auto simp: idle_fpga_def)
  have "snd (h_dev h1) < 2 ^ 39" using f(3) by (simp add: word_less_nat_alt)
  from silent_tick [OF f(1,2) this, of 2 ?opt False 1 ?b] obtain b where
    b: "fst (run_state (bench_tick silent_bus 3 ?opt False 1 ?b) h1) = Some b" "rr_unanswered (bs_result b) = 1"
    by (auto simp: eval_nat_numeral)
  then show ?thesis by (auto simp: run_ticks_def p split_beta)
qed

theorem bench_accounts_for_ticks_witness:
  "rr_published (bs_result (the silent_ticks)) = 1 \<and> signals (bs_stats (the silent_ticks)) = 0"
proof -
  obtain b where b: "silent_ticks = Some b" and r: "rr_unanswered (bs_result b) = 1" using silent_run by auto
  from bench_accounts_for_ticks [OF b] obtain a u m where
    "a + u = min 5 (unat (bo_ticks (bench_defaults\<lparr>bo_ticks := 1\<rparr>)))" "rr_published (bs_result b) = of_nat (a + u)"
    "rr_unanswered (bs_result b) = of_nat u" "signals (bs_stats b) = 2 * of_nat a" by blast
  then have au: "a + u = 1" "rr_published (bs_result b) = of_nat (a + u)"
    "rr_unanswered (bs_result b) = of_nat u" "signals (bs_stats b) = 2 * of_nat a" by simp_all
  then have "u \<noteq> 0" using r by (cases u) auto
  with au have "a = 0" "u = 1" by auto
  then show ?thesis using b au by simp
qed

end
