(* ===== verification/Fmma_Float.thy ===== *)
theory Fmma_Float
  imports Fmma_Cstd
begin

text \<open>
  The single-precision numbers of the market stream: \<open>strtof\<close>, multiplication, the conversion to
  \<open>unsigned int\<close> and the format \<open>%.2f\<close>. A finite \<open>float\<close> is a sign, a mantissa below \<open>2 ^ 24\<close> and an
  exponent of at least \<open>-149\<close>; every operation computes the exact result as a fraction of naturals and rounds
  it to the nearest, ties to the even mantissa.
\<close>

datatype cfloat = Fin bool nat int | Inf bool | Nan bool

abbreviation float_zero :: cfloat where "float_zero \<equiv> Fin False 0 0"

section \<open>Rounding\<close>

fun bit_len :: "nat \<Rightarrow> nat" where
  "bit_len n = (if n = 0 then 0 else Suc (bit_len (n div 2)))"

declare bit_len.simps [simp del]

text \<open>\<open>n / d\<close> rounded to a whole number, ties to even.\<close>

definition round_div :: "nat \<Rightarrow> nat \<Rightarrow> nat" where
  "round_div n d =
     (let q = n div d; r = n mod d
      in if 2 * r < d \<or> (2 * r = d \<and> even q) then q else q + 1)"

text \<open>\<open>n * 2 ^ e\<close> as a fraction.\<close>

definition scale2 :: "nat \<Rightarrow> nat \<Rightarrow> int \<Rightarrow> nat \<times> nat" where
  "scale2 n d e = (if e \<ge> 0 then (n * 2 ^ nat e, d) else (n, d * 2 ^ nat (- e)))"

text \<open>
  The exponent that leaves 24 significant bits of \<open>n / d\<close>: the difference of the lengths is the length
  of the quotient or one more.
\<close>

definition float_exp :: "nat \<Rightarrow> nat \<Rightarrow> int" where
  "float_exp n d =
     (let e = int (bit_len n) - int (bit_len d) - 24;
          (a, b) = scale2 n d (- e);
          e1 = (if a div b \<ge> 2 ^ 24 then e + 1 else e)
      in max e1 (- 149))"

definition float_of_ratio :: "bool \<Rightarrow> nat \<Rightarrow> nat \<Rightarrow> cfloat" where
  "float_of_ratio neg n d =
     (if n = 0 then Fin neg 0 0
      else
        let e = float_exp n d;
            (a, b) = scale2 n d (- e);
            m = round_div a b;
            (m1, e1) = (if m = 2 ^ 24 then (2 ^ 23, e + 1) else (m, e))
        in if e1 > 104 then Inf neg else Fin neg m1 e1)"

section \<open>Arithmetic\<close>

fun float_mult :: "cfloat \<Rightarrow> cfloat \<Rightarrow> cfloat" where
  "float_mult (Fin s m e) (Fin s' m' e') =
     (case scale2 (m * m') 1 (e + e') of (n, d) \<Rightarrow> float_of_ratio (s \<noteq> s') n d)"
| "float_mult (Nan s) x = Nan s"
| "float_mult x (Nan s) = Nan s"
| "float_mult (Inf s) (Inf s') = Inf (s \<noteq> s')"
| "float_mult (Inf s) (Fin s' m e) = (if m = 0 then Nan (s \<noteq> s') else Inf (s \<noteq> s'))"
| "float_mult (Fin s' m e) (Inf s) = (if m = 0 then Nan (s \<noteq> s') else Inf (s \<noteq> s'))"

definition float_1000 :: cfloat where
  "float_1000 = float_of_ratio False 1000 1"

text \<open>
  The conversion to \<open>unsigned int\<close> truncates; a value that does not fit after truncation is undefined
  behaviour, \<open>None\<close>.
\<close>

fun u32_of_float :: "cfloat \<Rightarrow> u32 option" where
  "u32_of_float (Fin s m e) =
     (case scale2 m 1 e of (n, d) \<Rightarrow>
        let q = n div d
        in if s then (if q = 0 then Some 0 else None)
           else if q < 2 ^ 32 then Some (word_of_nat q) else None)"
| "u32_of_float (Inf s) = None"
| "u32_of_float (Nan s) = None"

text \<open>\<open>%.2f\<close> of the value promoted to \<open>double\<close>, which is exact.\<close>

fun fmt_f2 :: "cfloat \<Rightarrow> string" where
  "fmt_f2 (Fin s m e) =
     (case scale2 (m * 100) 1 e of (n, d) \<Rightarrow>
        let c = round_div n d
        in (if s then ''-'' else []) @ dec_digits (c div 100) @ ''.'' @ zero_pad 2 (dec_digits (c mod 100)))"
| "fmt_f2 (Inf s) = (if s then ''-inf'' else ''inf'')"
| "fmt_f2 (Nan s) = (if s then ''-nan'' else ''nan'')"

section \<open>Reading\<close>

definition to_lower :: "char \<Rightarrow> char" where
  "to_lower c = (if 65 \<le> char_code c \<and> char_code c \<le> 90 then char_of (nat (char_code c + 32)) else c)"

text \<open>Digits of a base up to the first character that is none: their number, their value, the rest.\<close>

fun scan_digits :: "nat \<Rightarrow> string \<Rightarrow> nat \<Rightarrow> nat \<Rightarrow> nat \<times> nat \<times> string" where
  "scan_digits base [] k acc = (k, acc, [])"
| "scan_digits base (c # cs) k acc =
     (case hex_val c of None \<Rightarrow> (k, acc, c # cs)
      | Some v \<Rightarrow> if v < base then scan_digits base cs (k + 1) (acc * base + v) else (k, acc, c # cs))"

text \<open>The exponent after its letter; without a digit there is none.\<close>

definition scan_exp :: "char \<Rightarrow> string \<Rightarrow> int" where
  "scan_exp letter s =
     (case s of [] \<Rightarrow> 0
      | c # cs \<Rightarrow>
          if to_lower c \<noteq> letter then 0
          else
            let (neg, t) = (if c_at cs 0 = CHR ''-'' then (True, tl cs)
                            else if c_at cs 0 = CHR ''+'' then (False, tl cs) else (False, cs));
                (k, v, rest) = scan_digits 10 t 0 0
            in if neg then - int v else int v)"

text \<open>A mantissa with an optional fraction: digits seen, the value without the point, fraction digits.\<close>

definition scan_mantissa :: "nat \<Rightarrow> string \<Rightarrow> nat \<times> nat \<times> nat \<times> string" where
  "scan_mantissa base s =
     (let (k, v, t) = scan_digits base s 0 0
      in if c_at t 0 = CHR ''.''
         then (let (k', v', t') = scan_digits base (tl t) 0 v in (k + k', v', k', t'))
         else (k, v, 0, t))"

definition strtof :: "string \<Rightarrow> cfloat" where
  "strtof s =
     (case strto_sign s of (neg, t) \<Rightarrow>
        let low = map to_lower t;
            (hk, hv, hf, ht) = scan_mantissa 16 (drop 2 t);
            (k, v, f, rest) = scan_mantissa 10 t
        in if take 3 low = ''inf'' then Inf neg
           else if take 3 low = ''nan'' then Nan neg
           else if take 2 low = ''0x'' \<and> hk > 0
           then (case scale2 hv (16 ^ hf) (scan_exp (CHR ''p'') ht) of (n, d) \<Rightarrow> float_of_ratio neg n d)
           else if k = 0 then float_zero
           else let x = scan_exp (CHR ''e'') rest
                in if x \<ge> 0 then float_of_ratio neg (v * 10 ^ nat x) (10 ^ f)
                   else float_of_ratio neg v (10 ^ (f + nat (- x))))"

text \<open>A trade of 251 thousandths, multiplied by 1000 in single precision, is 250 after truncation.\<close>

lemmas float_eval = float_of_ratio_def float_exp_def round_div_def scale2_def bit_len.simps Let_def

lemma strtof_251: "strtof (''0.251'' @ CHR 0x22 # r) = Fin False 8422162 (- 25)"
  by (simp add: strtof_def strto_sign_def scan_mantissa_def scan_exp_def c_at_def to_lower_def hex_val_def is_space_def char_code_def float_eval)

lemma units_251: "u32_of_float (float_mult (Fin False 8422162 (- 25)) float_1000) = Some 250"
  by (simp add: float_1000_def float_eval)

end
