(* ===== verification/Fmma_Stream.thy ===== *)
theory Fmma_Stream
  imports Fmma_Float Fmma_Json Fmma_Bus
begin

text \<open>
  The second architecture's host programs, \<open>NewArch/In-Memory v2\<close>: the market stream
  \<open>MarketStream.c\<close>, which turns exchange messages into feed updates of the order-book core, and the two
  bring-up tests \<open>mm_feed_test.c\<close> and \<open>mm_read_test.c\<close>. The register file is a device, as in the
  diagnostics of the first architecture; the mongoose events are arguments.
\<close>

section \<open>Registers\<close>

abbreviation REG_ID :: nat where "REG_ID \<equiv> 0x00"
abbreviation REG_CTRL :: nat where "REG_CTRL \<equiv> 0x04"
abbreviation REG_STATUS :: nat where "REG_STATUS \<equiv> 0x08"
abbreviation REG_FEED_SYMBOL :: nat where "REG_FEED_SYMBOL \<equiv> 0x0C"
abbreviation REG_FEED_LEVEL :: nat where "REG_FEED_LEVEL \<equiv> 0x10"
abbreviation REG_FEED_DELTA :: nat where "REG_FEED_DELTA \<equiv> 0x14"
abbreviation REG_FEED_SUBMIT :: nat where "REG_FEED_SUBMIT \<equiv> 0x18"
abbreviation REG_BID_QTY0 :: nat where "REG_BID_QTY0 \<equiv> 0x22000"
abbreviation STATUS_CORE_READY :: u32 where "STATUS_CORE_READY \<equiv> 1"
abbreviation TEST_DELTA :: u32 where "TEST_DELTA \<equiv> 1000"
abbreviation TRADE_COOLDOWN_MS :: u32 where "TRADE_COOLDOWN_MS \<equiv> 1000"

text \<open>\<open>regs[R / 4]\<close>.\<close>

abbreviation rd_reg :: "'d bus \<Rightarrow> nat \<Rightarrow> ('d, u32) prog" where "rd_reg io r \<equiv> rd io (r div 4)"
abbreviation wr_reg :: "'d bus \<Rightarrow> nat \<Rightarrow> u32 \<Rightarrow> ('d, unit) prog" where "wr_reg io r v \<equiv> wr io (r div 4) v"

section \<open>The market stream\<close>

definition s_sub_msg :: string where
  "s_sub_msg = ''{'' @ json_pattern ''type'' @ ''subscribe'' @ [quote] @ '','' @ [quote] @ ''product_ids'' @ [quote] @ '':['' @ [quote] @
     ''BTC-USD'' @ [quote] @ ''],'' @ [quote] @ ''channels'' @ [quote] @ '':['' @ [quote] @ ''matches'' @ [quote] @ '','' @
     [quote] @ ''ticker'' @ [quote] @ '']}''"

abbreviation s_alpaca_host :: string where "s_alpaca_host \<equiv> ''paper-api.alpaca.markets''"

text \<open>The globals; \<open>fpga_regs\<close> is whether the registers are mapped.\<close>

record stream =
  ms_last_price :: cfloat
  ms_best_bid :: cfloat
  ms_best_ask :: cfloat
  ms_fpga_regs :: bool
  ms_last_trade_time :: u32

definition stream_init :: stream where
  "stream_init = \<lparr>ms_last_price = float_zero, ms_best_bid = float_zero, ms_best_ask = float_zero, ms_fpga_regs = False,
     ms_last_trade_time = 0\<rparr>"

text \<open>\<open>unsigned long\<close> has 32 bits on the target: the milliseconds wrap.\<close>

definition get_time_ms :: "int \<Rightarrow> int \<Rightarrow> u32" where
  "get_time_ms tv_sec tv_nsec = word_of_int (s32 (tv_sec * 1000)) + word_of_int (cdiv tv_nsec 1000000)"

text \<open>The order path: the new state and the request, if one is sent; it is called from nowhere.\<close>

definition alpaca_body :: "string \<Rightarrow> string" where
  "alpaca_body side = snprintf_store 256
     (''{'' @ json_pattern ''symbol'' @ ''BTCUSD'' @ [quote] @ '','' @ json_pattern ''qty'' @ ''0.001'' @ [quote] @ '','' @
      json_pattern ''side'' @ side @ [quote] @ '','' @ json_pattern ''type'' @ ''market'' @ [quote] @ '','' @
      json_pattern ''time_in_force'' @ ''gtc'' @ [quote] @ ''}'')"

abbreviation crlf :: string where "crlf \<equiv> [CHR 0x0D, CHR 0x0A]"

definition send_order_to_alpaca ::
    "stream \<Rightarrow> string \<Rightarrow> u32 \<Rightarrow> bool \<Rightarrow> string \<Rightarrow> string \<Rightarrow> ('d, stream \<times> string option) prog" where
  "send_order_to_alpaca s side now connected key secret =
     (if now - ms_last_trade_time s < TRADE_COOLDOWN_MS
      then do {
        printf (''[EXECUTION] Cooldown active. Ignoring '' @ side @ '' signal.'' @ nl);
        State_Monad.return (s, None) }
      else do {
        printf ([CHR 0xE2, CHR 0x9A, CHR 0xA1] @ '' [EXECUTION] Sending '' @ side @ '' order to Alpaca...'' @ nl);
        if \<not> connected then do {
          printf (''[EXECUTION] Failed to create connection.'' @ nl);
          State_Monad.return (s, None) }
        else
          let body = alpaca_body side
          in State_Monad.return (s\<lparr>ms_last_trade_time := now\<rparr>,
               Some (''POST /v2/orders HTTP/1.1'' @ crlf @ ''Host: '' @ s_alpaca_host @ crlf @
                 ''Content-Type: application/json'' @ crlf @ ''Content-Length: '' @ dec_digits (length body) @ crlf @
                 ''APCA-API-KEY-ID: '' @ key @ crlf @ ''APCA-API-SECRET-KEY: '' @ secret @ crlf @ crlf @ body)) })"

text \<open>The answer of the broker: whether the connection is drained.\<close>

datatype alpaca_event = AlpacaConnect | AlpacaHttp string | AlpacaOther

fun alpaca_cb :: "alpaca_event \<Rightarrow> ('d, bool) prog" where
  "alpaca_cb AlpacaConnect = State_Monad.return False"
| "alpaca_cb (AlpacaHttp m) = do { printf (''[ALPACA] Response: '' @ m @ nl); State_Monad.return True }"
| "alpaca_cb AlpacaOther = State_Monad.return False"

text \<open>The symbol register of a side: bit 2 selects the ask side.\<close>

definition side_symbol :: "char \<Rightarrow> u32 option" where
  "side_symbol c =
     (if c = CHR ''b'' \<or> c = CHR ''B'' then Some 0
      else if c = CHR ''s'' \<or> c = CHR ''S'' then Some 4 else None)"

definition update_fpga_input :: "'d bus \<Rightarrow> bool \<Rightarrow> u32 \<Rightarrow> u32 \<Rightarrow> string option \<Rightarrow> ('d, unit) prog" where
  "update_fpga_input io mapped price qty side =
     (case side of None \<Rightarrow> State_Monad.return ()
      | Some sd \<Rightarrow>
          if \<not> mapped then State_Monad.return ()
          else do {
            status \<leftarrow> rd_reg io REG_STATUS;
            if status AND STATUS_CORE_READY = 0
            then printf (''[FPGA] Core is not ready; feed update skipped.'' @ nl)
            else (case side_symbol (c_at sd 0) of
              None \<Rightarrow> printf (''[FPGA] Unknown side '' @ [CHR 0x27, c_at sd 0, CHR 0x27] @ ''; ignoring.'' @ nl)
            | Some symbol \<Rightarrow> do {
                wr_reg io REG_FEED_SYMBOL symbol;
                wr_reg io REG_FEED_LEVEL 0;
                wr_reg io REG_FEED_DELTA qty;
                wr_reg io REG_FEED_SUBMIT 1;
                printf (''[FPGA] Feed submitted: symbol='' @ fmt_word (symbol AND 3) @ '' side='' @
                  (if symbol AND 4 \<noteq> 0 then ''ask'' else ''bid'') @ '' level=0 delta='' @ fmt_int (sint qty) @ nl) }) })"

definition price_line :: "stream \<Rightarrow> string" where
  "price_line s = ''Bitcoin Price: $'' @ fmt_f2 (ms_last_price s) @ '' | Bid: $'' @ fmt_f2 (ms_best_bid s) @ '' | Ask: $'' @
     fmt_f2 (ms_best_ask s) @ nl"

text \<open>\<open>None\<close>: the conversion of the size to \<open>unsigned int\<close> is undefined.\<close>

definition process_market_message :: "'d bus \<Rightarrow> stream \<Rightarrow> string \<Rightarrow> ('d, stream option) prog" where
  "process_market_message io s data =
     (case (strstr data (json_pattern ''price''), strstr data (json_pattern ''size''), strstr data (json_pattern ''side'')) of
        (Some price_ptr, Some size_ptr, Some side_ptr) \<Rightarrow>
          let s1 = s\<lparr>ms_last_price := strtof (drop 9 price_ptr)\<rparr>;
              trade_size = strtof (drop 8 size_ptr);
              side = drop 8 side_ptr
          in do {
            printf (price_line s1);
            (case u32_of_float (float_mult trade_size float_1000) of
               None \<Rightarrow> State_Monad.return None
             | Some size_units \<Rightarrow> do {
                 (if size_units > 0 then update_fpga_input io (ms_fpga_regs s1) 0 size_units (Some side)
                  else State_Monad.return ());
                 State_Monad.return (Some s1) }) }
      | _ \<Rightarrow> State_Monad.return (Some s))"

definition process_ticker_message :: "stream \<Rightarrow> string \<Rightarrow> ('d, stream) prog" where
  "process_ticker_message s data =
     (let s1 = (case strstr data (json_pattern ''best_bid'') of None \<Rightarrow> s
                | Some p \<Rightarrow> s\<lparr>ms_best_bid := strtof (drop 12 p)\<rparr>);
          s2 = (case strstr data (json_pattern ''best_ask'') of None \<Rightarrow> s1
                | Some p \<Rightarrow> s1\<lparr>ms_best_ask := strtof (drop 12 p)\<rparr>)
      in do { printf (price_line s2); State_Monad.return s2 })"

datatype stream_event = StConnect | StOpen | StMsg string bool | StError "string option" | StClose | StOther

text \<open>A message carries its bytes and whether the allocation of the copy succeeds. The second result is the text sent.\<close>

fun coinbase_cb :: "'d bus \<Rightarrow> stream \<Rightarrow> stream_event \<Rightarrow> ('d, (stream \<times> string option) option) prog" where
  "coinbase_cb io s StConnect = do {
     printf (''TLS/WebSocket connection established.'' @ nl); State_Monad.return (Some (s, None)) }"
| "coinbase_cb io s StOpen = do {
     printf (''Connected to Coinbase! Subscribing...'' @ nl); State_Monad.return (Some (s, Some s_sub_msg)) }"
| "coinbase_cb io s (StMsg data malloc_ok) =
     (if \<not> malloc_ok then State_Monad.return (Some (s, None))
      else
        let tmp = takeWhile (\<lambda>c. c \<noteq> CHR 0x00) data
        in if strstr tmp (quote # ''match'' @ [quote]) \<noteq> None
           then do { r \<leftarrow> process_market_message io s tmp; State_Monad.return (map_option (\<lambda>s1. (s1, None)) r) }
           else if strstr tmp (quote # ''ticker'' @ [quote]) \<noteq> None
           then do { s1 \<leftarrow> process_ticker_message s tmp; State_Monad.return (Some (s1, None)) }
           else State_Monad.return (Some (s, None)))"
| "coinbase_cb io s (StError e) = do {
     printf (''Coinbase connection error: '' @ (case e of None \<Rightarrow> ''unknown'' | Some t \<Rightarrow> t) @ nl);
     State_Monad.return (Some (s, None)) }"
| "coinbase_cb io s StClose = do {
     printf (''Coinbase connection closed.'' @ nl); State_Monad.return (Some (s, None)) }"
| "coinbase_cb io s StOther = State_Monad.return (Some (s, None))"

text \<open>
  The loop of \<open>main\<close> over the events delivered so far; it has no exit. The outcome of the program is an
  exit code, or still running with the current state, or undefined behaviour in a conversion.
\<close>

datatype stream_outcome = StreamExit int | StreamRuns stream "string list" | StreamUndefined

fun stream_loop :: "'d bus \<Rightarrow> stream \<Rightarrow> string list \<Rightarrow> stream_event list \<Rightarrow> ('d, stream_outcome) prog" where
  "stream_loop io s sent [] = State_Monad.return (StreamRuns s sent)"
| "stream_loop io s sent (ev # evs) = do {
     r \<leftarrow> coinbase_cb io s ev;
     (case r of None \<Rightarrow> State_Monad.return StreamUndefined
      | Some (s1, t) \<Rightarrow> stream_loop io s1 (sent @ (case t of None \<Rightarrow> [] | Some x \<Rightarrow> [x])) evs) }"

text \<open>\<open>perror\<close> prints its argument and the text of \<open>errno\<close>.\<close>

definition stream_main :: "'d bus \<Rightarrow> int \<Rightarrow> bool \<Rightarrow> string \<Rightarrow> stream_event list \<Rightarrow> ('d, stream_outcome) prog" where
  "stream_main io fd mapped errno_text evs =
     (if fd = - 1 then do { eprintf (''open /dev/mem: '' @ errno_text @ nl); State_Monad.return (StreamExit 1) }
      else if \<not> mapped then do { eprintf (''mmap FPGA registers: '' @ errno_text @ nl); State_Monad.return (StreamExit 1) }
      else do {
        ident \<leftarrow> rd_reg io REG_ID;
        printf (''FPGA ID: 0x'' @ fmt_hex8 ident @ nl);
        status \<leftarrow> rd_reg io REG_STATUS;
        printf (''FPGA STATUS: 0x'' @ fmt_hex8 status @ nl);
        again \<leftarrow> rd_reg io REG_STATUS;
        if again AND STATUS_CORE_READY = 0
        then do { eprintf (''FPGA core is not ready; stopping.'' @ nl); State_Monad.return (StreamExit 1) }
        else do {
          printf (''--- Coinbase -> FPGA -> Alpaca ---'' @ nl @ nl);
          stream_loop io (stream_init\<lparr>ms_fpga_regs := True\<rparr>) [] evs } })"

section \<open>The bring-up tests\<close>

abbreviation MM_ID :: u32 where "MM_ID \<equiv> 0x4D4D0100"

definition feed_test_main :: "'d bus \<Rightarrow> int \<Rightarrow> bool \<Rightarrow> string \<Rightarrow> ('d, int) prog" where
  "feed_test_main io fd mapped errno_text = do {
     printf (''=== FPGA Feed Communication Test ==='' @ nl);
     if fd < 0 then do { eprintf (''open /dev/mem: '' @ errno_text @ nl); State_Monad.return 1 }
     else if \<not> mapped then do { eprintf (''mmap: '' @ errno_text @ nl); State_Monad.return 1 }
     else do {
       ident \<leftarrow> rd_reg io REG_ID;
       status \<leftarrow> rd_reg io REG_STATUS;
       printf (''FPGA ID: 0x'' @ fmt_hex8 ident @ nl @ ''STATUS:  0x'' @ fmt_hex8 status @ nl);
       if ident \<noteq> MM_ID then do { printf (''ERROR: Unexpected FPGA ID.'' @ nl); State_Monad.return 1 }
       else if status AND 1 = 0 then do { printf (''ERROR: FPGA core is not ready.'' @ nl); State_Monad.return 1 }
       else do {
         before \<leftarrow> rd_reg io REG_BID_QTY0;
         printf (nl @ ''Initial BTC bid quantity: '' @ fmt_word before @ nl);
         wr_reg io REG_FEED_SYMBOL 0;
         wr_reg io REG_FEED_LEVEL 0;
         wr_reg io REG_FEED_DELTA TEST_DELTA;
         wr_reg io REG_FEED_SUBMIT 1;
         printf (''Sent FPGA feed update: +1000'' @ nl);
         usleep io 1000;
         after \<leftarrow> rd_reg io REG_BID_QTY0;
         let expected = before + TEST_DELTA;
         printf (nl @ ''Updated BTC bid quantity: '' @ fmt_word after @ nl @
           ''Expected quantity:        '' @ fmt_word expected @ nl);
         if after = expected
         then do { printf (nl @ ''SUCCESS: HPS -> FPGA -> HPS communication verified!'' @ nl); State_Monad.return 0 }
         else do {
           printf (nl @ ''FAILURE: Readback does not match expected quantity.'' @ nl @
             ''Check the AXI feed path and book RAM update logic.'' @ nl);
           State_Monad.return 1 } } } }"

definition read_test_main :: "'d bus \<Rightarrow> int \<Rightarrow> bool \<Rightarrow> string \<Rightarrow> ('d, int) prog" where
  "read_test_main io fd mapped errno_text =
     (if fd < 0 then do { eprintf (''open /dev/mem: '' @ errno_text @ nl); State_Monad.return 1 }
      else if \<not> mapped then do { eprintf (''mmap: '' @ errno_text @ nl); State_Monad.return 1 }
      else do {
        ident \<leftarrow> rd io 0; ctrl \<leftarrow> rd io 1; status \<leftarrow> rd io 2;
        printf (''FPGA ID:     0x'' @ fmt_hex8 ident @ nl @ ''CTRL:        0x'' @ fmt_hex8 ctrl @ nl @
          ''STATUS:      0x'' @ fmt_hex8 status @ nl);
        State_Monad.return (if ident = MM_ID then 0 else 2) })"

section \<open>What reaches the core\<close>

text \<open>A device with a log of its writes, newest last; otherwise it behaves as the given one.\<close>

definition logged :: "'d bus \<Rightarrow> ('d \<times> (nat \<times> u32) list) bus" where
  "logged io = \<lparr>bus_read = (\<lambda>w d. case bus_read io w (fst d) of (v, d1) \<Rightarrow> (v, (d1, snd d))),
     bus_write = (\<lambda>w v d. (bus_write io w v (fst d), snd d @ [(w, v)])),
     bus_sleep = (\<lambda>us d. (bus_sleep io us (fst d), snd d)),
     bus_clock = (\<lambda>d. case bus_clock io (fst d) of (t, d1) \<Rightarrow> (t, (d1, snd d)))\<rparr>"

lemma logged_sel [simp]:
  "bus_read (logged io) w d = (fst (bus_read io w (fst d)), (snd (bus_read io w (fst d)), snd d))"
  "bus_write (logged io) w v d = (bus_write io w v (fst d), snd d @ [(w, v)])"
  "bus_sleep (logged io) us d = (bus_sleep io us (fst d), snd d)"
  by (simp_all add: logged_def split_beta)

abbreviation log :: "('d \<times> (nat \<times> u32) list) host \<Rightarrow> (nat \<times> u32) list" where
  "log h \<equiv> snd (h_dev h)"

text \<open>One feed update: the three operands, then the submit pulse.\<close>

definition feed_update :: "u32 \<Rightarrow> u32 \<Rightarrow> (nat \<times> u32) list" where
  "feed_update symbol delta = [(3, symbol), (4, 0), (5, delta), (6, 1)]"

definition updates_only :: "(nat \<times> u32) list \<Rightarrow> bool" where
  "updates_only ws \<longleftrightarrow> (\<exists>us. ws = concat (map (\<lambda>(sy, dl). feed_update sy dl) us) \<and> (\<forall>(sy, dl) \<in> set us. (sy = 0 \<or> sy = 4) \<and> dl \<noteq> 0))"

lemma updates_only_Nil [simp]: "updates_only []"
  unfolding updates_only_def by (intro exI [of _ "[]"]) simp

lemma updates_only_one: "sy = 0 \<or> sy = 4 \<Longrightarrow> dl \<noteq> 0 \<Longrightarrow> updates_only (feed_update sy dl)"
  unfolding updates_only_def by (intro exI [of _ "[(sy, dl)]"]) simp

lemma updates_only_append: "updates_only ws \<Longrightarrow> updates_only ws' \<Longrightarrow> updates_only (ws @ ws')"
  unfolding updates_only_def by (elim exE conjE, rule_tac x = "us @ usa" in exI) auto

lemma side_symbol_cases: "side_symbol c = Some sy \<Longrightarrow> sy = 0 \<or> sy = 4"
  by (simp add: side_symbol_def split: if_splits)

lemmas stream_run = rd_def wr_def printf_def eprintf_def usleep_def

lemma update_fpga_input_log:
  assumes "qty \<noteq> 0"
  shows "\<exists>ws. log (snd (run_state (update_fpga_input (logged io) mapped price qty side) h)) = log h @ ws \<and> updates_only ws"
  using assms updates_only_one [of _ qty]
  by (auto simp: update_fpga_input_def stream_run feed_update_def split: option.split dest!: side_symbol_cases)

lemma market_message_log:
  "\<exists>ws. log (snd (run_state (process_market_message (logged io) s data) h)) = log h @ ws \<and> updates_only ws"
proof -
  have "\<exists>ws. log (snd (run_state (update_fpga_input (logged io) mapped 0 qty side) (h\<lparr>h_out := t\<rparr>))) = log h @ ws \<and> updates_only ws"
    if "0 < qty" for mapped qty side t
    using update_fpga_input_log [of qty io mapped 0 side "h\<lparr>h_out := t\<rparr>"] that by simp
  then show ?thesis
    by (simp add: process_market_message_def Let_def printf_def split_beta split: option.split)
qed

lemma ticker_message_log: "log (snd (run_state (process_ticker_message s data) h)) = log h"
  by (simp add: process_ticker_message_def Let_def printf_def)

lemma coinbase_cb_log:
  "\<exists>ws. log (snd (run_state (coinbase_cb (logged io) s ev) h)) = log h @ ws \<and> updates_only ws"
  using market_message_log [of io s _ h]
  by (cases ev) (auto simp: printf_def Let_def split_beta ticker_message_log)

lemma stream_loop_log:
  "\<exists>ws. log (snd (run_state (stream_loop (logged io) s sent evs) h)) = log h @ ws \<and> updates_only ws"
proof (induction evs arbitrary: s sent h)
  case (Cons ev evs)
  obtain r h1 where r: "run_state (coinbase_cb (logged io) s ev) h = (r, h1)" by fastforce
  then obtain ws where ws: "log h1 = log h @ ws" "updates_only ws" using coinbase_cb_log [of io s ev h] by auto
  show ?case
  proof (cases r)
    case (Some p)
    obtain s1 t where "p = (s1, t)" by fastforce
    with Cons.IH [of s1 "sent @ (case t of None \<Rightarrow> [] | Some x \<Rightarrow> [x])" h1] ws Some r show ?thesis
      by (auto intro: updates_only_append)
  qed (use ws r in auto)
qed simp


section \<open>What the tests tell\<close>

text \<open>
  The feed test on any device: it passes exactly when the registers can be mapped, the identification and
  the ready bit are right, and the quantity read back is the quantity before plus 1000 in 32-bit arithmetic; and it
  writes to the core only after both checks, one feed update.
\<close>

theorem feed_test_verdict:
  "let (ident, d1) = bus_read io 0 (fst (h_dev h));
       (status, d2) = bus_read io 2 d1;
       (before, d3) = bus_read io 0x8800 d2;
       d4 = bus_sleep io 1000 (bus_write io 6 1 (bus_write io 5 1000 (bus_write io 4 0 (bus_write io 3 0 d3))));
       live = (fd \<ge> 0 \<and> mapped \<and> ident = MM_ID \<and> status AND 1 \<noteq> 0);
       res = run_state (feed_test_main (logged io) fd mapped et) h
   in fst res = (if live \<and> fst (bus_read io 0x8800 d4) = before + 1000 then 0 else 1) \<and>
      log (snd res) = log h @ (if live then feed_update 0 1000 else [])"
  by (auto simp: feed_test_main_def stream_run Let_def split_beta feed_update_def)

text \<open>
  A trade of 0.251 on a core that is ready is submitted as 250 thousandths: the product in single precision is just
  below 251 and the conversion truncates.
\<close>

abbreviation trade_251 :: string where
  "trade_251 \<equiv> ''{'' @ json_pattern ''type'' @ ''match'' @ [quote] @ '','' @ json_pattern ''side'' @ ''sell'' @ [quote] @ '','' @
     json_pattern ''size'' @ ''0.251'' @ [quote] @ '','' @ json_pattern ''price'' @ ''64000.00'' @ [quote] @ ''}''"

lemma market_message_submits:
  assumes "strstr data (json_pattern ''price'') = Some p" "strstr data (json_pattern ''size'') = Some z"
    "strstr data (json_pattern ''side'') = Some sd" "u32_of_float (float_mult (strtof (drop 8 z)) float_1000) = Some qty" "0 < qty"
    "side_symbol (c_at (drop 8 sd) 0) = Some sy" "ms_fpga_regs s" "fst (bus_read io 2 (fst (h_dev h))) AND 1 \<noteq> 0"
  shows "log (snd (run_state (process_market_message (logged io) s data) h)) = log h @ feed_update sy qty"
  using assms by (simp add: process_market_message_def update_fpga_input_def stream_run Let_def feed_update_def)

lemma trade_251_loses_a_unit:
  "log (snd (run_state (coinbase_cb (logged ram_bus) (stream_init\<lparr>ms_fpga_regs := True\<rparr>) (StMsg trade_251 True))
     \<lparr>h_dev = ((\<lambda>_. 0)(2 := 1), []), h_f = None, h_out = [], h_err = []\<rparr>)) = feed_update 4 250"
proof -
  have m: "strstr trade_251 (quote # ''match'' @ [quote]) \<noteq> None" and t: "takeWhile (\<lambda>c. c \<noteq> CHR 0x00) trade_251 = trade_251"
    by code_simp+
  have z: "strstr trade_251 (json_pattern ''size'') =
      Some (json_pattern ''size'' @ ''0.251'' @ quote # '','' @ json_pattern ''price'' @ ''64000.00'' @ [quote] @ ''}'')"
    (is "_ = Some ?z")
    by code_simp
  have "drop 8 ?z = ''0.251'' @ quote # '','' @ json_pattern ''price'' @ ''64000.00'' @ [quote] @ ''}''" by code_simp
  then have u: "u32_of_float (float_mult (strtof (drop 8 ?z)) float_1000) = Some 250"
    by (simp only: strtof_251 units_251)
  have p: "\<exists>p. strstr trade_251 (json_pattern ''price'') = Some p"
    and sd: "\<exists>sd. strstr trade_251 (json_pattern ''side'') = Some sd \<and> side_symbol (c_at (drop 8 sd) 0) = Some 4"
    unfolding atomize_conj by (simp add: json_pattern_def side_symbol_def c_at_def)
  show ?thesis
    using p sd market_message_submits [OF _ z _ u, of _ _ 4 "stream_init\<lparr>ms_fpga_regs := True\<rparr>" ram_bus]
    unfolding coinbase_cb.simps t Let_def using m by (auto simp: ram_bus_def split_beta simp del: append.simps)
qed

end
