(* ===== verification/Fmma_Isa.thy ===== *)
theory Fmma_Isa
  imports Fmma_Protocol
begin

text \<open>
  The CPU in the fabric, one instruction at a time, from the Verilog under \<open>Code/\<close>: the arithmetic unit
  (\<open>ALUFinal\<close>), the decoder of the control state machine (\<open>FSMTrial\<close>), the next-address logic (\<open>disp\<close>) and the
  datapath that joins them (\<open>cpu_core.v\<close>). The memory is the shared window; a step reads the instruction and makes at
  most one data access.
\<close>

section \<open>The arithmetic unit\<close>

record cpu_flags =
  fz :: bool
  fc :: bool
  ff :: bool
  fl :: bool
  fn :: bool

definition no_flags :: cpu_flags where
  "no_flags = \<lparr>fz = False, fc = False, ff = False, fl = False, fn = False\<rparr>"

abbreviation top_bit :: "u32 \<Rightarrow> bool" where "top_bit x \<equiv> bit x 31"

text \<open>The amount of a shift is the low five bits of the second operand, in two's complement.\<close>

definition shift_right_amount :: "u32 \<Rightarrow> nat" where
  "shift_right_amount b = unat ((NOT b + 1) AND 31)"

definition ALUFinal :: "u32 \<Rightarrow> u32 \<Rightarrow> nat \<Rightarrow> bool \<Rightarrow> u32 \<times> cpu_flags" where
  "ALUFinal a b opcode cin =
     (if opcode = 6 then (let c = a + b in (c, no_flags\<lparr>fz := c = 0, fc := uint a + uint b \<ge> 2 ^ 32\<rparr>))
      else if opcode = 5 then
        (let c = a + b
         in (c, no_flags\<lparr>fz := c = 0, ff := (\<not> top_bit a \<and> \<not> top_bit b \<and> top_bit c) \<or> (top_bit a \<and> top_bit b \<and> \<not> top_bit c),
                fn := top_bit c\<rparr>))
      else if opcode = 7 then
        (let k = (if cin then 1 else 0); c = a + b + of_bool cin; bc = b + of_bool cin
         in (c, no_flags\<lparr>fz := c = 0, fc := uint a + uint b + k \<ge> 2 ^ 32,
                ff := (\<not> top_bit a \<and> \<not> top_bit bc \<and> top_bit c) \<or> (top_bit a \<and> top_bit bc \<and> \<not> top_bit c), fn := top_bit c\<rparr>))
      else if opcode = 9 then
        (let c = a - b
         in (c, no_flags\<lparr>fz := c = 0, fc := \<not> a < b, ff := (top_bit a \<noteq> top_bit b) \<and> (top_bit a \<noteq> top_bit c), fl := a < b,
                fn := top_bit c\<rparr>))
      else if opcode = 10 then
        (let bc = b + of_bool (\<not> cin); c = a - bc
         in (c, no_flags\<lparr>fz := c = 0, fc := \<not> a < bc, ff := (top_bit a \<noteq> top_bit bc) \<and> (top_bit a \<noteq> top_bit c), fl := a < bc,
                fn := top_bit c\<rparr>))
      else if opcode = 11 then (0, no_flags\<lparr>fz := a = b, fl := a < b, fn := sint a < sint b\<rparr>)
      else if opcode = 1 then (a AND b, no_flags)
      else if opcode = 2 then (a OR b, no_flags)
      else if opcode = 3 then (a XOR b, no_flags)
      else if opcode = 8 then
        (if bit b 4 then drop_bit (shift_right_amount b) a else push_bit (unat (b AND 31)) a, no_flags)
      else if opcode = 13 then
        (if bit b 4 then signed_drop_bit (shift_right_amount b) a else push_bit (unat (b AND 31)) a, no_flags)
      else if opcode = 14 then (a * b, no_flags)
      else if opcode = 15 then (b, no_flags)
      else (0, no_flags))"

section \<open>Decoding\<close>

text \<open>
  The cases of the decode state. \<open>Halt\<close> stands for the zero word and for the encodings the state machine parks on:
  it re-reads the word until it is another one.
\<close>

datatype instr =
    RType nat nat nat
  | IType nat nat u32
  | Load nat nat
  | Stor nat nat
  | Jump nat nat
  | Branch nat nat
  | Halt

definition field :: "u32 \<Rightarrow> nat \<Rightarrow> nat" where
  "field w i = (unat w div 2 ^ i) mod 16"

definition decode :: "u32 \<Rightarrow> instr" where
  "decode w =
     (let op = field w 12; rd = field w 8; sub = field w 4; rs = field w 0
      in if w = 0 then Halt
         else if op = 4 then
           (if sub = 4 then Stor rd rs else if sub = 0 then Load rd rs else if sub = 12 then Jump rd rs else Halt)
         else if op = 12 then Branch rd (unat w mod 256)
         else if op = 0 then RType sub rd rs
         else IType op rd (word_of_nat ((unat w div 2 ^ 16) * 256 + unat w mod 256)))"

text \<open>The condition codes the decoder knows; any other is never taken.\<close>

definition cond_holds :: "nat \<Rightarrow> cpu_flags \<Rightarrow> bool" where
  "cond_holds cc f =
     (if cc = 0 then fz f else if cc = 1 then \<not> fz f else if cc = 13 then fz f \<or> fn f
      else if cc = 6 then fn f else if cc = 7 then fz f \<or> \<not> fn f else cc = 14)"

section \<open>The machine\<close>

type_synonym addr = "10 word"

record cpu =
  pc :: addr
  regs :: "nat \<Rightarrow> u32"
  flags :: cpu_flags

definition mem_addr :: "u32 \<Rightarrow> nat" where
  "mem_addr a = unat a mod 1024"

text \<open>The displacement of a branch is a signed byte.\<close>

definition displace :: "addr \<Rightarrow> nat \<Rightarrow> addr" where
  "displace p d = p + word_of_int (if d < 128 then int d else int d - 256)"

text \<open>One instruction against the memory as it is: the new state and the store it makes.\<close>

fun exec :: "instr \<Rightarrow> ram \<Rightarrow> cpu \<Rightarrow> cpu \<times> (nat \<times> u32) option" where
  "exec (RType op rd rs) m c =
     (case ALUFinal (regs c rd) (regs c rs) op (fc (flags c)) of (v, f) \<Rightarrow>
        (c\<lparr>pc := pc c + 1, regs := (if op = 11 then regs c else (regs c)(rd := v)), flags := f\<rparr>, None))"
| "exec (IType op rd imm) m c =
     (case ALUFinal (regs c rd) imm op (fc (flags c)) of (v, f) \<Rightarrow>
        (c\<lparr>pc := pc c + 1, regs := (if op = 11 then regs c else (regs c)(rd := v)), flags := f\<rparr>, None))"
| "exec (Load rd ra) m c = (c\<lparr>pc := pc c + 1, regs := (regs c)(rd := m (mem_addr (regs c ra)))\<rparr>, None)"
| "exec (Stor rs ra) m c = (c\<lparr>pc := pc c + 1\<rparr>, Some (mem_addr (regs c ra), regs c rs))"
| "exec (Jump cc rt) m c =
     (c\<lparr>pc := (if cond_holds cc (flags c) then word_of_nat (mem_addr (regs c rt)) else pc c + 1)\<rparr>, None)"
| "exec (Branch cc d) m c = (c\<lparr>pc := (if cond_holds cc (flags c) then displace (pc c) d else pc c + 1)\<rparr>, None)"
| "exec Halt m c = (c, None)"

definition cpu_step :: "cpu \<times> ram \<Rightarrow> cpu \<times> ram" where
  "cpu_step s =
     (case s of (c, m) \<Rightarrow>
      case exec (decode (m (unat (pc c)))) m c of (c1, st) \<Rightarrow>
        (c1, case st of None \<Rightarrow> m | Some (a, v) \<Rightarrow> m(a := v)))"

text \<open>
  Running beside the host: before each instruction the host's accesses of that moment reach the memory. With no
  accesses the CPU has the memory to itself.
\<close>

fun cpu_run :: "access list list \<Rightarrow> cpu \<times> ram \<Rightarrow> cpu \<times> ram" where
  "cpu_run [] s = s"
| "cpu_run (h # hs) s = (case s of (c, m) \<Rightarrow> cpu_run hs (cpu_step (c, run_accesses h m)))"

abbreviation cpu_alone :: "nat \<Rightarrow> cpu \<times> ram \<Rightarrow> cpu \<times> ram" where
  "cpu_alone n \<equiv> cpu_run (replicate n [])"

end
