(* ===== verification/Fmma_Firmware.thy ===== *)
theory Fmma_Firmware
  imports Fmma_Isa Fmma_Program
begin

text \<open>
  The program image of \<open>Software/fpga_program.h\<close> executed: its disassembly, the state the start-up block leaves, and
  what one pass of its main loop does. The image is the one the host loads; nothing here is taken from the assembly
  text.
\<close>

section \<open>Disassembly\<close>

definition firmware :: "instr list" where
  "firmware =
    [
     RType 3 0 0, IType 15 1 1, IType 15 2 256, IType 15 3 320, RType 3 9 9, RType 3 11 11,
     RType 3 12 12, IType 15 4 270, Load 13 4, IType 15 4 267, Load 14 4, RType 3 7 7,
     IType 15 4 321, Stor 7 4, IType 15 4 322, Stor 7 4, IType 15 4 323, Stor 7 4,
     IType 15 4 324, Stor 13 4, IType 15 4 326, Stor 7 4, IType 15 4 328, Stor 7 4,
     IType 15 4 329, Stor 7 4, IType 15 7 1, IType 15 4 325, Stor 7 4, IType 15 8 10,
     IType 9 8 3, IType 15 7 7, RType 11 8 7, Branch 1 117, IType 15 7 2, IType 15 4 327,
     Stor 7 4, IType 15 15 46, RType 5 12 1, Stor 12 3, IType 15 4 266, Load 8 4,
     RType 11 8 0, Branch 1 103, RType 5 4 1, Load 8 4, RType 11 8 14, Branch 0 13,
     RType 15 14 8, IType 15 4 268, Load 8 4, IType 15 4 269, Load 4 4, RType 11 8 1,
     Branch 1 3, RType 5 13 4, Branch 14 2, RType 9 13 4, IType 15 4 324, Stor 13 4,
     Load 7 2, RType 11 7 11, Branch 0 232, RType 15 8 7, RType 1 8 1, RType 11 8 0,
     Branch 1 228, RType 15 4 2, RType 5 4 1, Load 5 4, RType 5 4 1, Load 6 4,
     Load 8 2, RType 11 8 7, Branch 1 220, RType 15 11 7, RType 11 5 0, Branch 0 217,
     RType 11 6 0, Branch 0 215, RType 15 7 5, RType 5 7 6, RType 11 9 0, Branch 0 12,
     IType 15 4 261, Load 8 4, RType 5 8 8, RType 15 10 9, RType 9 10 8, RType 11 7 10,
     Branch 6 7, RType 15 10 9, RType 5 10 8, RType 11 10 7, Branch 6 15, RType 15 9 7,
     Jump 14 15, RType 15 9 7, IType 15 4 263, Load 8 4, RType 11 8 0, Branch 0 36,
     IType 15 4 262, Load 8 4, RType 11 13 8, Branch 6 2, Branch 14 29, IType 15 7 1,
     Branch 14 15, RType 15 9 7, IType 15 4 263, Load 8 4, RType 11 8 0, Branch 0 24,
     IType 15 4 262, Load 8 4, RType 3 10 10, RType 9 10 8, RType 11 10 13, Branch 6 2,
     Branch 14 15, IType 15 7 2, Branch 14 1, IType 15 4 321, Stor 7 4, IType 15 4 322,
     Stor 11 4, IType 15 7 1, IType 15 4 325, Stor 7 4, IType 15 4 323, Load 8 4,
     RType 5 8 1, Stor 8 4, Jump 14 15, IType 15 7 4, Branch 14 2, IType 15 7 8,
     RType 5 7 1, IType 15 4 325, Stor 7 4, IType 15 4 326, Load 8 4, RType 5 8 1,
     Stor 8 4, Jump 14 15, RType 3 8 8, Stor 8 4, IType 15 4 8, Jump 14 4,
     RType 5 12 1, Stor 12 3, IType 15 4 158, Jump 14 4
    ]"

lemma firmware_decodes: "map decode fpga_program = firmware"
  by (simp add: fpga_program_def firmware_def decode_def field_def)

lemma firmware_at:
  "firmware ! 0 = RType 3 0 0" "firmware ! Suc 0 = IType 15 1 1" "firmware ! 2 = IType 15 2 256"
  "firmware ! 3 = IType 15 3 320" "firmware ! 4 = RType 3 9 9" "firmware ! 5 = RType 3 11 11"
  "firmware ! 6 = RType 3 12 12" "firmware ! 7 = IType 15 4 270" "firmware ! 8 = Load 13 4"
  "firmware ! 9 = IType 15 4 267" "firmware ! 10 = Load 14 4" "firmware ! 11 = RType 3 7 7"
  "firmware ! 12 = IType 15 4 321" "firmware ! 13 = Stor 7 4" "firmware ! 14 = IType 15 4 322"
  "firmware ! 15 = Stor 7 4" "firmware ! 16 = IType 15 4 323" "firmware ! 17 = Stor 7 4"
  "firmware ! 18 = IType 15 4 324" "firmware ! 19 = Stor 13 4" "firmware ! 20 = IType 15 4 326"
  "firmware ! 21 = Stor 7 4" "firmware ! 22 = IType 15 4 328" "firmware ! 23 = Stor 7 4"
  "firmware ! 24 = IType 15 4 329" "firmware ! 25 = Stor 7 4" "firmware ! 26 = IType 15 7 1"
  "firmware ! 27 = IType 15 4 325" "firmware ! 28 = Stor 7 4" "firmware ! 29 = IType 15 8 10"
  "firmware ! 30 = IType 9 8 3" "firmware ! 31 = IType 15 7 7" "firmware ! 32 = RType 11 8 7"
  "firmware ! 33 = Branch 1 117" "firmware ! 34 = IType 15 7 2" "firmware ! 35 = IType 15 4 327"
  "firmware ! 36 = Stor 7 4" "firmware ! 37 = IType 15 15 46" "firmware ! 38 = RType 5 12 1"
  "firmware ! 39 = Stor 12 3" "firmware ! 40 = IType 15 4 266" "firmware ! 41 = Load 8 4"
  "firmware ! 42 = RType 11 8 0" "firmware ! 43 = Branch 1 103" "firmware ! 44 = RType 5 4 1"
  "firmware ! 45 = Load 8 4" "firmware ! 46 = RType 11 8 14" "firmware ! 47 = Branch 0 13"
  "firmware ! 48 = RType 15 14 8" "firmware ! 49 = IType 15 4 268" "firmware ! 50 = Load 8 4"
  "firmware ! 51 = IType 15 4 269" "firmware ! 52 = Load 4 4" "firmware ! 53 = RType 11 8 1"
  "firmware ! 54 = Branch 1 3" "firmware ! 55 = RType 5 13 4" "firmware ! 56 = Branch 14 2"
  "firmware ! 57 = RType 9 13 4" "firmware ! 58 = IType 15 4 324" "firmware ! 59 = Stor 13 4"
  "firmware ! 60 = Load 7 2" "firmware ! 61 = RType 11 7 11" "firmware ! 62 = Branch 0 232"
  "firmware ! 63 = RType 15 8 7" "firmware ! 64 = RType 1 8 1" "firmware ! 65 = RType 11 8 0"
  "firmware ! 66 = Branch 1 228" "firmware ! 67 = RType 15 4 2" "firmware ! 68 = RType 5 4 1"
  "firmware ! 69 = Load 5 4" "firmware ! 70 = RType 5 4 1" "firmware ! 71 = Load 6 4"
  "firmware ! 72 = Load 8 2" "firmware ! 73 = RType 11 8 7" "firmware ! 74 = Branch 1 220"
  "firmware ! 75 = RType 15 11 7" "firmware ! 76 = RType 11 5 0" "firmware ! 77 = Branch 0 217"
  "firmware ! 78 = RType 11 6 0" "firmware ! 79 = Branch 0 215" "firmware ! 80 = RType 15 7 5"
  "firmware ! 81 = RType 5 7 6" "firmware ! 82 = RType 11 9 0" "firmware ! 83 = Branch 0 12"
  "firmware ! 84 = IType 15 4 261" "firmware ! 85 = Load 8 4" "firmware ! 86 = RType 5 8 8"
  "firmware ! 87 = RType 15 10 9" "firmware ! 88 = RType 9 10 8" "firmware ! 89 = RType 11 7 10"
  "firmware ! 90 = Branch 6 7" "firmware ! 91 = RType 15 10 9" "firmware ! 92 = RType 5 10 8"
  "firmware ! 93 = RType 11 10 7" "firmware ! 94 = Branch 6 15" "firmware ! 95 = RType 15 9 7"
  "firmware ! 96 = Jump 14 15" "firmware ! 97 = RType 15 9 7" "firmware ! 98 = IType 15 4 263"
  "firmware ! 99 = Load 8 4" "firmware ! 100 = RType 11 8 0" "firmware ! 101 = Branch 0 36"
  "firmware ! 102 = IType 15 4 262" "firmware ! 103 = Load 8 4" "firmware ! 104 = RType 11 13 8"
  "firmware ! 105 = Branch 6 2" "firmware ! 106 = Branch 14 29" "firmware ! 107 = IType 15 7 1"
  "firmware ! 108 = Branch 14 15" "firmware ! 109 = RType 15 9 7" "firmware ! 110 = IType 15 4 263"
  "firmware ! 111 = Load 8 4" "firmware ! 112 = RType 11 8 0" "firmware ! 113 = Branch 0 24"
  "firmware ! 114 = IType 15 4 262" "firmware ! 115 = Load 8 4" "firmware ! 116 = RType 3 10 10"
  "firmware ! 117 = RType 9 10 8" "firmware ! 118 = RType 11 10 13" "firmware ! 119 = Branch 6 2"
  "firmware ! 120 = Branch 14 15" "firmware ! 121 = IType 15 7 2" "firmware ! 122 = Branch 14 1"
  "firmware ! 123 = IType 15 4 321" "firmware ! 124 = Stor 7 4" "firmware ! 125 = IType 15 4 322"
  "firmware ! 126 = Stor 11 4" "firmware ! 127 = IType 15 7 1" "firmware ! 128 = IType 15 4 325"
  "firmware ! 129 = Stor 7 4" "firmware ! 130 = IType 15 4 323" "firmware ! 131 = Load 8 4"
  "firmware ! 132 = RType 5 8 1" "firmware ! 133 = Stor 8 4" "firmware ! 134 = Jump 14 15"
  "firmware ! 135 = IType 15 7 4" "firmware ! 136 = Branch 14 2" "firmware ! 137 = IType 15 7 8"
  "firmware ! 138 = RType 5 7 1" "firmware ! 139 = IType 15 4 325" "firmware ! 140 = Stor 7 4"
  "firmware ! 141 = IType 15 4 326" "firmware ! 142 = Load 8 4" "firmware ! 143 = RType 5 8 1"
  "firmware ! 144 = Stor 8 4" "firmware ! 145 = Jump 14 15" "firmware ! 146 = RType 3 8 8"
  "firmware ! 147 = Stor 8 4" "firmware ! 148 = IType 15 4 8" "firmware ! 149 = Jump 14 4"
  "firmware ! 150 = RType 5 12 1" "firmware ! 151 = Stor 12 3" "firmware ! 152 = IType 15 4 158"
  "firmware ! 153 = Jump 14 4"
  by (simp_all add: firmware_def)

definition loaded :: "ram \<Rightarrow> bool" where
  "loaded m \<longleftrightarrow> (\<forall>i < FPGA_PROGRAM_LEN. m (FPGA_PROGRAM_BASE + i) = fpga_program ! i)"

lemma loaded_fetch:
  assumes "loaded m" "8 \<le> a" "a < 162"
  shows "decode (m a) = firmware ! (a - 8)"
proof -
  have "m a = fpga_program ! (a - 8)" using assms by (auto simp: loaded_def FPGA_PROGRAM_LEN_def FPGA_PROGRAM_BASE_def dest: spec [of _ "a - 8"])
  moreover have "a - 8 < length fpga_program" using assms(2,3) by (simp add: fpga_program_def)
  ultimately show ?thesis unfolding firmware_decodes [symmetric] by simp
qed

lemma loaded_upd [simp]: "162 \<le> a \<Longrightarrow> loaded (m(a := v)) = loaded m"
  by (auto simp: loaded_def FPGA_PROGRAM_LEN_def FPGA_PROGRAM_BASE_def)

section \<open>Symbolic execution\<close>

abbreviation at :: "addr \<Rightarrow> (nat \<Rightarrow> u32) \<Rightarrow> cpu_flags \<Rightarrow> cpu" where
  "at p r f \<equiv> \<lparr>pc = p, regs = r, flags = f\<rparr>"

text \<open>
  Within \<open>b\<close> instructions, with the memory to itself, the CPU comes to a state in which \<open>P\<close> holds, and until then
  the memory satisfies \<open>I\<close> before every instruction.
\<close>

definition within :: "nat \<Rightarrow> (ram \<Rightarrow> bool) \<Rightarrow> cpu \<times> ram \<Rightarrow> (cpu \<Rightarrow> ram \<Rightarrow> bool) \<Rightarrow> bool" where
  "within b I s P \<longleftrightarrow> (\<exists>n \<le> b. (\<forall>k < n. I (snd (cpu_alone k s))) \<and> (case cpu_alone n s of (c, m) \<Rightarrow> P c m))"

lemma within_here: "P c m \<Longrightarrow> within b I (c, m) P"
  unfolding within_def by (intro exI [of _ 0]) simp

lemma within_step:
  assumes "0 < b" "I m" "within (b - 1) I (cpu_step (c, m)) P"
  shows "within b I (c, m) P"
proof -
  obtain n where n: "n \<le> b - 1" "\<forall>k < n. I (snd (cpu_alone k (cpu_step (c, m))))" "case cpu_alone n (cpu_step (c, m)) of (c, m) \<Rightarrow> P c m"
    using assms(3) by (auto simp: within_def)
  have "I (snd (cpu_alone k (c, m)))" if "k < Suc n" for k
    using that n(2) assms(2) by (cases k) auto
  then show ?thesis unfolding within_def using n(1,3) assms(1) by (intro exI [of _ "Suc n"]) auto
qed

lemma cpu_alone_add: "cpu_alone (n + k) s = cpu_alone k (cpu_alone n s)"
proof (induction n arbitrary: s)
  case (Suc n)
  then show ?case by (cases s) simp
qed simp

lemma within_trans:
  assumes "within b I s Q" "\<And>c m. Q c m \<Longrightarrow> within d J (c, m) P" "\<And>c m m'. Q c m \<Longrightarrow> J m' \<Longrightarrow> I m'"
  shows "within (b + d) I s P"
proof -
  obtain n where n: "n \<le> b" "\<forall>k < n. I (snd (cpu_alone k s))" "case cpu_alone n s of (c, m) \<Rightarrow> Q c m"
    using assms(1) by (auto simp: within_def)
  obtain c m where s: "cpu_alone n s = (c, m)" by fastforce
  have q: "Q c m" using n(3) s by simp
  obtain k where k: "k \<le> d" "\<forall>i < k. J (snd (cpu_alone i (c, m)))" "case cpu_alone k (c, m) of (c, m) \<Rightarrow> P c m"
    using assms(2) [OF q] by (auto simp: within_def)
  have "I (snd (cpu_alone i s))" if "i < n + k" for i
  proof (cases "i < n")
    case False
    then have "cpu_alone i s = cpu_alone (i - n) (c, m)" using cpu_alone_add [of n "i - n" s] s by simp
    then show ?thesis using k(2) False that assms(3) [OF q] by simp
  qed (use n(2) in simp)
  then show ?thesis unfolding within_def using n(1) k(1,3) s by (intro exI [of _ "n + k"]) (simp add: cpu_alone_add)
qed

lemma within_mono:
  assumes "within b J s P" "b \<le> d" "\<And>c m. P c m \<Longrightarrow> Q c m" "\<And>m. J m \<Longrightarrow> I m"
  shows "within d I s Q"
proof -
  obtain n where n: "n \<le> b" "\<forall>k < n. J (snd (cpu_alone k s))" "case cpu_alone n s of (c, m) \<Rightarrow> P c m"
    using assms(1) by (auto simp: within_def)
  obtain c m where "cpu_alone n s = (c, m)" by fastforce
  then show ?thesis unfolding within_def using n assms(2-4) by (intro exI [of _ n]) auto
qed

text \<open>
  What the memory may look like while the program runs: the words of the host are untouched but for the restart
  request, and the signal counter is as before, or one further with the side and tick of the decision already in place.
\<close>

definition own_words :: "ram \<Rightarrow> ram \<Rightarrow> bool" where
  "own_words m m' \<longleftrightarrow> (\<forall>a < FMMA_OUTPUT_BASE. a \<noteq> FMMA_CFG_RESTART \<longrightarrow> m' a = m a)"

definition publishing :: "ram \<Rightarrow> (u32 \<times> u32) option \<Rightarrow> ram \<Rightarrow> bool" where
  "publishing m dec m' \<longleftrightarrow> own_words m m' \<and>
     (m' FMMA_SIGNAL_SEQ = m FMMA_SIGNAL_SEQ \<or>
      m' FMMA_SIGNAL_SEQ = m FMMA_SIGNAL_SEQ + 1 \<and> dec = Some (m' FMMA_SIGNAL, m' FMMA_SIGNAL_TICK))"

lemma step_loaded:
  "loaded m \<Longrightarrow> 8 \<le> unat p \<Longrightarrow> unat p < 162 \<Longrightarrow>
     cpu_step (at p r f, m) = (case exec (firmware ! (unat p - 8)) m (at p r f) of (c1, st) \<Rightarrow>
        (c1, case st of None \<Rightarrow> m | Some (a, v) \<Rightarrow> m(a := v)))"
  by (simp add: cpu_step_def loaded_fetch)

lemma alu_ops:
  "ALUFinal a b 15 cin = (b, no_flags)" "ALUFinal a b 3 cin = (a XOR b, no_flags)" "ALUFinal a b (Suc 0) cin = (a AND b, no_flags)"
  "ALUFinal a b 11 cin = (0, no_flags\<lparr>fz := a = b, fl := a < b, fn := sint a < sint b\<rparr>)"
  "fst (ALUFinal a b 5 cin) = a + b" "fst (ALUFinal a b 9 cin) = a - b"
  by (simp_all add: ALUFinal_def Let_def)

lemma word_and_1_eq_0: "x AND 1 = (0 :: u32) \<longleftrightarrow> even x"
  by (simp add: and_one_eq even_iff_mod_2_eq_zero)

lemmas sym_mem = own_words_def publishing_def

lemmas sym = word_and_1_eq_0 step_loaded firmware_at alu_ops split_beta mem_addr_def displace_def cond_holds_def no_flags_def

section \<open>The main loop, block by block\<close>

text \<open>
  The registers the program keeps: the constants, and anchor, last tick, heartbeat, position and last fill. The rest are
  scratch.
\<close>

definition kept :: "addr \<Rightarrow> u32 \<Rightarrow> u32 \<Rightarrow> u32 \<Rightarrow> u32 \<Rightarrow> u32 \<Rightarrow> cpu \<Rightarrow> bool" where
  "kept p anchor tick beat pos fill c \<longleftrightarrow> pc c = p \<and> regs c 0 = 0 \<and> regs c 1 = 1 \<and> regs c 2 = 256 \<and> regs c 3 = 320 \<and>
     regs c 15 = 46 \<and> regs c 9 = anchor \<and> regs c 11 = tick \<and> regs c 12 = beat \<and> regs c 13 = pos \<and> regs c 14 = fill"

text \<open>To run a block: from a state of this shape, with its registers as assumptions, step by step.\<close>

lemma block:
  assumes "kept p an tk hb ps fs c"
    "\<And>r f. c = at p r f \<Longrightarrow> r 0 = 0 \<Longrightarrow> r (Suc 0) = 1 \<Longrightarrow> r 2 = 256 \<Longrightarrow> r 3 = 320 \<Longrightarrow> r 15 = 46 \<Longrightarrow> r 9 = an \<Longrightarrow> r 11 = tk \<Longrightarrow>
       r 12 = hb \<Longrightarrow> r 13 = ps \<Longrightarrow> r 14 = fs \<Longrightarrow> within n I (at p r f, m) P"
  shows "within n I (c, m) P"
  using assms by (cases c) (simp add: kept_def)

text \<open>The head of the loop ends where the fill counter is read, its address in register 4.\<close>

lemma loop_head:
  assumes "loaded m" "kept 46 an tk hb ps fs c" "m 266 = 0"
  shows "within 7 (publishing m dec) (c, m) (\<lambda>c' m'. kept 53 an tk (hb + 1) ps fs c' \<and> regs c' 4 = 267 \<and> m' = m(320 := hb + 1))"
  by (rule block [OF assms(2)], insert assms, (rule within_step, simp, simp add: sym_mem, simp add: sym)+, rule within_here, simp add: kept_def)

lemma fill_none:
  assumes "loaded m" "kept 53 an tk hb ps fs c" "regs c 4 = 267" "m 267 = fs"
  shows "within 3 (publishing m dec) (c, m) (\<lambda>c' m'. kept 68 an tk hb ps fs c' \<and> m' = m)"
  by (rule block [OF assms(2)], insert assms, (rule within_step, simp, simp add: sym_mem, simp add: sym)+, rule within_here, simp add: kept_def)

lemma fill_bought:
  assumes "loaded m" "kept 53 an tk hb ps fs c" "regs c 4 = 267" "m 267 \<noteq> fs" "m 268 = 1"
  shows "within 14 (publishing m dec) (c, m) (\<lambda>c' m'. kept 68 an tk hb (ps + m 269) (m 267) c' \<and> m' = m(324 := ps + m 269))"
  by (rule block [OF assms(2)], insert assms, (rule within_step, simp, simp add: sym_mem, simp add: sym)+, rule within_here, simp add: kept_def)

lemma fill_sold:
  assumes "loaded m" "kept 53 an tk hb ps fs c" "regs c 4 = 267" "m 267 \<noteq> fs" "m 268 \<noteq> 1"
  shows "within 13 (publishing m dec) (c, m) (\<lambda>c' m'. kept 68 an tk hb (ps - m 269) (m 267) c' \<and> m' = m(324 := ps - m 269))"
  by (rule block [OF assms(2)], insert assms, (rule within_step, simp, simp add: sym_mem, simp add: sym)+, rule within_here, simp add: kept_def)

lemma tick_none:
  assumes "loaded m" "kept 68 an tk hb ps fs c" "m 256 = tk"
  shows "within 3 (publishing m dec) (c, m) (\<lambda>c' m'. kept 46 an tk hb ps fs c' \<and> m' = m)"
  by (rule block [OF assms(2)], insert assms, (rule within_step, simp, simp add: sym_mem, simp add: sym)+, rule within_here, simp add: kept_def)

lemma tick_odd:
  assumes "loaded m" "kept 68 an tk hb ps fs c" "m 256 \<noteq> tk" "odd (m 256)"
  shows "within 7 (publishing m dec) (c, m) (\<lambda>c' m'. kept 46 an tk hb ps fs c' \<and> m' = m)"
  by (rule block [OF assms(2)], insert assms, (rule within_step, simp, simp add: sym_mem, simp add: sym)+, rule within_here, simp add: kept_def)

lemma tick_no_bid:
  assumes "loaded m" "kept 68 an tk hb ps fs c" "m 256 \<noteq> tk" "even (m 256)" "m 257 = 0"
  shows "within 18 (publishing m dec) (c, m) (\<lambda>c' m'. kept 46 an (m 256) hb ps fs c' \<and> m' = m)"
  by (rule block [OF assms(2)], insert assms, (rule within_step, simp, simp add: sym_mem, simp add: sym)+, rule within_here, simp add: kept_def)

lemma tick_no_ask:
  assumes "loaded m" "kept 68 an tk hb ps fs c" "m 256 \<noteq> tk" "even (m 256)" "m 257 \<noteq> 0" "m 258 = 0"
  shows "within 20 (publishing m dec) (c, m) (\<lambda>c' m'. kept 46 an (m 256) hb ps fs c' \<and> m' = m)"
  by (rule block [OF assms(2)], insert assms, (rule within_step, simp, simp add: sym_mem, simp add: sym)+, rule within_here, simp add: kept_def)

lemma tick_first:
  assumes "loaded m" "kept 68 an tk hb ps fs c" "m 256 \<noteq> tk" "even (m 256)" "m 257 \<noteq> 0" "m 258 \<noteq> 0" "an = 0"
  shows "within 26 (publishing m dec) (c, m) (\<lambda>c' m'. kept 46 (m 257 + m 258) (m 256) hb ps fs c' \<and> m' = m)"
  by (rule block [OF assms(2)], insert assms, (rule within_step, simp, simp add: sym_mem, simp add: sym)+, rule within_here, simp add: kept_def)

lemma tick_hold:
  assumes "loaded m" "kept 68 an tk hb ps fs c" "m 256 \<noteq> tk" "even (m 256)" "m 257 \<noteq> 0" "m 258 \<noteq> 0" "an \<noteq> 0"
    "\<not> sint (m 257 + m 258) < sint (an - (m 261 + m 261))" "\<not> sint (an + (m 261 + m 261)) < sint (m 257 + m 258)"
  shows "within 37 (publishing m dec) (c, m) (\<lambda>c' m'. kept 46 (m 257 + m 258) (m 256) hb ps fs c' \<and> m' = m)"
  by (rule block [OF assms(2)], insert assms, (rule within_step, simp, simp add: sym_mem, simp add: sym)+, rule within_here, simp add: kept_def)

lemma tick_fell:
  assumes "loaded m" "kept 68 an tk hb ps fs c" "m 256 \<noteq> tk" "even (m 256)" "m 257 \<noteq> 0" "m 258 \<noteq> 0" "an \<noteq> 0"
    "sint (m 257 + m 258) < sint (an - (m 261 + m 261))"
  shows "within 31 (publishing m dec) (c, m) (\<lambda>c' m'. kept 105 an (m 256) hb ps fs c' \<and> regs c' 7 = m 257 + m 258 \<and> m' = m)"
  by (rule block [OF assms(2)], insert assms, (rule within_step, simp, simp add: sym_mem, simp add: sym)+, rule within_here, simp add: kept_def)

lemma tick_rose:
  assumes "loaded m" "kept 68 an tk hb ps fs c" "m 256 \<noteq> tk" "even (m 256)" "m 257 \<noteq> 0" "m 258 \<noteq> 0" "an \<noteq> 0"
    "\<not> sint (m 257 + m 258) < sint (an - (m 261 + m 261))" "sint (an + (m 261 + m 261)) < sint (m 257 + m 258)"
  shows "within 35 (publishing m dec) (c, m) (\<lambda>c' m'. kept 117 an (m 256) hb ps fs c' \<and> regs c' 7 = m 257 + m 258 \<and> m' = m)"
  by (rule block [OF assms(2)], insert assms, (rule within_step, simp, simp add: sym_mem, simp add: sym)+, rule within_here, simp add: kept_def)

lemma buy_disabled:
  assumes "loaded m" "kept 105 an tk hb ps fs c" "regs c 7 = sm" "m 263 = 0"
  shows "within 14 (publishing m dec) (c, m) (\<lambda>c' m'. kept 46 sm tk hb ps fs c' \<and> m' = m(325 := 9, 326 := m 326 + 1))"
  by (rule block [OF assms(2)], insert assms, (rule within_step, simp, simp add: sym_mem, simp add: sym)+, rule within_here, simp add: kept_def)

lemma buy_allowed:
  assumes "loaded m" "kept 105 an tk hb ps fs c" "regs c 7 = sm" "m 263 \<noteq> 0" "sint ps < sint (m 262)"
  shows "within 23 (publishing m (Some (1, tk))) (c, m) (\<lambda>c' m'. kept 46 sm tk hb ps fs c' \<and> m' = m(321 := 1, 322 := tk, 325 := 1, 323 := m 323 + 1))"
  by (rule block [OF assms(2)], insert assms, (rule within_step, simp, simp add: sym_mem, simp add: sym)+, rule within_here, simp add: kept_def)

lemma buy_blocked:
  assumes "loaded m" "kept 105 an tk hb ps fs c" "regs c 7 = sm" "m 263 \<noteq> 0" "\<not> sint ps < sint (m 262)"
  shows "within 20 (publishing m dec) (c, m) (\<lambda>c' m'. kept 46 sm tk hb ps fs c' \<and> m' = m(325 := 5, 326 := m 326 + 1))"
  by (rule block [OF assms(2)], insert assms, (rule within_step, simp, simp add: sym_mem, simp add: sym)+, rule within_here, simp add: kept_def)

lemma sell_disabled:
  assumes "loaded m" "kept 117 an tk hb ps fs c" "regs c 7 = sm" "m 263 = 0"
  shows "within 14 (publishing m dec) (c, m) (\<lambda>c' m'. kept 46 sm tk hb ps fs c' \<and> m' = m(325 := 9, 326 := m 326 + 1))"
  by (rule block [OF assms(2)], insert assms, (rule within_step, simp, simp add: sym_mem, simp add: sym)+, rule within_here, simp add: kept_def)

lemma sell_allowed:
  assumes "loaded m" "kept 117 an tk hb ps fs c" "regs c 7 = sm" "m 263 \<noteq> 0" "sint (- m 262) < sint ps"
  shows "within 25 (publishing m (Some (2, tk))) (c, m) (\<lambda>c' m'. kept 46 sm tk hb ps fs c' \<and> m' = m(321 := 2, 322 := tk, 325 := 1, 323 := m 323 + 1))"
  by (rule block [OF assms(2)], insert assms, (rule within_step, simp, simp add: sym_mem, simp add: sym)+, rule within_here, simp add: kept_def)

lemma sell_blocked:
  assumes "loaded m" "kept 117 an tk hb ps fs c" "regs c 7 = sm" "m 263 \<noteq> 0" "\<not> sint (- m 262) < sint ps"
  shows "within 22 (publishing m dec) (c, m) (\<lambda>c' m'. kept 46 sm tk hb ps fs c' \<and> m' = m(325 := 5, 326 := m 326 + 1))"
  by (rule block [OF assms(2)], insert assms, (rule within_step, simp, simp add: sym_mem, simp add: sym)+, rule within_here, simp add: kept_def)

section \<open>Start and restart\<close>

text \<open>
  The start-up block, from any register contents: the outputs are cleared, the position the host states is adopted, the
  fill counter is taken over, and the version is declared last. The datapath check of the program passes on this
  arithmetic unit.
\<close>

definition started_ram :: "ram \<Rightarrow> ram" where
  "started_ram m = m(FMMA_SIGNAL := 0, FMMA_SIGNAL_TICK := 0, FMMA_SIGNAL_SEQ := 0, FMMA_POSITION := m FMMA_CFG_POSITION,
     FMMA_REJECTS := 0, FMMA_QUOTE_BID := 0, FMMA_QUOTE_ASK := 0, FMMA_STATUS := FMMA_STATUS_RUNNING,
     FMMA_FW_VERSION := FMMA_PROTOCOL_VERSION)"

lemma start_up:
  assumes "loaded m" "pc c = 8"
  shows "within 38 (own_words m) (c, m) (\<lambda>c' m'. kept 46 0 0 0 (m FMMA_CFG_POSITION) (m FMMA_FILL_SEQ) c' \<and> m' = started_ram m)"
proof -
  obtain r f where c: "c = at 8 r f" using assms(2) by (cases c) auto
  show ?thesis unfolding c
    by (insert assms(1), (rule within_step, simp, simp add: sym_mem, simp add: sym)+, rule within_here, simp add: kept_def started_ram_def)
qed

lemma restart_request:
  assumes "loaded m" "kept 46 an tk hb ps fs c" "m 266 \<noteq> 0"
  shows "within 10 (own_words m) (c, m) (\<lambda>c' m'. pc c' = 8 \<and> m' = m(320 := hb + 1, 266 := 0))"
  by (rule block [OF assms(2)], insert assms, (rule within_step, simp, simp add: sym_mem, simp add: sym)+, rule within_here, simp)

end
