(* ===== verification/Fmma_Fabric.thy ===== *)
theory Fmma_Fabric
  imports Fmma_Firmware Fmma_Strategy Fmma_Fpga
begin

text \<open>
  The fabric as the host sees it (\<open>Software/trading.asm\<close>): what one pass of the loop does, as a function of the five
  registers the program keeps and the shared RAM, and that the machine code of the image computes it.
\<close>

section \<open>One pass of the loop\<close>

record fab =
  fb_anchor :: u32
  fb_tick :: u32
  fb_beat :: u32
  fb_pos :: u32
  fb_fill :: u32

definition fab_at :: "fab \<Rightarrow> cpu \<Rightarrow> bool" where
  "fab_at fb c \<longleftrightarrow> kept 46 (fb_anchor fb) (fb_tick fb) (fb_beat fb) (fb_pos fb) (fb_fill fb) c"

definition fab_fill_step :: "fab \<Rightarrow> ram \<Rightarrow> fab \<times> ram" where
  "fab_fill_step fb m =
     (if m FMMA_FILL_SEQ = fb_fill fb then (fb, m)
      else
        let p = (if m FMMA_FILL_SIDE = FMMA_FILL_BOUGHT then fb_pos fb + m FMMA_FILL_QTY else fb_pos fb - m FMMA_FILL_QTY)
        in (fb\<lparr>fb_pos := p, fb_fill := m FMMA_FILL_SEQ\<rparr>, m(FMMA_POSITION := p)))"

definition fab_emit :: "u32 \<Rightarrow> u32 \<Rightarrow> ram \<Rightarrow> ram" where
  "fab_emit side tick m = m(FMMA_SIGNAL := side, FMMA_SIGNAL_TICK := tick, FMMA_STATUS := FMMA_STATUS_RUNNING,
     FMMA_SIGNAL_SEQ := m FMMA_SIGNAL_SEQ + 1)"

definition fab_reject :: "u32 \<Rightarrow> ram \<Rightarrow> ram" where
  "fab_reject why m = m(FMMA_STATUS := why + FMMA_STATUS_RUNNING, FMMA_REJECTS := m FMMA_REJECTS + 1)"

definition fab_decision :: "u32 \<Rightarrow> bool \<Rightarrow> u32 \<Rightarrow> ram \<Rightarrow> ram" where
  "fab_decision side room tick m =
     (if m FMMA_CFG_ENABLE = 0 then fab_reject FMMA_STATUS_DISABLED m
      else if room then fab_emit side tick m else fab_reject FMMA_STATUS_RISK_BLOCKED m)"

definition fab_tick_step :: "fab \<Rightarrow> ram \<Rightarrow> fab \<times> ram" where
  "fab_tick_step fb m =
     (if m FMMA_TICK_SEQ = fb_tick fb \<or> odd (m FMMA_TICK_SEQ) then (fb, m)
      else
        let fb1 = fb\<lparr>fb_tick := m FMMA_TICK_SEQ\<rparr>
        in if m FMMA_BID = 0 \<or> m FMMA_ASK = 0 then (fb1, m)
           else
             let sm = m FMMA_BID + m FMMA_ASK; fb2 = fb1\<lparr>fb_anchor := sm\<rparr>; band = m FMMA_CFG_THRESH + m FMMA_CFG_THRESH
             in (fb2,
                 if fb_anchor fb = 0 then m
                 else if sint sm < sint (fb_anchor fb - band)
                 then fab_decision FMMA_SIGNAL_BUY (sint (fb_pos fb) < sint (m FMMA_CFG_MAX_POS)) (m FMMA_TICK_SEQ) m
                 else if sint (fb_anchor fb + band) < sint sm
                 then fab_decision FMMA_SIGNAL_SELL (sint (- m FMMA_CFG_MAX_POS) < sint (fb_pos fb)) (m FMMA_TICK_SEQ) m
                 else m))"

text \<open>The decision a step publishes.\<close>

definition fab_dec :: "fab \<Rightarrow> ram \<Rightarrow> (u32 \<times> u32) option" where
  "fab_dec fb m =
     (let m' = snd (fab_tick_step fb m)
      in if m' FMMA_SIGNAL_SEQ = m FMMA_SIGNAL_SEQ then None else Some (m' FMMA_SIGNAL, m' FMMA_SIGNAL_TICK))"

text \<open>Where the fill counter and where the tick counter are read.\<close>

definition fab_head :: "fab \<Rightarrow> cpu \<Rightarrow> bool" where
  "fab_head fb c \<longleftrightarrow> kept 53 (fb_anchor fb) (fb_tick fb) (fb_beat fb) (fb_pos fb) (fb_fill fb) c \<and> regs c 4 = 267"

definition fab_mid :: "fab \<Rightarrow> cpu \<Rightarrow> bool" where
  "fab_mid fb c \<longleftrightarrow> kept 68 (fb_anchor fb) (fb_tick fb) (fb_beat fb) (fb_pos fb) (fb_fill fb) c"

lemma pass_head:
  assumes "loaded m" "fab_at fb c" "m FMMA_CFG_RESTART = 0"
  shows "within 7 (publishing m dec) (c, m)
    (\<lambda>c' m'. fab_head (fb\<lparr>fb_beat := fb_beat fb + 1\<rparr>) c' \<and> m' = m(FMMA_HEARTBEAT := fb_beat fb + 1))"
  using loop_head [OF assms(1) assms(2) [unfolded fab_at_def] assms(3)] by (simp add: fab_head_def conj_assoc)

lemma pass_fills:
  assumes "loaded m" "fab_head fb c"
  shows "within 14 (publishing m dec) (c, m)
    (\<lambda>c' m'. fab_mid (fst (fab_fill_step fb m)) c' \<and> m' = snd (fab_fill_step fb m))"
proof -
  note k = assms(2) [unfolded fab_head_def, THEN conjunct1] assms(2) [unfolded fab_head_def, THEN conjunct2]
  consider "m FMMA_FILL_SEQ = fb_fill fb" | "m FMMA_FILL_SEQ \<noteq> fb_fill fb" "m FMMA_FILL_SIDE = 1"
    | "m FMMA_FILL_SEQ \<noteq> fb_fill fb" "m FMMA_FILL_SIDE \<noteq> 1" by blast
  then show ?thesis
  proof cases
    case 1
    then show ?thesis
      by (intro within_mono [OF fill_none [OF assms(1) k]]) (auto simp: fab_fill_step_def fab_mid_def Let_def)
  next
    case 2
    then show ?thesis
      by (intro within_mono [OF fill_bought [OF assms(1) k]]) (auto simp: fab_fill_step_def fab_mid_def Let_def)
  next
    case 3
    then show ?thesis
      by (intro within_mono [OF fill_sold [OF assms(1) k]]) (auto simp: fab_fill_step_def fab_mid_def Let_def)
  qed
qed

lemma buy_decision:
  assumes "loaded m" "kept 105 an tk hb ps fs c" "regs c 7 = sm"
  shows "within 25 (publishing m (if m FMMA_CFG_ENABLE \<noteq> 0 \<and> sint ps < sint (m FMMA_CFG_MAX_POS) then Some (FMMA_SIGNAL_BUY, tk) else None)) (c, m) (\<lambda>c' m'. kept 46 sm tk hb ps fs c' \<and> m' = fab_decision FMMA_SIGNAL_BUY (sint ps < sint (m FMMA_CFG_MAX_POS)) tk m)"
proof -
  consider "m 263 = 0" | "m 263 \<noteq> 0" "sint ps < sint (m 262)" | "m 263 \<noteq> 0" "\<not> sint ps < sint (m 262)" by blast
  then show ?thesis
  proof cases
    case 1
    then show ?thesis by (intro within_mono [OF buy_disabled [OF assms]]) (auto simp: fab_decision_def fab_reject_def)
  next
    case 2
    then show ?thesis by (intro within_mono [OF buy_allowed [OF assms]]) (auto simp: fab_decision_def fab_emit_def)
  next
    case 3
    then show ?thesis by (intro within_mono [OF buy_blocked [OF assms]]) (auto simp: fab_decision_def fab_reject_def)
  qed
qed

lemma sell_decision:
  assumes "loaded m" "kept 117 an tk hb ps fs c" "regs c 7 = sm"
  shows "within 25 (publishing m (if m FMMA_CFG_ENABLE \<noteq> 0 \<and> sint (- m FMMA_CFG_MAX_POS) < sint ps then Some (FMMA_SIGNAL_SELL, tk) else None)) (c, m) (\<lambda>c' m'. kept 46 sm tk hb ps fs c' \<and> m' = fab_decision FMMA_SIGNAL_SELL (sint (- m FMMA_CFG_MAX_POS) < sint ps) tk m)"
proof -
  consider "m 263 = 0" | "m 263 \<noteq> 0" "sint (- m 262) < sint ps" | "m 263 \<noteq> 0" "\<not> sint (- m 262) < sint ps" by blast
  then show ?thesis
  proof cases
    case 1
    then show ?thesis by (intro within_mono [OF sell_disabled [OF assms]]) (auto simp: fab_decision_def fab_reject_def)
  next
    case 2
    then show ?thesis by (intro within_mono [OF sell_allowed [OF assms]]) (auto simp: fab_decision_def fab_emit_def)
  next
    case 3
    then show ?thesis by (intro within_mono [OF sell_blocked [OF assms]]) (auto simp: fab_decision_def fab_reject_def)
  qed
qed

lemma pass_tick:
  assumes "loaded m" "fab_mid fb c"
  shows "within 60 (publishing m (fab_dec fb m)) (c, m)
    (\<lambda>c' m'. fab_at (fst (fab_tick_step fb m)) c' \<and> m' = snd (fab_tick_step fb m))" (is "within _ ?I _ ?P")
proof -
  note k = assms(2) [unfolded fab_mid_def]
  let ?sm = "m 257 + m 258" and ?band = "m 261 + m 261"
  consider (none) "m 256 = fb_tick fb" | (odd) "m 256 \<noteq> fb_tick fb" "odd (m 256)"
    | (no_bid) "m 256 \<noteq> fb_tick fb" "even (m 256)" "m 257 = 0"
    | (no_ask) "m 256 \<noteq> fb_tick fb" "even (m 256)" "m 257 \<noteq> 0" "m 258 = 0"
    | (first) "m 256 \<noteq> fb_tick fb" "even (m 256)" "m 257 \<noteq> 0" "m 258 \<noteq> 0" "fb_anchor fb = 0"
    | (hold) "m 256 \<noteq> fb_tick fb" "even (m 256)" "m 257 \<noteq> 0" "m 258 \<noteq> 0" "fb_anchor fb \<noteq> 0"
        "\<not> sint ?sm < sint (fb_anchor fb - ?band)" "\<not> sint (fb_anchor fb + ?band) < sint ?sm"
    | (fell) "m 256 \<noteq> fb_tick fb" "even (m 256)" "m 257 \<noteq> 0" "m 258 \<noteq> 0" "fb_anchor fb \<noteq> 0"
        "sint ?sm < sint (fb_anchor fb - ?band)"
    | (rose) "m 256 \<noteq> fb_tick fb" "even (m 256)" "m 257 \<noteq> 0" "m 258 \<noteq> 0" "fb_anchor fb \<noteq> 0"
        "\<not> sint ?sm < sint (fb_anchor fb - ?band)" "sint (fb_anchor fb + ?band) < sint ?sm"
    by blast
  then show ?thesis
  proof cases
    case none
    then show ?thesis by (intro within_mono [OF tick_none [OF assms(1) k]]) (auto simp: fab_tick_step_def fab_at_def)
  next
    case odd
    then show ?thesis by (intro within_mono [OF tick_odd [OF assms(1) k]]) (auto simp: fab_tick_step_def fab_at_def)
  next
    case no_bid
    then show ?thesis by (intro within_mono [OF tick_no_bid [OF assms(1) k]]) (auto simp: fab_tick_step_def fab_at_def Let_def)
  next
    case no_ask
    then show ?thesis by (intro within_mono [OF tick_no_ask [OF assms(1) k]]) (auto simp: fab_tick_step_def fab_at_def Let_def)
  next
    case first
    then show ?thesis by (intro within_mono [OF tick_first [OF assms(1) k]]) (auto simp: fab_tick_step_def fab_at_def Let_def)
  next
    case hold
    then show ?thesis by (intro within_mono [OF tick_hold [OF assms(1) k]]) (auto simp: fab_tick_step_def fab_at_def Let_def)
  next
    case fell
    then have r: "fab_tick_step fb m = (fb\<lparr>fb_tick := m 256, fb_anchor := ?sm\<rparr>,
        fab_decision 1 (sint (fb_pos fb) < sint (m 262)) (m 256) m)"
      by (simp add: fab_tick_step_def Let_def)
    have rs: "fab_dec fb m = (if m 263 \<noteq> 0 \<and> sint (fb_pos fb) < sint (m 262) then Some (1, m 256) else None)"
      by (simp add: fab_dec_def r fab_decision_def fab_emit_def fab_reject_def)
    have "within (31 + 25) ?I (c, m) ?P"
      using assms(1) by (intro within_trans [OF tick_fell [OF assms(1) k fell]] within_mono [OF buy_decision])
        (auto simp: r rs fab_at_def)
    then show ?thesis by (rule within_mono) simp_all
  next
    case rose
    then have r: "fab_tick_step fb m = (fb\<lparr>fb_tick := m 256, fb_anchor := ?sm\<rparr>,
        fab_decision 2 (sint (- m 262) < sint (fb_pos fb)) (m 256) m)"
      by (simp add: fab_tick_step_def Let_def)
    have rs: "fab_dec fb m = (if m 263 \<noteq> 0 \<and> sint (- m 262) < sint (fb_pos fb) then Some (2, m 256) else None)"
      by (simp add: fab_dec_def r fab_decision_def fab_emit_def fab_reject_def)
    have "within (35 + 25) ?I (c, m) ?P"
      using assms(1) by (intro within_trans [OF tick_rose [OF assms(1) k rose]] within_mono [OF sell_decision])
        (auto simp: r rs fab_at_def)
    then show ?thesis by (rule within_mono) simp_all
  qed
qed

end
