(* ===== verification/Fmma_Session.thy ===== *)
theory Fmma_Session
  imports Fmma_Fabric
begin

text \<open>
  Host and CPU together. The host's stores reach the shared RAM between any two instructions of the CPU; this theory
  follows the CPU through its idle loop while the host publishes a quote or reports a fill, shows that the CPU acts on
  the complete block only, and relates each quote and fill to the C transcription of the strategy.
\<close>

section \<open>The idle loop\<close>

text \<open>
  The states of the loop in which nothing new has been seen: which instruction is next, and what the scratch registers
  hold there. The tick counter has been read as the last one consumed, or as odd.
\<close>

definition idle_scratch :: "fab \<Rightarrow> addr \<Rightarrow> (nat \<Rightarrow> u32) \<Rightarrow> bool \<Rightarrow> bool" where
  "idle_scratch fb p r z \<longleftrightarrow>
     p = 46 \<or> p = 47 \<or> p = 48 \<or> (p = 49 \<and> r 4 = 266) \<or> (p = 50 \<and> r 4 = 266 \<and> r 8 = 0) \<or> (p = 51 \<and> r 4 = 266 \<and> z) \<or>
     (p = 52 \<and> r 4 = 266) \<or> (p = 53 \<and> r 4 = 267) \<or> (p = 54 \<and> r 8 = fb_fill fb) \<or> (p = 55 \<and> z) \<or> p = 68 \<or>
     (p = 69 \<and> (r 7 = fb_tick fb \<or> odd (r 7))) \<or> (p = 70 \<and> (z \<or> odd (r 7))) \<or> (p = 71 \<and> odd (r 7)) \<or>
     (p = 72 \<and> odd (r 8)) \<or> (p = 73 \<and> r 8 \<noteq> 0) \<or> (p = 74 \<and> \<not> z)"

definition waiting :: "fab \<Rightarrow> cpu \<Rightarrow> bool" where
  "waiting fb c \<longleftrightarrow> kept (pc c) (fb_anchor fb) (fb_tick fb) (fb_beat fb) (fb_pos fb) (fb_fill fb) c \<and>
     idle_scratch fb (pc c) (regs c) (fz (flags c))"

text \<open>What the CPU sees while nothing new is complete.\<close>

definition quiet :: "fab \<Rightarrow> ram \<Rightarrow> bool" where
  "quiet fb m \<longleftrightarrow> loaded m \<and> m FMMA_CFG_RESTART = 0 \<and> m FMMA_FILL_SEQ = fb_fill fb \<and>
     (m FMMA_TICK_SEQ = fb_tick fb \<or> odd (m FMMA_TICK_SEQ))"

text \<open>
  One instruction of the idle loop. Only the two instructions that read a counter depend on what the host has written;
  from any other the next of them is at most \<open>to_check\<close> instructions away.
\<close>

definition to_check :: "addr \<Rightarrow> nat" where
  "to_check p = (if 69 \<le> p then 82 - unat p else if p \<le> 53 then 53 - unat p else if p = 54 then 2 else if p = 55 then 1 else 0)"

lemma waiting_step:
  assumes "waiting fb c" "loaded m" "m FMMA_CFG_RESTART = 0" "pc c = 53 \<longrightarrow> m FMMA_FILL_SEQ = fb_fill fb"
    "pc c = 68 \<longrightarrow> m FMMA_TICK_SEQ = fb_tick fb \<or> odd (m FMMA_TICK_SEQ)"
  shows "\<exists>v c' hb. cpu_step (c, m) = (c', m(FMMA_HEARTBEAT := v)) \<and> waiting (fb\<lparr>fb_beat := hb\<rparr>) c' \<and>
    (pc c \<noteq> 53 \<and> pc c \<noteq> 68 \<longrightarrow> to_check (pc c') < to_check (pc c))"
proof -
  obtain p r f where c: "c = at p r f" by (cases c) auto
  have k: "r 0 = 0" "r (Suc 0) = 1" "r 2 = 256" "r 3 = 320" "r 15 = 46" "r 9 = fb_anchor fb" "r 11 = fb_tick fb" "r 12 = fb_beat fb"
    "r 13 = fb_pos fb" "r 14 = fb_fill fb" "idle_scratch fb p r (fz f)"
    using assms(1) by (simp_all add: waiting_def c kept_def)
  have same: "m(320 := m 320) = m" by simp
  show ?thesis
    using k(11) [unfolded idle_scratch_def]
    by (elim disjE conjE)
      (insert assms(2-5) k(1-10), simp_all add: c sym waiting_def kept_def idle_scratch_def to_check_def, (metis same)+)
qed

lemma quiet_step:
  assumes "quiet fb m" "waiting fb c"
  shows "\<exists>v c' hb. cpu_step (c, m) = (c', m(FMMA_HEARTBEAT := v)) \<and> waiting (fb\<lparr>fb_beat := hb\<rparr>) c'"
  using waiting_step [OF assms(2), of m] assms(1) unfolding quiet_def by blast

lemma quiet_simps [simp]:
  "FMMA_OUTPUT_BASE \<le> a \<Longrightarrow> quiet fb (m(a := v)) = quiet fb m" "quiet (fb\<lparr>fb_beat := hb\<rparr>) m = quiet fb m"
  by (auto simp: quiet_def)

lemma beat_beat: "fb\<lparr>fb_beat := x\<rparr>\<lparr>fb_beat := y\<rparr> = fb\<lparr>fb_beat := y\<rparr>" for fb :: fab
  by simp

text \<open>The CPU idles through any interleaving of stores that completes nothing, and only the heartbeat changes.\<close>

lemma quiet_run:
  assumes "\<And>k. quiet fb (run_accesses (take k (concat hs)) m)" "FMMA_HEARTBEAT \<notin> store_addrs (concat hs)" "waiting fb c"
  shows "\<exists>c' hb v. cpu_run hs (c, m) = (c', (run_accesses (concat hs) m)(FMMA_HEARTBEAT := v)) \<and> waiting (fb\<lparr>fb_beat := hb\<rparr>) c'"
  using assms
proof (induction hs arbitrary: c m fb)
  case Nil
  have "m(320 := m 320) = m" "fb\<lparr>fb_beat := fb_beat fb\<rparr> = fb" by simp_all
  then show ?case using Nil.prems(3) by (metis concat.simps(1) cpu_run.simps(1) run_accesses.simps(1))
next
  case (Cons h hs)
  have sub: "run_accesses xs (mm(320 := v)) = (run_accesses xs mm)(320 := v)" if "320 \<notin> store_addrs xs" for xs mm v
    using that by (induction xs arbitrary: mm rule: store_addrs.induct) (auto simp: fun_upd_twist)
  have pre: "320 \<notin> store_addrs (take k (concat hs))" for k
    using Cons.prems(2) by (metis UnCI append_take_drop_id concat.simps(2) store_addrs_append)
  have q: "quiet fb (run_accesses h m)" using Cons.prems(1) [of "length h"] by simp
  obtain v c1 hb where s: "cpu_step (c, run_accesses h m) = (c1, (run_accesses h m)(320 := v))" "waiting (fb\<lparr>fb_beat := hb\<rparr>) c1"
    using quiet_step [OF q Cons.prems(3)] by blast
  have q': "quiet (fb\<lparr>fb_beat := hb\<rparr>) (run_accesses (take k (concat hs)) ((run_accesses h m)(320 := v)))" for k
    using Cons.prems(1) [of "length h + k"] by (simp add: sub [OF pre] run_accesses_append)
  have n: "320 \<notin> store_addrs (concat hs)" using pre [of "length (concat hs)"] by simp
  obtain c' hb' w where "cpu_run hs (c1, (run_accesses h m)(320 := v)) = (c', (run_accesses (concat hs) ((run_accesses h m)(320 := v)))(320 := w))"
    "waiting (fb\<lparr>fb_beat := hb'\<rparr>) c'"
    using Cons.IH [OF q' n s(2)] unfolding beat_beat by blast
  then have "cpu_run (h # hs) (c, m) = (c', (run_accesses (concat (h # hs)) m)(320 := w))" using s(1) by (simp add: sub [OF n])
  then show ?case using \<open>waiting (fb\<lparr>fb_beat := hb'\<rparr>) c'\<close> by blast
qed

lemma last_access:
  "concat hs = xs @ [x] \<Longrightarrow> \<exists>hs1 h k. hs = hs1 @ (h @ [x]) # replicate k [] \<and> concat hs1 @ h = xs"
proof (induction hs rule: rev_induct)
  case (snoc y hs)
  show ?case
  proof (cases y rule: rev_cases)
    case Nil
    then obtain hs1 h k where "hs = hs1 @ (h @ [x]) # replicate k []" "concat hs1 @ h = xs" using snoc by auto
    then show ?thesis unfolding Nil by (intro exI [of _ hs1] exI [of _ h] exI [of _ "Suc k"]) (simp add: replicate_append_same)
  next
    case (snoc ys z)
    then show ?thesis using snoc.prems by (intro exI [of _ hs] exI [of _ ys] exI [of _ 0]) auto
  qed
qed simp

section \<open>From the idle loop to the next check\<close>

lemma waiting_reach:
  assumes "loaded m" "waiting fb c" "m FMMA_CFG_RESTART = 0"
  shows "within (to_check (pc c)) (publishing m dec) (c, m) (\<lambda>c' m'. \<exists>hb v. m' = m(FMMA_HEARTBEAT := v) \<and>
    (fab_head (fb\<lparr>fb_beat := hb\<rparr>) c' \<or> fab_mid (fb\<lparr>fb_beat := hb\<rparr>) c'))"
  using assms
proof (induction "to_check (pc c)" arbitrary: c m fb rule: less_induct)
  case less
  show ?case
  proof (cases "pc c = 53 \<or> pc c = 68")
    case True
    then have "fab_head (fb\<lparr>fb_beat := fb_beat fb\<rparr>) c \<or> fab_mid (fb\<lparr>fb_beat := fb_beat fb\<rparr>) c"
      using less.prems(2) by (auto simp: waiting_def idle_scratch_def fab_head_def fab_mid_def)
    moreover have "m = m(320 := m 320)" by simp
    ultimately show ?thesis by (intro within_here) metis
  next
    case False
    obtain v c1 hb where s: "cpu_step (c, m) = (c1, m(320 := v))" "waiting (fb\<lparr>fb_beat := hb\<rparr>) c1" "to_check (pc c1) < to_check (pc c)"
      using waiting_step [OF less.prems(2,1,3)] False by blast
    let ?P = "\<lambda>fb m c' m'. \<exists>hb v. m' = m(FMMA_HEARTBEAT := v) \<and> (fab_head (fb\<lparr>fb_beat := hb\<rparr>) c' \<or> fab_mid (fb\<lparr>fb_beat := hb\<rparr>) c')"
    have "within (to_check (pc c1)) (publishing (m(320 := v)) dec) (c1, m(320 := v)) (?P (fb\<lparr>fb_beat := hb\<rparr>) (m(320 := v)))"
      by (rule less.hyps [OF s(3) _ s(2)]) (use less.prems in simp_all)
    then have "within (to_check (pc c) - 1) (publishing m dec) (cpu_step (c, m)) (?P fb m)"
      unfolding s(1) by (rule within_mono) (use s(3) in \<open>auto simp: publishing_def own_words_def\<close>)
    then show ?thesis by (intro within_step) (use s(3) in \<open>auto simp: publishing_def own_words_def\<close>)
  qed
qed

lemma to_check_le: "waiting fb c \<Longrightarrow> to_check (pc c) \<le> 13"
  by (auto simp: waiting_def idle_scratch_def to_check_def)

lemma at_waiting: "fab_at fb c \<Longrightarrow> waiting fb c"
  by (simp add: fab_at_def waiting_def idle_scratch_def kept_def)

text \<open>The heartbeat has no part in a step.\<close>

lemma beat_steps:
  "fab_tick_step (fb\<lparr>fb_beat := hb\<rparr>) (m(FMMA_HEARTBEAT := v)) =
     ((fst (fab_tick_step fb m))\<lparr>fb_beat := hb\<rparr>, (snd (fab_tick_step fb m))(FMMA_HEARTBEAT := v))"
  "fab_fill_step (fb\<lparr>fb_beat := hb\<rparr>) (m(FMMA_HEARTBEAT := v)) =
     ((fst (fab_fill_step fb m))\<lparr>fb_beat := hb\<rparr>, (snd (fab_fill_step fb m))(FMMA_HEARTBEAT := v))"
  "fab_dec (fb\<lparr>fb_beat := hb\<rparr>) (m(FMMA_HEARTBEAT := v)) = fab_dec fb m"
  by (simp_all add: fab_tick_step_def fab_decision_def fab_emit_def fab_reject_def fab_fill_step_def fab_dec_def Let_def fun_upd_twist)

lemma publishing_beat: "publishing (m(FMMA_HEARTBEAT := v)) dec = publishing m dec"
  by (auto simp: fun_eq_iff publishing_def own_words_def)

text \<open>A complete new quote is decided within 87 instructions of its last store, wherever the CPU was.\<close>

lemma serve_tick:
  assumes "loaded m" "waiting fb c" "m FMMA_CFG_RESTART = 0" "m FMMA_FILL_SEQ = fb_fill fb"
  shows "within 87 (publishing m (fab_dec fb m)) (c, m) (\<lambda>c' m'. \<exists>hb v.
    fab_at ((fst (fab_tick_step fb m))\<lparr>fb_beat := hb\<rparr>) c' \<and> m' = (snd (fab_tick_step fb m))(FMMA_HEARTBEAT := v))"
    (is "within _ ?I _ ?P")
proof -
  have mid: "within 60 ?I (c1, m1) ?P" if "fab_mid (fb\<lparr>fb_beat := hb\<rparr>) c1 \<and> m1 = m(320 := v)" for c1 m1 hb v
  proof -
    have "loaded (m(320 := v))" "(m(320 := v)) 256 = m 256" using assms(1) by simp_all
    then have "within 60 ?I (c1, m(320 := v)) (\<lambda>c' m'. fab_at ((fst (fab_tick_step fb m))\<lparr>fb_beat := hb\<rparr>) c' \<and>
        m' = (snd (fab_tick_step fb m))(320 := v))"
      using pass_tick [of "m(320 := v)" "fb\<lparr>fb_beat := hb\<rparr>" c1] that by (simp only: beat_steps publishing_beat fst_conv snd_conv)
    then have "within 60 ?I (c1, m(320 := v)) ?P" by (rule within_mono) blast+
    then show ?thesis using that by simp
  qed
  have head: "within (14 + 60) ?I (c1, m1) ?P" if "fab_head (fb\<lparr>fb_beat := hb\<rparr>) c1 \<and> m1 = m(320 := v)" for c1 m1 hb v
  proof (rule within_trans)
    show "within 14 ?I (c1, m1) (\<lambda>c2 m2. fab_mid (fb\<lparr>fb_beat := hb\<rparr>) c2 \<and> m2 = m(320 := v))"
      using pass_fills [of "m(320 := v)" "fb\<lparr>fb_beat := hb\<rparr>" c1] that assms(1,4) by (simp add: publishing_beat fab_fill_step_def)
  qed (rule mid)
  have "within (13 + 74) ?I (c, m) ?P"
  proof (rule within_trans)
    show "within 13 ?I (c, m) (\<lambda>c' m'. \<exists>hb v. m' = m(320 := v) \<and> (fab_head (fb\<lparr>fb_beat := hb\<rparr>) c' \<or> fab_mid (fb\<lparr>fb_beat := hb\<rparr>) c'))"
      by (rule within_mono [OF waiting_reach [OF assms(1-3)] to_check_le [OF assms(2)]])
    show "within 74 ?I (c1, m1) ?P"
      if "\<exists>hb v. m1 = m(320 := v) \<and> (fab_head (fb\<lparr>fb_beat := hb\<rparr>) c1 \<or> fab_mid (fb\<lparr>fb_beat := hb\<rparr>) c1)" for c1 m1
    proof -
      have "within 74 ?I (c1, m1) ?P" if "within 60 ?I (c1, m1) ?P" using that by (rule within_mono) simp_all
      then show ?thesis using that head mid by (auto simp del: fun_upd_apply)
    qed
  qed
  then show ?thesis by simp
qed

lemma fill_step_frame [simp]: "a \<noteq> FMMA_POSITION \<Longrightarrow> snd (fab_fill_step fb m) a = m a"
  by (simp add: fab_fill_step_def Let_def)

lemma fill_step_loaded [simp]: "loaded (snd (fab_fill_step fb m)) = loaded m"
  by (simp add: fab_fill_step_def Let_def)

lemma fill_step_tick [simp]: "fb_tick (fst (fab_fill_step fb m)) = fb_tick fb"
  by (simp add: fab_fill_step_def Let_def)

text \<open>A complete new fill is in the position within 40 instructions.\<close>

lemma pass_none:
  assumes "loaded m" "fab_mid fb c" "m FMMA_TICK_SEQ = fb_tick fb"
  shows "within 3 (publishing m dec) (c, m) (\<lambda>c' m'. fab_at fb c' \<and> m' = m)"
  using tick_none [OF assms(1) assms(2) [unfolded fab_mid_def] assms(3)] by (simp add: fab_at_def)

lemma serve_fill:
  assumes "loaded m" "waiting fb c" "m FMMA_CFG_RESTART = 0" "m FMMA_TICK_SEQ = fb_tick fb"
  shows "within 40 (publishing m dec) (c, m) (\<lambda>c' m'. \<exists>hb v.
    fab_at ((fst (fab_fill_step fb m))\<lparr>fb_beat := hb\<rparr>) c' \<and> m' = (snd (fab_fill_step fb m))(FMMA_HEARTBEAT := v))"
    (is "within _ ?I _ ?P")
proof -
  have l: "loaded (m(320 := v))" "(m(320 := v)) 266 = 0" "(m(320 := v)) 256 = fb_tick fb" for v using assms by simp_all
  have head: "within 17 ?I (c1, m1) ?P" if h: "fab_head (fb\<lparr>fb_beat := hb\<rparr>) c1 \<and> m1 = m(320 := v)" for c1 m1 hb v
  proof -
    let ?fb = "(fst (fab_fill_step fb m))\<lparr>fb_beat := hb\<rparr>" and ?m = "(snd (fab_fill_step fb m))(320 := v)"
    have "within (14 + 3) ?I (c1, m1) (\<lambda>c' m'. fab_at ?fb c' \<and> m' = ?m)"
    proof (rule within_trans)
      show "within 14 ?I (c1, m1) (\<lambda>c2 m2. fab_mid ?fb c2 \<and> m2 = ?m)"
        using pass_fills [OF l(1), of "fb\<lparr>fb_beat := hb\<rparr>" c1 v] h by (simp only: beat_steps publishing_beat fst_conv snd_conv)
      show "within 3 (publishing ?m dec) (c2, m2) (\<lambda>c' m'. fab_at ?fb c' \<and> m' = ?m)" if "fab_mid ?fb c2 \<and> m2 = ?m" for c2 m2
        using pass_none [of ?m ?fb c2] that assms(1,4) by simp
      show "?I m'" if "publishing ?m dec m'" for m' using that by (simp add: publishing_def own_words_def)
    qed
    then show ?thesis by (rule within_mono) (simp, blast, assumption)
  qed
  have mid: "within 27 ?I (c1, m1) ?P" if h: "fab_mid (fb\<lparr>fb_beat := hb\<rparr>) c1 \<and> m1 = m(320 := v)" for c1 m1 hb v
  proof -
    let ?fb = "fb\<lparr>fb_beat := hb\<rparr>"
    have "within (3 + (7 + 17)) ?I (c1, m1) ?P"
    proof (rule within_trans)
      show "within 3 ?I (c1, m1) (\<lambda>c2 m2. fab_at ?fb c2 \<and> m2 = m(320 := v))"
        using pass_none [OF l(1), of ?fb c1 v] l h by (simp add: publishing_beat)
      fix c2 m2
      assume a: "fab_at ?fb c2 \<and> m2 = m(320 := v)"
      show "within (7 + 17) ?I (c2, m2) ?P"
      proof (rule within_trans)
        show "within 7 ?I (c2, m2) (\<lambda>c3 m3. fab_head (fb\<lparr>fb_beat := hb + 1\<rparr>) c3 \<and> m3 = m(320 := hb + 1))"
          using pass_head [of "m(320 := v)" ?fb c2] l a by (simp add: publishing_beat)
      qed (rule head)
    qed
    then show ?thesis by simp
  qed
  have "within (13 + 27) ?I (c, m) ?P"
  proof (rule within_trans)
    show "within 13 ?I (c, m) (\<lambda>c' m'. \<exists>hb v. m' = m(320 := v) \<and> (fab_head (fb\<lparr>fb_beat := hb\<rparr>) c' \<or> fab_mid (fb\<lparr>fb_beat := hb\<rparr>) c'))"
      by (rule within_mono [OF waiting_reach [OF assms(1-3)] to_check_le [OF assms(2)]])
    show "within 27 ?I (c1, m1) ?P"
      if "\<exists>hb v. m1 = m(320 := v) \<and> (fab_head (fb\<lparr>fb_beat := hb\<rparr>) c1 \<or> fab_mid (fb\<lparr>fb_beat := hb\<rparr>) c1)" for c1 m1
    proof -
      have "within 27 ?I (c1, m1) ?P" if "within 17 ?I (c1, m1) ?P" using that by (rule within_mono) simp_all
      then show ?thesis using that head mid by (auto simp del: fun_upd_apply)
    qed
  qed
  then show ?thesis by simp
qed

section \<open>Settling\<close>

text \<open>Once served, the CPU idles and only the heartbeat moves.\<close>

lemma settle:
  assumes "within b I (c, m) (\<lambda>c' m'. \<exists>hb v. fab_at (fb\<lparr>fb_beat := hb\<rparr>) c' \<and> m' = M(FMMA_HEARTBEAT := v))" "quiet fb M"
  obtains k where "k \<le> b" "\<And>i. i < k \<Longrightarrow> I (snd (cpu_alone i (c, m)))"
    "\<And>i. k \<le> i \<Longrightarrow> \<exists>c' hb v. cpu_alone i (c, m) = (c', M(FMMA_HEARTBEAT := v)) \<and> waiting (fb\<lparr>fb_beat := hb\<rparr>) c'"
proof -
  obtain k where k: "k \<le> b" "\<forall>i < k. I (snd (cpu_alone i (c, m)))"
      "case cpu_alone k (c, m) of (c', m') \<Rightarrow> \<exists>hb v. fab_at (fb\<lparr>fb_beat := hb\<rparr>) c' \<and> m' = M(320 := v)"
    using assms(1) [unfolded within_def] by (elim exE conjE)
  obtain c1 m1 where e: "cpu_alone k (c, m) = (c1, m1)" by (rule prod.exhaust)
  obtain hb v where at: "fab_at (fb\<lparr>fb_beat := hb\<rparr>) c1" and m1: "m1 = M(320 := v)" using k(3) [unfolded e prod.case] by (elim exE conjE)
  have c1: "cpu_alone k (c, m) = (c1, M(320 := v))" using e m1 by simp
  have "\<exists>c' hb v. cpu_alone i (c, m) = (c', M(320 := v)) \<and> waiting (fb\<lparr>fb_beat := hb\<rparr>) c'" if "k \<le> i" for i
  proof -
    have "concat (replicate (i - k) []) = []" by simp
    then have "\<exists>c' hb' v'. cpu_alone (i - k) (c1, M(320 := v)) = (c', M(320 := v, 320 := v')) \<and> waiting (fb\<lparr>fb_beat := hb, fb_beat := hb'\<rparr>) c'"
      using quiet_run [of "fb\<lparr>fb_beat := hb\<rparr>" "replicate (i - k) []" "M(320 := v)" c1] assms(2) at_waiting [OF at] by simp
    then show ?thesis using cpu_alone_add [of k "i - k" "(c, m)"] that c1 by (simp add: beat_beat)
  qed
  with k show ?thesis using that by blast
qed

section \<open>Agreement with the C transcription\<close>

text \<open>The state of \<open>fmma_strategy.c\<close> that the registers and the configuration words stand for.\<close>

definition agrees :: "fmma_strategy \<Rightarrow> fab \<Rightarrow> ram \<Rightarrow> bool" where
  "agrees s fb m \<longleftrightarrow> strat_anchor s = uint (fb_anchor fb) \<and> strat_threshold s = m FMMA_CFG_THRESH \<and>
     strat_max_position s = m FMMA_CFG_MAX_POS \<and> strat_position s = sint (fb_pos fb) \<and> (strat_enabled s \<longleftrightarrow> m FMMA_CFG_ENABLE \<noteq> 0)"

text \<open>
  The fabric compares 32-bit sums as signed numbers, the C code 64-bit ones: the two agree while twice a price and
  twice the threshold together stay below the sign bit.
\<close>

definition quote_fits :: "u32 \<Rightarrow> u32 \<Rightarrow> u32 \<Rightarrow> bool" where
  "quote_fits t b a \<longleftrightarrow> uint b + uint a + 2 * uint t < 2 ^ 31"

definition anchor_fits :: "fmma_strategy \<Rightarrow> bool" where
  "anchor_fits s \<longleftrightarrow> strat_anchor s + 2 * uint (strat_threshold s) < 2 ^ 31"

lemma band_tests:
  assumes "quote_fits t b a" "uint (an :: u32) + 2 * uint t < 2 ^ 31"
  shows "uint (b + a) = uint b + uint a" "sint (b + a) = uint b + uint a"
    "sint (an - (t + t)) = uint an - 2 * uint t" "sint (an + (t + t)) = uint an + 2 * uint t"
proof -
  note nn = uint_ge_0 [of b] uint_ge_0 [of a] uint_ge_0 [of t] uint_ge_0 [of an]
  have w: "b + a = word_of_int (uint b + uint a)" "an - (t + t) = word_of_int (uint an - 2 * uint t)"
    "an + (t + t) = word_of_int (uint an + 2 * uint t)"
    by simp_all
  note lim = assms [unfolded quote_fits_def] nn
  show "uint (b + a) = uint b + uint a" unfolding w
  proof (rule uint_of_int_u32)
    have "uint b + uint a < 2 ^ 31" using lim by linarith
    then show "uint b + uint a < 2 ^ 32" by simp
  qed (use lim in linarith)
  show "sint (b + a) = uint b + uint a" unfolding w using lim by (intro sint_of_int_u32; linarith)
  show "sint (an - (t + t)) = uint an - 2 * uint t" unfolding w using lim by (intro sint_of_int_u32; linarith)
  show "sint (an + (t + t)) = uint an + 2 * uint t" unfolding w using lim by (intro sint_of_int_u32; linarith)
qed

lemma sint_hom:
  "sint (x + y :: u32) = s32 (sint x + sint y)" "sint (x - y :: u32) = s32 (sint x - sint y)" "sint (- x :: u32) = s32 (- sint x)"
  by (simp_all add: s32_def sint_word_ariths)

lemma agrees_fill:
  assumes "agrees s fb m" "m FMMA_FILL_SEQ \<noteq> fb_fill fb"
  shows "agrees (fmma_strategy_on_fill s (m FMMA_FILL_SIDE) (m FMMA_FILL_QTY)) (fst (fab_fill_step fb m)) (snd (fab_fill_step fb m))"
  using assms by (auto simp: agrees_def fmma_strategy_on_fill_def fab_fill_step_def Let_def sint_hom)

text \<open>What the C function returns, in the terms of the fabric's tests.\<close>

lemma on_quote_fabric:
  assumes "agrees s fb m" "quote_fits (strat_threshold s) (m FMMA_BID) (m FMMA_ASK)" "anchor_fits s" "m FMMA_BID \<noteq> 0" "m FMMA_ASK \<noteq> 0"
  defines "sm \<equiv> m FMMA_BID + m FMMA_ASK" and "band \<equiv> m FMMA_CFG_THRESH + m FMMA_CFG_THRESH"
  defines "fell \<equiv> sint sm < sint (fb_anchor fb - band)" and "rose \<equiv> sint (fb_anchor fb + band) < sint sm"
    and "room \<equiv> \<lambda>buy. if buy then sint (fb_pos fb) < sint (m FMMA_CFG_MAX_POS) else sint (- m FMMA_CFG_MAX_POS) < sint (fb_pos fb)"
  shows "snd (fmma_strategy_on_quote s (m FMMA_BID) (m FMMA_ASK)) =
      (if fb_anchor fb = 0 \<or> m FMMA_CFG_ENABLE = 0 then 0 else if fell then (if room True then FMMA_SIGNAL_BUY else 0)
       else if rose then (if room False then FMMA_SIGNAL_SELL else 0) else 0)"
    "strat_anchor (fst (fmma_strategy_on_quote s (m FMMA_BID) (m FMMA_ASK))) = uint sm"
    "uint sm + 2 * uint (strat_threshold s) < 2 ^ 31"
proof -
  have ag: "strat_anchor s = uint (fb_anchor fb)" "strat_threshold s = m 261" "strat_max_position s = m 262" "strat_position s = sint (fb_pos fb)"
    "strat_enabled s = (m 263 \<noteq> 0)" using assms(1) by (simp_all add: agrees_def)
  have an: "uint (fb_anchor fb) + 2 * uint (m 261) < 2 ^ 31" using assms(3) ag by (simp add: anchor_fits_def)
  note t = band_tests [OF assms(2) [unfolded ag(2)] an]
  have s: "s64 (uint (fb_anchor fb) - 2 * uint (m 261)) = uint (fb_anchor fb) - 2 * uint (m 261)"
     "s64 (uint (fb_anchor fb) + 2 * uint (m 261)) = uint (fb_anchor fb) + 2 * uint (m 261)"
    using uint_u32_bounds [of "fb_anchor fb"] uint_u32_bounds [of "m 261"] by (intro s64_lim; linarith)+
  have z: "uint (fb_anchor fb) = 0 \<longleftrightarrow> fb_anchor fb = 0" by (simp add: uint_0_iff)
  have w: "strategy_want (uint (m 257) + uint (m 258)) (uint (fb_anchor fb)) (2 * uint (m 261)) = (if fell then 1 else if rose then 2 else 0)"
    unfolding strategy_want_def s fell_def rose_def sm_def band_def t by (rule refl)
  show "snd (fmma_strategy_on_quote s (m FMMA_BID) (m FMMA_ASK)) =
      (if fb_anchor fb = 0 \<or> m FMMA_CFG_ENABLE = 0 then 0 else if fell then (if room True then FMMA_SIGNAL_BUY else 0)
       else if rose then (if room False then FMMA_SIGNAL_SELL else 0) else 0)"
    using assms(4,5) by (simp add: fmma_strategy_on_quote_def Let_def ag z w quote_sum(1) band_value room_def sint_hom(3) not_less [symmetric])
  show "strat_anchor (fst (fmma_strategy_on_quote s (m FMMA_BID) (m FMMA_ASK))) = uint sm"
    using assms(4,5) by (simp add: fmma_strategy_on_quote_def Let_def ag z w quote_sum(1) band_value sm_def t)
  show "uint sm + 2 * uint (strat_threshold s) < 2 ^ 31" using assms(2) unfolding sm_def t quote_fits_def by simp
qed

lemma agrees_tick:
  assumes "agrees s fb m" "quote_fits (strat_threshold s) (m FMMA_BID) (m FMMA_ASK)" "anchor_fits s"
    "m FMMA_TICK_SEQ \<noteq> fb_tick fb" "even (m FMMA_TICK_SEQ)"
  defines "r \<equiv> fmma_strategy_on_quote s (m FMMA_BID) (m FMMA_ASK)" and "f \<equiv> fab_tick_step fb m"
  shows "agrees (fst r) (fst f) (snd f)" "anchor_fits (fst r)"
    "snd f FMMA_SIGNAL_SEQ = m FMMA_SIGNAL_SEQ + (if snd r = FMMA_SIGNAL_NONE then 0 else 1)"
    "snd r = FMMA_SIGNAL_NONE \<or> snd f FMMA_SIGNAL = snd r \<and> snd f FMMA_SIGNAL_TICK = m FMMA_TICK_SEQ"
proof -
  have cfg: "snd f a = m a" if "a < 320" for a using that
    by (simp add: f_def fab_tick_step_def fab_decision_def fab_emit_def fab_reject_def Let_def)
  have pos: "fb_pos (fst f) = fb_pos fb" by (simp add: f_def fab_tick_step_def Let_def)
  have ag: "agrees (fst r) (fst f) (snd f)" if "strat_anchor (fst r) = uint (fb_anchor (fst f))"
    using assms(1) that by (simp add: agrees_def cfg pos r_def on_quote_frame)
  have "agrees (fst r) (fst f) (snd f) \<and> anchor_fits (fst r) \<and>
    snd f FMMA_SIGNAL_SEQ = m FMMA_SIGNAL_SEQ + (if snd r = FMMA_SIGNAL_NONE then 0 else 1) \<and>
    (snd r = FMMA_SIGNAL_NONE \<or> snd f FMMA_SIGNAL = snd r \<and> snd f FMMA_SIGNAL_TICK = m FMMA_TICK_SEQ)"
  proof (cases "m FMMA_BID = 0 \<or> m FMMA_ASK = 0")
    case True
    then have "r = (s, 0)" "f = (fb\<lparr>fb_tick := m 256\<rparr>, m)"
      using assms(4,5) by (auto simp: r_def f_def fmma_strategy_on_quote_def fab_tick_step_def Let_def)
    then show ?thesis using assms(1,3) by (simp add: agrees_def)
  next
    case False
    then have nz: "m 257 \<noteq> 0" "m 258 \<noteq> 0" by auto
    note q = on_quote_fabric [OF assms(1-3) nz, folded r_def]
    have "fb_anchor (fst f) = m 257 + m 258" using assms(4,5) nz by (simp add: f_def fab_tick_step_def Let_def)
    then have "agrees (fst r) (fst f) (snd f)" using ag q(2) by simp
    moreover have "anchor_fits (fst r)" using q(2,3) unfolding anchor_fits_def r_def on_quote_frame by simp
    ultimately show ?thesis unfolding q(1) using assms(4,5) nz
      by (simp add: f_def fab_tick_step_def Let_def fab_decision_def fab_emit_def fab_reject_def del: mult_2 mult_2_right)
  qed
  then show "agrees (fst r) (fst f) (snd f)" "anchor_fits (fst r)"
    "snd f FMMA_SIGNAL_SEQ = m FMMA_SIGNAL_SEQ + (if snd r = FMMA_SIGNAL_NONE then 0 else 1)"
    "snd r = FMMA_SIGNAL_NONE \<or> snd f FMMA_SIGNAL = snd r \<and> snd f FMMA_SIGNAL_TICK = m FMMA_TICK_SEQ"
    by blast+
qed

end
