(* ===== verification/Fmma_Confined.thy ===== *)
theory Fmma_Confined
  imports Fmma_Firmware Fmma_Fpga
begin

text \<open>
  The program image, whatever the host does meanwhile: an invariant of every instruction of the image, from which
  follow where the program can store, that it never leaves its own code, and that it always comes back to its loop.
\<close>

section \<open>The invariant\<close>

text \<open>The instructions before which register 4 must hold a certain address, and that address.\<close>

definition address_at :: "(addr \<times> u32) list" where
  "address_at = [(21, 321), (23, 322), (25, 323), (27, 324), (29, 326), (31, 328), (33, 329), (36, 325), (44, 327),
     (49, 266), (50, 266), (51, 266), (67, 324), (132, 321), (134, 322), (137, 325), (139, 323), (140, 323), (141, 323),
     (148, 325), (150, 326), (151, 326), (152, 326), (154, 266), (155, 266), (157, 8)]"

definition sane :: "cpu \<Rightarrow> bool" where
  "sane c \<longleftrightarrow> 8 \<le> pc c \<and> pc c < 158 \<and> (8 < pc c \<longrightarrow> regs c 0 = 0) \<and> (9 < pc c \<longrightarrow> regs c 1 = 1) \<and> (10 < pc c \<longrightarrow> regs c 2 = 256) \<and>
     (11 < pc c \<longrightarrow> regs c 3 = 320) \<and> (45 < pc c \<longrightarrow> regs c 15 = 46) \<and>
     (case map_of address_at (pc c) of None \<Rightarrow> True | Some a \<Rightarrow> regs c 4 = a) \<and>
     (pc c = 38 \<longrightarrow> regs c 8 = 10) \<and> (pc c = 39 \<longrightarrow> regs c 8 = 7) \<and> (pc c = 40 \<longrightarrow> regs c 8 = 7 \<and> regs c 7 = 7) \<and>
     (pc c = 41 \<longrightarrow> fz (flags c)) \<and> (pc c = 155 \<longrightarrow> regs c 8 = 0)"

text \<open>What the program may change: the output block, and the restart request, which it may clear.\<close>

definition own_change :: "ram \<Rightarrow> ram \<Rightarrow> bool" where
  "own_change m m' \<longleftrightarrow> (\<forall>a. m' a = m a \<or> FMMA_HEARTBEAT \<le> a \<and> a \<le> FMMA_QUOTE_ASK \<or> a = FMMA_CFG_RESTART \<and> m' a = 0)"

text \<open>
  One instruction keeps the invariant and the host's words, and goes forward in the program, back to the head of the
  loop, or, on the restart path at its end, to the entry point.
\<close>

definition good_step :: "cpu \<Rightarrow> ram \<Rightarrow> cpu \<times> ram \<Rightarrow> bool" where
  "good_step c m s \<longleftrightarrow> sane (fst s) \<and>
     (pc c < pc (fst s) \<or> pc (fst s) = 46 \<and> 46 < pc c \<and> pc c < 154 \<or> pc (fst s) = 8 \<and> pc c = 157) \<and>
     own_change m (snd s) \<and> (snd s FMMA_CFG_RESTART = m FMMA_CFG_RESTART \<or> 154 \<le> pc c)"

lemma addr_range: "(word_of_nat lo :: addr) \<le> p \<Longrightarrow> p < word_of_nat hi \<Longrightarrow> lo < 1024 \<Longrightarrow> hi < 1024 \<Longrightarrow> p \<in> word_of_nat ` {lo..<hi}"
  by (intro image_eqI [of _ _ "unat p"]) (simp_all add: word_le_nat_alt word_less_nat_alt unat_of_nat)

lemma addr_cases:
  assumes "(word_of_nat lo :: addr) \<le> p" "p < word_of_nat hi" "lo < 1024" "hi < 1024"
  shows "\<exists>k \<in> set [lo..<hi]. p = word_of_nat k"
  using addr_range [OF assms] by auto

lemma sane_step_8:
  assumes "sane (at p r f)" "loaded m" "8 \<le> p" "p < 46"
  shows "good_step (at p r f) m (cpu_step (at p r f, m))"
proof -
  have "\<exists>k \<in> set [8..<46]. p = word_of_nat k" by (rule addr_cases) (use assms(3,4) in simp_all)
  then show ?thesis
    by (simp only: upt_rec_numeral upt_conv_Nil list.simps set_simps bex_simps, simp, elim disjE)
      (insert assms(1,2), simp_all add: sane_def address_at_def sym good_step_def own_change_def)
qed

lemma sane_step_46:
  assumes "sane (at p r f)" "loaded m" "46 \<le> p" "p < 80"
  shows "good_step (at p r f) m (cpu_step (at p r f, m))"
proof -
  have "\<exists>k \<in> set [46..<80]. p = word_of_nat k" by (rule addr_cases) (use assms(3,4) in simp_all)
  then show ?thesis
    by (simp only: upt_rec_numeral upt_conv_Nil list.simps set_simps bex_simps, simp, elim disjE)
      (insert assms(1,2), simp_all add: sane_def address_at_def sym good_step_def own_change_def)
qed

lemma sane_step_80:
  assumes "sane (at p r f)" "loaded m" "80 \<le> p" "p < 120"
  shows "good_step (at p r f) m (cpu_step (at p r f, m))"
proof -
  have "\<exists>k \<in> set [80..<120]. p = word_of_nat k" by (rule addr_cases) (use assms(3,4) in simp_all)
  then show ?thesis
    by (simp only: upt_rec_numeral upt_conv_Nil list.simps set_simps bex_simps, simp, elim disjE)
      (insert assms(1,2), simp_all add: sane_def address_at_def sym good_step_def own_change_def)
qed

lemma sane_step_120:
  assumes "sane (at p r f)" "loaded m" "120 \<le> p" "p < 158"
  shows "good_step (at p r f) m (cpu_step (at p r f, m))"
proof -
  have "\<exists>k \<in> set [120..<158]. p = word_of_nat k" by (rule addr_cases) (use assms(3,4) in simp_all)
  then show ?thesis
    by (simp only: upt_rec_numeral upt_conv_Nil list.simps set_simps bex_simps, simp, elim disjE)
      (insert assms(1,2), simp_all add: sane_def address_at_def sym good_step_def own_change_def)
qed

lemma sane_step:
  assumes "sane c" "loaded m"
  shows "good_step c m (cpu_step (c, m))"
proof -
  obtain p r f where c: "c = at p r f" by (cases c) auto
  have "8 \<le> p" "p < 158" using assms(1) by (simp_all add: c sane_def)
  then consider "8 \<le> p" "p < 46" | "46 \<le> p" "p < 80" | "80 \<le> p" "p < 120" | "120 \<le> p" "p < 158" by fastforce
  then show ?thesis unfolding c
    by cases (use assms c in \<open>simp_all add: sane_step_8 sane_step_46 sane_step_80 sane_step_120\<close>)
qed

text \<open>The RAM against the RAM the host's stores alone would give.\<close>

definition shadow :: "ram \<Rightarrow> ram \<Rightarrow> bool" where
  "shadow mh m \<longleftrightarrow> (\<forall>a. FMMA_HEARTBEAT \<le> a \<and> a \<le> FMMA_QUOTE_ASK \<or> m a = mh a \<or> a = FMMA_CFG_RESTART \<and> m a = 0)"

lemma shadow_access: "shadow mh m \<Longrightarrow> shadow (run_accesses xs mh) (run_accesses xs m)"
proof (induction xs arbitrary: mh m rule: store_addrs.induct)
  case (2 a v xs)
  then show ?case by (auto simp: shadow_def)
qed simp_all

lemma shadow_change: "shadow mh m \<Longrightarrow> own_change m m' \<Longrightarrow> shadow mh m'"
  unfolding shadow_def own_change_def by metis

lemma shadow_loaded:
  assumes "shadow mh m" "loaded mh"
  shows "loaded m"
  unfolding loaded_def
proof (intro allI impI)
  fix i
  assume i: "i < FPGA_PROGRAM_LEN"
  then have "m (FPGA_PROGRAM_BASE + i) = mh (FPGA_PROGRAM_BASE + i)"
    using assms(1) [unfolded shadow_def, THEN spec, of "FPGA_PROGRAM_BASE + i"] by (auto simp: FPGA_PROGRAM_LEN_def FPGA_PROGRAM_BASE_def)
  then show "m (FPGA_PROGRAM_BASE + i) = fpga_program ! i" using assms(2) i by (simp add: loaded_def)
qed

lemma shadow_run:
  assumes "sane c" "\<And>k. loaded (run_accesses (take k (concat hs)) mh)" "shadow mh m" "cpu_run hs (c, m) = (c', m')"
  shows "sane c' \<and> shadow (run_accesses (concat hs) mh) m'"
  using assms
proof (induction hs arbitrary: c m mh)
  case (Cons h hs)
  have l: "loaded (run_accesses h mh)" using Cons.prems(2) [of "length h"] by simp
  have sh: "shadow (run_accesses h mh) (run_accesses h m)" by (rule shadow_access [OF Cons.prems(3)])
  obtain c1 m1 where s: "cpu_step (c, run_accesses h m) = (c1, m1)" by (rule prod.exhaust)
  have g: "sane c1" "own_change (run_accesses h m) m1"
    using sane_step [OF Cons.prems(1) shadow_loaded [OF sh l]] by (simp_all add: good_step_def s)
  have "loaded (run_accesses (take k (concat hs)) (run_accesses h mh))" for k
    using Cons.prems(2) [of "length h + k"] by simp
  then show ?case using Cons.IH [OF g(1) _ shadow_change [OF sh g(2)]] Cons.prems(4) s by simp
qed simp

text \<open>
  C11. The program keeps to its side of the protocol. Let the CPU execute the image from any state of the invariant, the
  entry point with any register contents included, while the host stores whatever it likes, at whatever moments, as
  long as the image itself stays in place. Then every word outside the output block is exactly what the host last
  wrote there, except that the restart request may have been cleared; the image stays intact, and the program counter
  stays inside it, short of the fault loop.
\<close>

theorem firmware_keeps_to_its_words:
  assumes "sane c" "\<forall>k. loaded (run_accesses (take k (concat hs)) m)" "cpu_run hs (c, m) = (c', m')"
    "a < FMMA_OUTPUT_BASE \<or> FMMA_QUOTE_ASK < a"
  shows "(m' a = run_accesses (concat hs) m a \<or> a = FMMA_CFG_RESTART \<and> m' a = 0) \<and> sane c' \<and> loaded m'"
proof -
  have "shadow m m" by (simp add: shadow_def)
  then have s: "sane c'" "shadow (run_accesses (concat hs) m) m'" using shadow_run [OF assms(1) _ _ assms(3)] assms(2) by blast+
  have "loaded m'" using shadow_loaded [OF s(2)] assms(2) [rule_format, of "length (concat hs)"] by simp
  moreover have "m' a = run_accesses (concat hs) m a \<or> a = FMMA_CFG_RESTART \<and> m' a = 0"
    using s(2) assms(4) unfolding shadow_def by (metis linorder_not_less)
  ultimately show ?thesis using s(1) by blast
qed

text \<open>The RAM with the image in it and zeroes elsewhere, and a CPU at the entry point.\<close>

definition image_ram :: ram where
  "image_ram a = (if 8 \<le> a \<and> a < 162 then fpga_program ! (a - 8) else 0)"

definition reset_cpu :: cpu where
  "reset_cpu = at 8 (\<lambda>_. 0) no_flags"

lemma image_loaded [simp]: "loaded image_ram"
  by (simp add: loaded_def image_ram_def FPGA_PROGRAM_LEN_def FPGA_PROGRAM_BASE_def)

lemma reset_sane [simp]: "sane reset_cpu"
  by (simp add: sane_def reset_cpu_def address_at_def)

theorem firmware_keeps_to_its_words_witness:
  "snd (cpu_run ([[], [Store FMMA_BID 7]] @ replicate 300 []) (reset_cpu, image_ram)) FMMA_BID = 7"
proof -
  let ?hs = "[[], [Store FMMA_BID 7]] @ replicate 300 []"
  have hs: "concat ?hs = [Store 257 7]" by simp
  have "loaded (run_accesses (take k (concat ?hs)) image_ram)" for k unfolding hs by (cases k) simp_all
  then show ?thesis
    using firmware_keeps_to_its_words [of reset_cpu ?hs image_ram "fst (cpu_run ?hs (reset_cpu, image_ram))" "snd (cpu_run ?hs (reset_cpu, image_ram))" 257]
    unfolding hs by simp
qed

section \<open>Back to the head\<close>

lemma own_change_trans: "own_change m m1 \<Longrightarrow> own_change m1 m2 \<Longrightarrow> own_change m m2"
  unfolding own_change_def by metis

lemma shadow_self: "own_change m m' \<longleftrightarrow> shadow m m'"
  unfolding own_change_def shadow_def by blast

lemma own_change_loaded: "own_change m m' \<Longrightarrow> loaded m \<Longrightarrow> loaded m'"
  unfolding shadow_self by (rule shadow_loaded)

text \<open>Wherever the CPU is in the program, it soon comes to the head of the loop or, having taken a restart request, to the entry point.\<close>

lemma head_reached:
  assumes "sane c" "loaded m"
  shows "within (158 - unat (pc c)) (\<lambda>_. True) (c, m) (\<lambda>c' m'. sane c' \<and> own_change m m' \<and>
    (pc c' = 8 \<or> pc c' = 46 \<and> m' FMMA_CFG_RESTART = m FMMA_CFG_RESTART \<and> pc c < 154))"
  using assms
proof (induction "158 - unat (pc c)" arbitrary: c m rule: less_induct)
  case less
  let ?P = "\<lambda>c m c' m'. sane c' \<and> own_change m m' \<and> (pc c' = 8 \<or> pc c' = 46 \<and> m' 266 = m 266 \<and> pc c < 154)"
  have refl: "own_change m m" for m by (simp add: own_change_def)
  show ?case
  proof (cases "pc c = 8 \<or> pc c = 46")
    case True
    then show ?thesis using less.prems(1) refl by (intro within_here) auto
  next
    case False
    obtain c1 m1 where s: "cpu_step (c, m) = (c1, m1)" by (rule prod.exhaust)
    have g: "sane c1" "pc c < pc c1 \<or> pc c1 = 46 \<and> 46 < pc c \<and> pc c < 154 \<or> pc c1 = 8 \<and> pc c = 157" "own_change m m1"
        "m1 266 = m 266 \<or> 154 \<le> pc c"
      using sane_step [OF less.prems] by (simp_all add: good_step_def s)
    have b: "unat (pc c) < 158" using less.prems(1) by (simp add: sane_def word_less_nat_alt)
    have "within (158 - unat (pc c) - 1) (\<lambda>_. True) (c1, m1) (?P c m)"
    proof (cases "pc c < pc c1")
      case True
      then have lt: "unat (pc c) < unat (pc c1)" by (simp add: word_less_nat_alt)
      have "within (158 - unat (pc c1)) (\<lambda>_. True) (c1, m1) (?P c1 m1)"
        by (rule less.hyps) (use lt b g(1) own_change_loaded [OF g(3) less.prems(2)] in auto)
      then show ?thesis
      proof (rule within_mono)
        fix c' m'
        assume a: "?P c1 m1 c' m'"
        have "pc c < 154 \<and> m1 266 = m 266" if "pc c1 < 154" using that True g(4) by (meson leD less_trans)
        then show "?P c m c' m'" using a own_change_trans [OF g(3)] by metis
      qed (use lt in simp_all)
    next
      case False
      then show ?thesis using g by (intro within_here) (auto simp: not_le [symmetric])
    qed
    then show ?thesis using b s by (intro within_step) simp_all
  qed
qed

end
