(* ===== verification/Fmma_Golden.thy ===== *)
theory Fmma_Golden
  imports Fmma_Session Fmma_Confined
begin

text \<open>
  Sessions: the host publishes quotes and reports fills with the code of \<open>fmma_fpga.c\<close>, its stores spread in any way
  over the instructions the CPU executes meanwhile, and polls after each quote. What it reads is what the C
  transcription of the strategy decides.
\<close>

section \<open>A block of host stores\<close>

lemma cpu_run_append: "cpu_run (xs @ ys) s = cpu_run ys (cpu_run xs s)"
  by (induction xs s rule: cpu_run.induct) (auto split: prod.splits)

lemma run_accesses_beat:
  "FMMA_HEARTBEAT \<notin> store_addrs xs \<Longrightarrow> run_accesses xs (m(FMMA_HEARTBEAT := v)) = (run_accesses xs m)(FMMA_HEARTBEAT := v)"
  by (induction xs arbitrary: m rule: store_addrs.induct) (auto simp: fun_upd_twist)

text \<open>
  A block whose last store completes it: up to that store the CPU idles, and from it on the CPU has the RAM, with the
  whole block in it, to itself.
\<close>

lemma host_block:
  assumes "concat hs = xs @ [x]" "\<And>k. quiet fb (run_accesses (take k xs) m)" "FMMA_HEARTBEAT \<notin> store_addrs (xs @ [x])" "waiting fb c"
  obtains c1 hb v j where "waiting (fb\<lparr>fb_beat := hb\<rparr>) c1"
    "\<And>n. cpu_run (hs @ replicate n []) (c, m) = cpu_alone (Suc j + n) (c1, (run_accesses (xs @ [x]) m)(FMMA_HEARTBEAT := v))"
proof -
  obtain hs1 h k where h: "hs = hs1 @ (h @ [x]) # replicate k []" "concat hs1 @ h = xs" using last_access [OF assms(1)] by blast
  have q: "quiet fb (run_accesses (take i (concat hs1)) m)" for i
  proof -
    have "take (min i (length (concat hs1))) xs = take i (concat hs1)" using h(2) by (auto simp: min_def)
    then show ?thesis using assms(2) by metis
  qed
  have n: "320 \<notin> store_addrs (concat hs1)" "320 \<notin> store_addrs (h @ [x])" using assms(3) h(2) by auto
  obtain c1 hb v where c1: "cpu_run hs1 (c, m) = (c1, (run_accesses (concat hs1) m)(320 := v))" "waiting (fb\<lparr>fb_beat := hb\<rparr>) c1"
    using quiet_run [OF q n(1) assms(4)] by blast
  have "cpu_run (hs @ replicate i []) (c, m) = cpu_alone (Suc k + i) (c1, (run_accesses (xs @ [x]) m)(320 := v))" for i
  proof -
    have "run_accesses (h @ [x]) ((run_accesses (concat hs1) m)(320 := v)) = (run_accesses (xs @ [x]) m)(320 := v)"
      using run_accesses_beat [OF n(2)] h(2) by (metis append.assoc run_accesses_append)
    then have "cpu_run (hs @ replicate i []) (c, m) =
        cpu_run (replicate k [] @ replicate i []) (cpu_step (c1, (run_accesses (xs @ [x]) m)(320 := v)))"
      unfolding h(1) cpu_run_append c1(1) by (simp only: append_Cons append_assoc append_Nil cpu_run.simps prod.case cpu_run_append c1(1))
    then show ?thesis by (simp add: replicate_add cpu_run_append del: run_accesses_append)
  qed
  with c1(2) show ?thesis by (rule that)
qed

section \<open>One turn\<close>

text \<open>Host and CPU have seen the same quotes, fills and decisions, and the CPU idles.\<close>

definition synced :: "fmma_fpga \<Rightarrow> fab \<Rightarrow> cpu \<times> ram \<Rightarrow> bool" where
  "synced d fb s \<longleftrightarrow> (case s of (c, m) \<Rightarrow> waiting fb c \<and> loaded m \<and> m FMMA_CFG_RESTART = 0 \<and>
     m FMMA_FILL_SEQ = fb_fill fb \<and> m FMMA_TICK_SEQ = fb_tick fb \<and> even (fb_tick fb) \<and> fpga_regs d \<and>
     fpga_tick_seq d = fb_tick fb \<and> fpga_fill_seq d = fb_fill fb \<and> fpga_signal_seq d = m FMMA_SIGNAL_SEQ)"

lemma synced_beat: "synced d fb (c', M(FMMA_HEARTBEAT := v)) \<longleftrightarrow> synced d fb (c', M)"
  by (simp add: synced_def)

text \<open>What a poll should read for a quote published as number \<open>seq\<close> on which the strategy decides \<open>side\<close>.\<close>

definition answers :: "u32 \<Rightarrow> fmma_signal option \<Rightarrow> u32 \<Rightarrow> bool" where
  "answers seq sg side \<longleftrightarrow>
     (if side = FMMA_SIGNAL_NONE then sg = None
      else case sg of None \<Rightarrow> False | Some g \<Rightarrow> sig_side g = side \<and> sig_tick g = seq \<and> sig_missed g = 0)"

abbreviation tick_head :: "fmma_fpga \<Rightarrow> u32 \<Rightarrow> u32 \<Rightarrow> u32 \<Rightarrow> u32 \<Rightarrow> access list" where
  "tick_head d b a bs as \<equiv> [Store FMMA_TICK_SEQ (fpga_tick_seq d + 1), Barrier, Store FMMA_BID b, Store FMMA_ASK a,
     Store FMMA_BID_SIZE bs, Store FMMA_ASK_SIZE as, Barrier]"

lemma publish_split:
  assumes "fpga_regs d" "fmma_fpga_publish_tick (Some d) b a bs as = (f, acc, seq)"
  shows "seq = fpga_tick_seq d + 2" "f = Some (d\<lparr>fpga_tick_seq := seq\<rparr>)" "acc = tick_head d b a bs as @ [Store FMMA_TICK_SEQ seq]"
  using assms by (auto simp: fmma_fpga_publish_tick_def fmma_fpga_present_def Let_def add.assoc)

lemma tick_prefix_quiet:
  assumes "synced d fb (c, m)"
  shows "quiet fb (run_accesses (take k (tick_head d b a bs as)) m)"
proof (cases "k < 7")
  case True
  then have "k \<in> {0, 1, 2, 3, 4, 5, 6}" by auto
  then show ?thesis using assms by (auto simp: synced_def quiet_def numeral_eq_Suc)
next
  case False
  then show ?thesis using assms by (simp add: synced_def quiet_def)
qed

lemma agrees_beat [simp]: "agrees st (fb\<lparr>fb_beat := hb\<rparr>) (m(FMMA_HEARTBEAT := v)) = agrees st fb m"
  by (simp add: agrees_def)

text \<open>The CPU after a complete quote, at every instruction from its last store on.\<close>

lemma tick_settles:
  assumes "loaded M" "waiting fb c" "M FMMA_CFG_RESTART = 0" "M FMMA_FILL_SEQ = fb_fill fb" "even (M FMMA_TICK_SEQ)"
  defines "r \<equiv> fab_tick_step fb M"
  obtains k where "k \<le> 87" "\<And>i. i < k \<Longrightarrow> publishing M (fab_dec fb M) (snd (cpu_alone i (c, M)))"
    "\<And>i. k \<le> i \<Longrightarrow> \<exists>c' hb v. cpu_alone i (c, M) = (c', (snd r)(FMMA_HEARTBEAT := v)) \<and> waiting ((fst r)\<lparr>fb_beat := hb\<rparr>) c'"
proof -
  have "quiet (fst r) (snd r)"
    using assms(1,3-5) by (auto simp: quiet_def r_def fab_tick_step_def fab_decision_def fab_emit_def fab_reject_def Let_def)
  with serve_tick [OF assms(1-4), folded r_def] show ?thesis by (rule settle) (rule that)
qed

lemma tick_block:
  assumes "synced d fb (c, m)" "fmma_fpga_publish_tick (Some d) b a bs as = (f, acc, seq)" "concat hs = acc"
  obtains c1 hb v j M where "M = m(FMMA_TICK_SEQ := seq, FMMA_BID := b, FMMA_ASK := a, FMMA_BID_SIZE := bs, FMMA_ASK_SIZE := as, FMMA_HEARTBEAT := v)"
    "waiting (fb\<lparr>fb_beat := hb\<rparr>) c1" "loaded M" "M FMMA_CFG_RESTART = 0" "M FMMA_FILL_SEQ = fb_fill (fb\<lparr>fb_beat := hb\<rparr>)" "even (M FMMA_TICK_SEQ)"
    "M FMMA_TICK_SEQ \<noteq> fb_tick (fb\<lparr>fb_beat := hb\<rparr>)" "\<And>n. cpu_run (hs @ replicate n []) (c, m) = cpu_alone (Suc j + n) (c1, M)"
proof -
  have sy: "waiting fb c" "loaded m" "m 266 = 0" "m 267 = fb_fill fb" "fpga_regs d" "fpga_tick_seq d = fb_tick fb" "even (fb_tick fb)"
    using assms(1) by (simp_all add: synced_def)
  note ps = publish_split [OF sy(5) assms(2)]
  have nb: "320 \<notin> store_addrs (tick_head d b a bs as @ [Store 256 seq])" by simp
  obtain c1 hb v j where c1: "waiting (fb\<lparr>fb_beat := hb\<rparr>) c1"
      "\<And>n. cpu_run (hs @ replicate n []) (c, m) = cpu_alone (Suc j + n) (c1, (run_accesses acc m)(320 := v))"
    by (rule host_block [OF assms(3) [unfolded ps(3)] tick_prefix_quiet [OF assms(1)] nb sy(1), folded ps(3)]) (rule that)
  have M: "(run_accesses acc m)(320 := v) = m(256 := seq, 257 := b, 258 := a, 259 := bs, 260 := as, 320 := v)" by (simp add: ps(3) fun_upd_twist)
  show ?thesis by (rule that [OF refl c1(1) _ _ _ _ _ c1(2) [unfolded M]]) (use sy in \<open>simp_all add: ps(1)\<close>)
qed

lemma quote_turn:
  assumes "synced d fb (c, m)" "agrees st fb m" "anchor_fits st" "quote_fits (strat_threshold st) b a"
    "fmma_fpga_publish_tick (Some d) b a bs as = (f, acc, seq)" "concat hs = acc" "87 \<le> n"
  defines "s1 \<equiv> cpu_run (hs @ replicate n []) (c, m)"
  defines "p \<equiv> fmma_fpga_poll_signal f (snd s1)" and "r \<equiv> fmma_strategy_on_quote st b a"
  shows "answers seq (snd p) (snd r)"
    "\<exists>d2 fb2. fst p = Some d2 \<and> synced d2 fb2 s1 \<and> agrees (fst r) fb2 (snd s1)" "anchor_fits (fst r)"
proof -
  have sy: "fpga_regs d" "fpga_tick_seq d = fb_tick fb" "fpga_fill_seq d = fb_fill fb" "fpga_signal_seq d = m 323"
    using assms(1) by (simp_all add: synced_def)
  note ps = publish_split [OF sy(1) assms(5)]
  obtain c1 hb v j M where M: "M = m(256 := seq, 257 := b, 258 := a, 259 := bs, 260 := as, 320 := v)"
      and w: "waiting (fb\<lparr>fb_beat := hb\<rparr>) c1" "loaded M" "M 266 = 0" "M 267 = fb_fill (fb\<lparr>fb_beat := hb\<rparr>)" "even (M 256)"
        "M 256 \<noteq> fb_tick (fb\<lparr>fb_beat := hb\<rparr>)"
      and run: "\<And>n. cpu_run (hs @ replicate n []) (c, m) = cpu_alone (Suc j + n) (c1, M)"
    by (rule tick_block [OF assms(1,5,6)]) (rule that)
  define g where "g = fab_tick_step (fb\<lparr>fb_beat := hb\<rparr>) M"
  obtain k where k: "k \<le> 87" "\<And>i. k \<le> i \<Longrightarrow> \<exists>c' hb v. cpu_alone i (c1, M) = (c', (snd g)(320 := v)) \<and> waiting ((fst g)\<lparr>fb_beat := hb\<rparr>) c'"
    using tick_settles [OF w(2,1,3-5)] unfolding g_def by metis
  have le: "k \<le> Suc j + n" using k(1) assms(7) by simp
  have s1r: "s1 = cpu_alone (Suc j + n) (c1, M)" unfolding s1_def by (rule run)
  obtain c' hb' v' where s1: "s1 = (c', (snd g)(320 := v'))" "waiting ((fst g)\<lparr>fb_beat := hb'\<rparr>) c'"
    using k(2) [OF le] unfolding s1r by (elim exE conjE)
  have ag: "agrees st (fb\<lparr>fb_beat := hb\<rparr>) M" using assms(2) by (simp add: M agrees_def)
  have ba: "M 257 = b" "M 258 = a" "M 256 = seq" "M 323 = m 323" by (simp_all add: M)
  note t = agrees_tick [OF ag assms(4) [folded ba] assms(3) w(6,5), folded g_def, unfolded ba, folded r_def]
  show "anchor_fits (fst r)" by (rule t)
  have pf: "p = (if snd r = 0 then (f, None) else (Some (d\<lparr>fpga_tick_seq := seq, fpga_signal_seq := snd g 323\<rparr>),
      Some \<lparr>sig_side = snd r, sig_tick = seq, sig_seq = snd g 323, sig_missed = 0\<rparr>))"
    using t(3,4) sy by (auto simp: p_def fmma_fpga_poll_signal_def fmma_fpga_present_def ps(2) s1 Let_def)
  then show "answers seq (snd p) (snd r)" by (simp add: answers_def)
  have fr: "snd g 256 = seq" "snd g 266 = 0" "snd g 267 = fb_fill fb" "loaded (snd g)" "fb_tick (fst g) = seq" "fb_fill (fst g) = fb_fill fb" "even seq"
    using w ba by (auto simp: g_def fab_tick_step_def fab_decision_def fab_emit_def fab_reject_def Let_def)
  have "synced (if snd r = 0 then d\<lparr>fpga_tick_seq := seq\<rparr> else d\<lparr>fpga_tick_seq := seq, fpga_signal_seq := snd g 323\<rparr>) ((fst g)\<lparr>fb_beat := hb'\<rparr>) s1"
    using sy fr s1 t(3) by (simp add: synced_def)
  moreover have "agrees (fst r) ((fst g)\<lparr>fb_beat := hb'\<rparr>) (snd s1)" using t(1) s1 by simp
  ultimately show "\<exists>d2 fb2. fst p = Some d2 \<and> synced d2 fb2 s1 \<and> agrees (fst r) fb2 (snd s1)" unfolding pf ps(2) by auto
qed

lemma fill_turn:
  assumes "synced d fb (c, m)" "agrees st fb m"
    "fmma_fpga_report_fill (Some d) side qty = (f, acc)" "concat hs = acc" "40 \<le> n"
  defines "s1 \<equiv> cpu_run (hs @ replicate n []) (c, m)"
  shows "\<exists>d2 fb2. f = Some d2 \<and> synced d2 fb2 s1 \<and> agrees (fmma_strategy_on_fill st side qty) fb2 (snd s1)"
proof -
  have sy: "waiting fb c" "loaded m" "m 266 = 0" "m 267 = fb_fill fb" "m 256 = fb_tick fb" "even (fb_tick fb)" "fpga_regs d"
    "fpga_tick_seq d = fb_tick fb" "fpga_fill_seq d = fb_fill fb" "fpga_signal_seq d = m 323"
    using assms(1) by (simp_all add: synced_def)
  let ?seq = "fpga_fill_seq d + 1" and ?head = "[Store 268 side, Store 269 qty, Barrier]"
  have ps: "f = Some (d\<lparr>fpga_fill_seq := ?seq\<rparr>)" "acc = ?head @ [Store 267 ?seq]"
    using assms(3) sy(7) by (auto simp: fmma_fpga_report_fill_def fmma_fpga_present_def Let_def)
  define M where "M = run_accesses acc m"
  have M: "M = m(268 := side, 269 := qty, 267 := ?seq)" by (simp add: M_def ps(2))
  have nb: "320 \<notin> store_addrs (?head @ [Store 267 ?seq])" by simp
  have q: "quiet fb (run_accesses (take k ?head) m)" for k
  proof (cases "k < 3")
    case True
    then have "k \<in> {0, 1, 2}" by auto
    then show ?thesis using sy by (auto simp: quiet_def numeral_eq_Suc)
  qed (use sy in \<open>simp add: quiet_def\<close>)
  obtain c1 hb v j where c1: "waiting (fb\<lparr>fb_beat := hb\<rparr>) c1"
      "\<And>n. cpu_run (hs @ replicate n []) (c, m) = cpu_alone (Suc j + n) (c1, (run_accesses acc m)(320 := v))"
    by (rule host_block [OF assms(4) [unfolded ps(2)] q nb sy(1), folded ps(2)]) (rule that)
  define M1 where "M1 = M(320 := v)"
  define g where "g = fab_fill_step (fb\<lparr>fb_beat := hb\<rparr>) M1"
  have w: "loaded M1" "M1 266 = 0" "M1 256 = fb_tick (fb\<lparr>fb_beat := hb\<rparr>)" "M1 267 = fb_fill fb + 1" "M1 268 = side" "M1 269 = qty"
      "M1 323 = m 323" using sy by (simp_all add: M1_def M)
  have fr: "loaded (snd g)" "snd g 266 = 0" "snd g 256 = fb_tick fb" "snd g 267 = fb_fill fb + 1" "snd g 323 = m 323"
      "fb_tick (fst g) = fb_tick fb" "fb_fill (fst g) = fb_fill fb + 1"
    using w by (simp_all add: g_def) (simp add: fab_fill_step_def Let_def)
  have "quiet (fst g) (snd g)" using fr by (simp add: quiet_def)
  then obtain k where k: "k \<le> 40" "\<And>i. k \<le> i \<Longrightarrow> \<exists>c' hb v. cpu_alone i (c1, M1) = (c', (snd g)(320 := v)) \<and> waiting ((fst g)\<lparr>fb_beat := hb\<rparr>) c'"
    using settle [OF serve_fill [OF w(1) c1(1) w(2,3), folded g_def]] by metis
  have le: "k \<le> Suc j + n" using k(1) assms(5) by simp
  have run: "s1 = cpu_alone (Suc j + n) (c1, M1)" unfolding s1_def M1_def M_def by (rule c1(2))
  obtain c' hb' v' where s1: "s1 = (c', (snd g)(320 := v'))" "waiting ((fst g)\<lparr>fb_beat := hb'\<rparr>) c'"
    using k(2) [OF le] unfolding run by (elim exE conjE)
  have ag: "agrees st (fb\<lparr>fb_beat := hb\<rparr>) M1" using assms(2) by (simp add: M1_def M agrees_def)
  have "agrees (fmma_strategy_on_fill st side qty) (fst g) (snd g)"
    using agrees_fill [OF ag, folded g_def] w by simp
  then have "agrees (fmma_strategy_on_fill st side qty) ((fst g)\<lparr>fb_beat := hb'\<rparr>) (snd s1)" using s1 by simp
  moreover have "synced (d\<lparr>fpga_fill_seq := ?seq\<rparr>) ((fst g)\<lparr>fb_beat := hb'\<rparr>) s1" using sy fr s1 by (simp add: synced_def)
  ultimately show ?thesis unfolding ps(1) by blast
qed

text \<open>The master switch.\<close>

lemma switch_turn:
  fixes n :: nat
  assumes "synced d fb (c, m)" "agrees st fb m" "concat hs = fmma_fpga_set_enabled (Some d) on"
  defines "s1 \<equiv> cpu_run (hs @ replicate n []) (c, m)"
  shows "\<exists>fb2. synced d fb2 s1 \<and> agrees (st\<lparr>strat_enabled := on\<rparr>) fb2 (snd s1)"
proof -
  let ?v = "if on then 1 else 0 :: u32"
  have sy: "waiting fb c" "quiet fb m" "fpga_regs d" using assms(1) by (simp_all add: synced_def quiet_def)
  have acc: "concat (hs @ replicate n []) = [Barrier, Store 263 ?v]"
    using assms(3) sy(3) by (simp add: fmma_fpga_set_enabled_def fmma_fpga_present_def)
  have q: "quiet fb (run_accesses (take k (concat (hs @ replicate n []))) m)" for k
  proof (cases "k < 2")
    case True
    then have "k = 0 \<or> k = 1" by auto
    then show ?thesis unfolding acc using sy(2) by auto
  next
    case False
    then show ?thesis unfolding acc using sy(2) by (simp add: quiet_def)
  qed
  obtain c' hb v where r: "s1 = (c', (run_accesses (concat (hs @ replicate n [])) m)(320 := v))" "waiting (fb\<lparr>fb_beat := hb\<rparr>) c'"
    using quiet_run [OF q _ sy(1)] unfolding s1_def acc by auto
  have s1: "s1 = (c', m(263 := ?v, 320 := v))" using r(1) unfolding acc by simp
  have "synced d (fb\<lparr>fb_beat := hb\<rparr>) s1" using assms(1) r(2) by (simp add: s1 synced_def)
  moreover have "agrees (st\<lparr>strat_enabled := on\<rparr>) (fb\<lparr>fb_beat := hb\<rparr>) (snd s1)" using assms(2) by (simp add: s1 agrees_def)
  ultimately show ?thesis by blast
qed

section \<open>Sessions\<close>

text \<open>
  How the stores of one operation are spread over the CPU's instructions: so many before the first, so many before the
  second, and what is left before the last.
\<close>

fun spread :: "nat list \<Rightarrow> access list \<Rightarrow> access list list" where
  "spread [] xs = [xs]"
| "spread (k # ks) xs = take k xs # spread ks (drop k xs)"

lemma concat_spread [simp]: "concat (spread ks xs) = xs"
  by (induction ks xs rule: spread.induct) simp_all

text \<open>
  What the host does at run time: publish a quote, report a fill, switch trading on or off. A turn says which, the sizes beside a
  quote, how the stores are spread, and how long the CPU then runs before the poll.
\<close>

datatype host_event = Market u32 u32 | Filled u32 u32 | Switch bool

record turn =
  turn_event :: host_event
  turn_sizes :: "u32 \<times> u32"
  turn_spread :: "nat list"
  turn_wait :: nat

fun session :: "fmma_fpga option \<Rightarrow> cpu \<times> ram \<Rightarrow> turn list \<Rightarrow> (u32 \<times> fmma_signal option) list" where
  "session f s [] = []"
| "session f s (t # ts) =
     (case turn_event t of
        Market b a \<Rightarrow>
          (case fmma_fpga_publish_tick f b a (fst (turn_sizes t)) (snd (turn_sizes t)) of (f1, acc, seq) \<Rightarrow>
             let s1 = cpu_run (spread (turn_spread t) acc @ replicate (turn_wait t) []) s
             in case fmma_fpga_poll_signal f1 (snd s1) of (f2, sg) \<Rightarrow> (seq, sg) # session f2 s1 ts)
      | Filled side qty \<Rightarrow>
          (case fmma_fpga_report_fill f side qty of (f1, acc) \<Rightarrow>
             session f1 (cpu_run (spread (turn_spread t) acc @ replicate (turn_wait t) []) s) ts)
      | Switch on \<Rightarrow>
          session f (cpu_run (spread (turn_spread t) (fmma_fpga_set_enabled f on) @ replicate (turn_wait t) []) s) ts)"

text \<open>The same events on the software strategy.\<close>

fun soft_run :: "fmma_strategy \<Rightarrow> host_event list \<Rightarrow> u32 list" where
  "soft_run st [] = []"
| "soft_run st (Market b a # es) = (case fmma_strategy_on_quote st b a of (st1, side) \<Rightarrow> side # soft_run st1 es)"
| "soft_run st (Filled side qty # es) = soft_run (fmma_strategy_on_fill st side qty) es"
| "soft_run st (Switch on # es) = soft_run (st\<lparr>strat_enabled := on\<rparr>) es"

definition turn_fits :: "u32 \<Rightarrow> turn \<Rightarrow> bool" where
  "turn_fits thresh t \<longleftrightarrow>
     (case turn_event t of Market b a \<Rightarrow> 87 \<le> turn_wait t \<and> quote_fits thresh b a | Filled side qty \<Rightarrow> 40 \<le> turn_wait t
      | Switch on \<Rightarrow> True)"

text \<open>
  C1. The fabric implements the software strategy, over whole sessions. The host publishes quotes, reports fills and turns
  trading on and off in any order with its own code, its stores falling between any instructions of the CPU; the CPU executes the
  program image the host loads; the host polls once after each quote, at least 87 instructions after the last store, and
  leaves the CPU 40 after a fill. Starting from agreeing states and with prices and threshold inside the range of the
  fabric's signed compare, the polls read exactly the decisions of \<open>fmma_strategy_on_quote\<close> and
  \<open>fmma_strategy_on_fill\<close> on the same sequence: nothing where it decides nothing, otherwise its side, attributed to the quote just
  published, with none missed.
\<close>

theorem fabric_implements_strategy:
  assumes "synced d fb s" "agrees st fb (snd s)" "anchor_fits st" "\<forall>t \<in> set ts. turn_fits (strat_threshold st) t"
  shows "list_all2 (\<lambda>x. answers (fst x) (snd x)) (session (Some d) s ts) (soft_run st (map turn_event ts))"
  using assms
proof (induction ts arbitrary: d fb s st)
  case (Cons t ts)
  obtain c m where s: "s = (c, m)" by (rule prod.exhaust)
  have fit: "turn_fits (strat_threshold st) t" and rest: "\<forall>t \<in> set ts. turn_fits (strat_threshold st) t" using Cons.prems(4) by simp_all
  show ?case
  proof (cases "turn_event t")
    case (Market b a)
    obtain f acc seq where pub: "fmma_fpga_publish_tick (Some d) b a (fst (turn_sizes t)) (snd (turn_sizes t)) = (f, acc, seq)"
      by (metis prod_cases3)
    let ?s1 = "cpu_run (spread (turn_spread t) acc @ replicate (turn_wait t) []) (c, m)"
    let ?p = "fmma_fpga_poll_signal f (snd ?s1)" and ?r = "fmma_strategy_on_quote st b a"
    have q: "quote_fits (strat_threshold st) b a" and n: "87 \<le> turn_wait t" using fit Market by (simp_all add: turn_fits_def)
    note turn = quote_turn [OF Cons.prems(1,2) [unfolded s snd_conv] Cons.prems(3) q pub concat_spread n]
    obtain d2 fb2 where nxt: "fst ?p = Some d2" "synced d2 fb2 ?s1" "agrees (fst ?r) fb2 (snd ?s1)" using turn(2) by blast
    have "list_all2 (\<lambda>x. answers (fst x) (snd x)) (session (Some d2) ?s1 ts) (soft_run (fst ?r) (map turn_event ts))"
      by (rule Cons.IH [OF nxt(2,3) turn(3)]) (use rest in \<open>simp add: on_quote_frame\<close>)
    then show ?thesis using turn(1) nxt(1) by (simp add: Market s pub Let_def split_beta)
  next
    case (Filled side qty)
    obtain f acc where rep: "fmma_fpga_report_fill (Some d) side qty = (f, acc)" by (rule prod.exhaust)
    have n: "40 \<le> turn_wait t" using fit Filled by (simp add: turn_fits_def)
    obtain d2 fb2 where nxt: "f = Some d2" "synced d2 fb2 (cpu_run (spread (turn_spread t) acc @ replicate (turn_wait t) []) (c, m))"
        "agrees (fmma_strategy_on_fill st side qty) fb2 (snd (cpu_run (spread (turn_spread t) acc @ replicate (turn_wait t) []) (c, m)))"
      using fill_turn [OF Cons.prems(1,2) [unfolded s snd_conv] rep concat_spread n] by blast
    have "anchor_fits (fmma_strategy_on_fill st side qty)" using Cons.prems(3) by (simp add: anchor_fits_def fmma_strategy_on_fill_def)
    then show ?thesis using Cons.IH [OF nxt(2,3)] rest by (simp add: Filled s rep nxt(1) on_fill_frame)
  next
    case (Switch on)
    obtain fb2 where nxt: "synced d fb2 (cpu_run (spread (turn_spread t) (fmma_fpga_set_enabled (Some d) on) @ replicate (turn_wait t) []) (c, m))"
        "agrees (st\<lparr>strat_enabled := on\<rparr>) fb2
           (snd (cpu_run (spread (turn_spread t) (fmma_fpga_set_enabled (Some d) on) @ replicate (turn_wait t) []) (c, m)))"
      using switch_turn [OF Cons.prems(1,2) [unfolded s snd_conv] concat_spread] by blast
    have "anchor_fits (st\<lparr>strat_enabled := on\<rparr>)" using Cons.prems(3) by (simp add: anchor_fits_def)
    then show ?thesis using Cons.IH [OF nxt] rest by (simp add: Switch s)
  qed
qed simp

text \<open>
  C10. Publish last. However far the host has come with publishing a quote, and at whatever instruction the CPU is, a
  poll reads either no decision or the complete one: the side \<open>fmma_strategy_on_quote\<close> decides, with the number of
  this quote. It never reads a side without its tick, the decision of another quote, or one the strategy does not take.
\<close>

theorem poll_sees_whole_decision:
  assumes "synced d fb (c, m)" "agrees st fb m" "anchor_fits st" "quote_fits (strat_threshold st) b a"
    "fmma_fpga_publish_tick (Some d) b a bs as = (f, acc, seq)" "concat hs = take j acc"
  defines "sg \<equiv> snd (fmma_fpga_poll_signal f (snd (cpu_run hs (c, m))))"
  shows "sg = None \<or> answers seq sg (snd (fmma_strategy_on_quote st b a))"
proof (cases "j < length acc")
  case True
  have sy: "waiting fb c" "fpga_regs d" "fpga_signal_seq d = m 323" using assms(1) by (simp_all add: synced_def)
  note ps = publish_split [OF sy(2) assms(5)]
  have pre: "concat hs = take j (tick_head d b a bs as)" using assms(6) True unfolding ps(3) take_append by simp
  have q: "quiet fb (run_accesses (take k (concat hs)) m)" for k
    unfolding pre take_take by (rule tick_prefix_quiet [OF assms(1)])
  have sub: "store_addrs (concat hs) \<subseteq> {256..260}"
    by (rule order_trans [of _ "store_addrs (tick_head d b a bs as)"])
      (use pre in \<open>metis append_take_drop_id store_addrs_append Un_upper1\<close>, simp)
  obtain c' hb v where r: "cpu_run hs (c, m) = (c', (run_accesses (concat hs) m)(320 := v))"
    using quiet_run [OF q _ sy(1)] sub by fastforce
  have "run_accesses (concat hs) m 323 = m 323" using sub by (intro run_accesses_frame) auto
  then show ?thesis using sy by (simp add: sg_def r fmma_fpga_poll_signal_def fmma_fpga_present_def ps(2) Let_def)
next
  case False
  then have full: "concat hs = acc" using assms(6) by simp
  have sy: "fpga_regs d" "fpga_signal_seq d = m 323" using assms(1) by (simp_all add: synced_def)
  note ps = publish_split [OF sy(1) assms(5)]
  obtain c1 hb v i M where M: "M = m(256 := seq, 257 := b, 258 := a, 259 := bs, 260 := as, 320 := v)"
      and w: "waiting (fb\<lparr>fb_beat := hb\<rparr>) c1" "loaded M" "M 266 = 0" "M 267 = fb_fill (fb\<lparr>fb_beat := hb\<rparr>)" "even (M 256)"
        "M 256 \<noteq> fb_tick (fb\<lparr>fb_beat := hb\<rparr>)"
      and run: "\<And>n. cpu_run (hs @ replicate n []) (c, m) = cpu_alone (Suc i + n) (c1, M)"
    by (rule tick_block [OF assms(1,5) full]) (rule that)
  define g where "g = fab_tick_step (fb\<lparr>fb_beat := hb\<rparr>) M"
  define m1 where "m1 = snd (cpu_run hs (c, m))"
  have ag: "agrees st (fb\<lparr>fb_beat := hb\<rparr>) M" using assms(2) by (simp add: M agrees_def)
  have ba: "M 257 = b" "M 258 = a" "M 256 = seq" "M 323 = m 323" by (simp_all add: M)
  note t = agrees_tick [OF ag assms(4) [folded ba] assms(3) w(6,5), folded g_def, unfolded ba]
  obtain k where k: "\<And>i. i < k \<Longrightarrow> publishing M (fab_dec (fb\<lparr>fb_beat := hb\<rparr>) M) (snd (cpu_alone i (c1, M)))"
      "\<And>i. k \<le> i \<Longrightarrow> \<exists>c' v. cpu_alone i (c1, M) = (c', (snd g)(320 := v))"
    using tick_settles [OF w(2,1,3-5)] unfolding g_def by metis
  have "m1 = snd (cpu_alone (Suc i) (c1, M))" using run [of 0] by (simp add: m1_def)
  then have "m1 323 = m 323 \<or> m1 323 = m 323 + 1 \<and> snd g 323 \<noteq> m 323 \<and> m1 321 = snd g 321 \<and> m1 322 = snd g 322"
    using k(1) [of "Suc i"] k(2) [of "Suc i"] t(3) ba
    by (cases "Suc i < k") (auto simp: publishing_def fab_dec_def g_def [symmetric] Let_def split: if_splits)
  then show ?thesis using t(3,4) sy
    by (auto simp: sg_def m1_def [symmetric] fmma_fpga_poll_signal_def fmma_fpga_present_def ps(2) Let_def answers_def)
qed

section \<open>An instance\<close>

text \<open>A fabric idling at the head of its loop, enabled, with a threshold of 10 and a limit of 5 lots.\<close>

definition head_cpu :: cpu where
  "head_cpu = at 46 ((\<lambda>_. 0)(1 := 1, 2 := 256, 3 := 320, 15 := 46)) no_flags"

definition ready_ram :: ram where
  "ready_ram = image_ram(FMMA_CFG_THRESH := 10, FMMA_CFG_MAX_POS := 5, FMMA_CFG_ENABLE := 1)"

definition ready_fab :: fab where
  "ready_fab = \<lparr>fb_anchor = 0, fb_tick = 0, fb_beat = 0, fb_pos = 0, fb_fill = 0\<rparr>"

definition ready_fpga :: fmma_fpga where
  "ready_fpga = \<lparr>fpga_regs = True, fpga_map = True, fpga_fd = 3, fpga_tick_seq = 0, fpga_fill_seq = 0, fpga_signal_seq = 0,
     fpga_heartbeat = 0\<rparr>"

lemma ready:
  "synced ready_fpga ready_fab (head_cpu, ready_ram)" "agrees (fmma_strategy_init 10 5 0) ready_fab ready_ram"
  "anchor_fits (fmma_strategy_init 10 5 0)"
proof -
  have "loaded ready_ram" by (simp add: ready_ram_def)
  moreover have "ready_ram a = 0" if "256 \<le> a" "a \<notin> {261, 262, 263}" for a using that by (simp add: ready_ram_def image_ram_def)
  ultimately show "synced ready_fpga ready_fab (head_cpu, ready_ram)"
    by (simp add: synced_def waiting_def idle_scratch_def kept_def head_cpu_def ready_fab_def ready_fpga_def)
  show "agrees (fmma_strategy_init 10 5 0) ready_fab ready_ram"
    by (simp add: agrees_def fmma_strategy_init_def ready_fab_def ready_ram_def)
  show "anchor_fits (fmma_strategy_init 10 5 0)" by (simp add: anchor_fits_def fmma_strategy_init_def)
qed

theorem fabric_implements_strategy_witness:
  "list_all2 (\<lambda>x. answers (fst x) (snd x))
     (session (Some ready_fpga) (head_cpu, ready_ram)
        [\<lparr>turn_event = Market 1000 1002, turn_sizes = (1, 1), turn_spread = [2, 1, 0, 3], turn_wait = 90\<rparr>,
         \<lparr>turn_event = Filled FMMA_FILL_BOUGHT 2, turn_sizes = (0, 0), turn_spread = [], turn_wait = 100\<rparr>,
         \<lparr>turn_event = Market 1100 1102, turn_sizes = (1, 1), turn_spread = [], turn_wait = 87\<rparr>,
         \<lparr>turn_event = Switch False, turn_sizes = (0, 0), turn_spread = [1], turn_wait = 0\<rparr>,
         \<lparr>turn_event = Market 1000 1002, turn_sizes = (1, 1), turn_spread = [], turn_wait = 87\<rparr>])
     [FMMA_SIGNAL_NONE, FMMA_SIGNAL_SELL, FMMA_SIGNAL_NONE]" (is "list_all2 _ (session _ _ ?ts) _")
proof -
  have "\<forall>t \<in> set ?ts. turn_fits (strat_threshold (fmma_strategy_init 10 5 0)) t"
    by (simp add: turn_fits_def quote_fits_def fmma_strategy_init_def)
  from fabric_implements_strategy [OF ready(1) _ ready(3) this] ready(2) show ?thesis
    by (simp add: fmma_strategy_init_def fmma_strategy_on_quote_def fmma_strategy_on_fill_def strategy_want_def Let_def s64_def s32_def)
qed

theorem poll_sees_whole_decision_witness:
  "let (f, acc, seq) = fmma_fpga_publish_tick (Some ready_fpga) 1000 1002 1 1;
       sg = snd (fmma_fpga_poll_signal f (snd (cpu_run [take 3 acc, [], []] (head_cpu, ready_ram))))
   in sg = None"
proof -
  obtain f acc seq where p: "fmma_fpga_publish_tick (Some ready_fpga) 1000 1002 1 1 = (f, acc, seq)" by (metis prod_cases3)
  have q: "quote_fits (strat_threshold (fmma_strategy_init 10 5 0)) 1000 1002" by (simp add: quote_fits_def fmma_strategy_init_def)
  have "concat [take 3 acc, [], []] = take 3 acc" by simp
  from poll_sees_whole_decision [OF ready q p this] show ?thesis
    by (simp add: p answers_def fmma_strategy_init_def fmma_strategy_on_quote_def Let_def)
qed

end
