(* ===== verification/Fmma_Boot.thy ===== *)
theory Fmma_Boot
  imports Fmma_Golden
begin

text \<open>
  Start-up end to end: the stores of \<open>fmma_fpga_load\<close>, at any moments, against a CPU that is parked before an empty
  memory or already runs the image, and the state both sides then start trading from.
\<close>

section \<open>Serving a restart request\<close>

text \<open>The RAM a restart leaves, seen from the RAM in which it was requested: the host's words, the request cleared, the outputs reset.\<close>

definition restarted :: "ram \<Rightarrow> ram \<Rightarrow> bool" where
  "restarted m m' \<longleftrightarrow> (\<exists>M. own_change m M \<and> M FMMA_CFG_RESTART = 0 \<and> m' = started_ram M)"

lemma start_up_from:
  assumes "loaded m" "pc c = 8" "own_change m0 m" "m FMMA_CFG_RESTART = 0"
  shows "within 38 (\<lambda>_. True) (c, m) (\<lambda>c' m'. kept 46 0 0 0 (m0 FMMA_CFG_POSITION) (m0 FMMA_FILL_SEQ) c' \<and> restarted m0 m')"
proof -
  have "m 270 = m0 270" "m 267 = m0 267"
    using assms(3) [unfolded own_change_def, THEN spec, of 270] assms(3) [unfolded own_change_def, THEN spec, of 267] by simp_all
  then show ?thesis
    by (intro within_mono [OF start_up [OF assms(1,2)]]) (use assms(3,4) in \<open>auto simp: restarted_def\<close>)
qed

lemma kept_regs: "sane c \<Longrightarrow> pc c = 46 \<Longrightarrow> kept 46 (regs c 9) (regs c 11) (regs c 12) (regs c 13) (regs c 14) c"
  by (simp add: sane_def kept_def)

lemma from_head:
  assumes "loaded m" "sane c" "pc c = 46" "own_change m0 m" "m FMMA_CFG_RESTART \<noteq> 0"
  shows "within 48 (\<lambda>_. True) (c, m) (\<lambda>c' m'. kept 46 0 0 0 (m0 FMMA_CFG_POSITION) (m0 FMMA_FILL_SEQ) c' \<and> restarted m0 m')"
    (is "within _ ?I _ ?P")
proof -
  let ?m = "m(320 := regs c 12 + 1, 266 := 0)"
  have oc: "own_change m0 ?m" using assms(4) by (auto simp: own_change_def)
  have "within (10 + 38) ?I (c, m) ?P"
  proof (rule within_trans)
    show "within 10 ?I (c, m) (\<lambda>c' m'. pc c' = 8 \<and> m' = ?m)"
      by (rule within_mono [OF restart_request [OF assms(1) kept_regs [OF assms(2,3)] assms(5)]]) simp_all
    show "within 38 ?I (c1, m1) ?P" if "pc c1 = 8 \<and> m1 = ?m" for c1 m1
      using start_up_from [OF _ _ oc, of c1] that assms(1) by simp
  qed simp
  then show ?thesis by simp
qed

lemma started_change: "own_change m0 m \<Longrightarrow> own_change m0 (started_ram m)"
  by (auto simp: own_change_def started_ram_def)

lemma from_entry:
  assumes "loaded m" "sane c" "pc c = 8" "own_change m0 m"
  shows "within 86 (\<lambda>_. True) (c, m) (\<lambda>c' m'. kept 46 0 0 0 (m0 FMMA_CFG_POSITION) (m0 FMMA_FILL_SEQ) c' \<and> restarted m0 m')"
    (is "within _ ?I _ ?P")
proof (cases "m 266 = 0")
  case True
  have "within 38 ?I (c, m) ?P" by (rule start_up_from [OF assms(1,3,4) True])
  then show ?thesis by (rule within_mono) simp_all
next
  case False
  have "within (38 + 48) ?I (c, m) ?P"
  proof (rule within_trans)
    show "within 38 ?I (c, m) (\<lambda>c' m'. kept 46 0 0 0 (m 270) (m 267) c' \<and> m' = started_ram m)"
      by (rule within_mono [OF start_up [OF assms(1,3)]]) simp_all
    show "within 48 ?I (c1, m1) ?P" if "kept 46 0 0 0 (m 270) (m 267) c1 \<and> m1 = started_ram m" for c1 m1
      using from_head [of m1 c1 m0] that started_change [OF assms(4)] assms(1) False
      by (simp add: kept_def sane_def address_at_def) (simp add: started_ram_def)
  qed simp
  then show ?thesis by simp
qed

text \<open>A restart request is served from anywhere in the program.\<close>

lemma restart_served:
  assumes "sane c" "loaded m" "m FMMA_CFG_RESTART \<noteq> 0"
  shows "within 236 (\<lambda>_. True) (c, m) (\<lambda>c' m'. kept 46 0 0 0 (m FMMA_CFG_POSITION) (m FMMA_FILL_SEQ) c' \<and> restarted m m')"
    (is "within _ ?I _ ?P")
proof -
  have "8 \<le> unat (pc c)" using assms(1) by (simp add: sane_def word_le_nat_alt)
  then have le: "158 - unat (pc c) \<le> 150" by simp
  have "within (150 + 86) ?I (c, m) ?P"
  proof (rule within_trans [OF within_mono [OF head_reached [OF assms(1,2)] le]])
    fix c1 m1
    assume a: "sane c1 \<and> own_change m m1 \<and> (pc c1 = 8 \<or> pc c1 = 46 \<and> m1 FMMA_CFG_RESTART = m FMMA_CFG_RESTART \<and> pc c < 154)"
    then have l: "loaded m1" using own_change_loaded assms(2) by blast
    show "within 86 ?I (c1, m1) ?P"
    proof (cases "pc c1 = 8")
      case True
      then show ?thesis using from_entry [OF l] a by blast
    next
      case False
      then have "within 48 ?I (c1, m1) ?P" using from_head [OF l] a assms(3) by metis
      then show ?thesis by (rule within_mono) simp_all
    qed
  qed simp_all
  then show ?thesis by simp
qed

section \<open>The stores of a load\<close>

text \<open>A store that leaves the image as it is.\<close>

fun image_store :: "access \<Rightarrow> bool" where
  "image_store (Store a v) = (8 \<le> a \<and> a < 162 \<longrightarrow> v = fpga_program ! (a - 8))"
| "image_store Barrier = True"

lemma image_store_loaded: "list_all image_store xs \<Longrightarrow> loaded m \<Longrightarrow> loaded (run_accesses xs m)"
proof (induction xs arbitrary: m rule: store_addrs.induct)
  case (2 a v xs)
  then have "loaded (m(a := v))" by (auto simp: loaded_def FPGA_PROGRAM_LEN_def FPGA_PROGRAM_BASE_def)
  then show ?case using 2 by simp
qed simp_all

definition load_head :: "fmma_fpga_config \<Rightarrow> access list" where
  "load_head cfg = [Store FMMA_CFG_ENABLE 0, Store FMMA_CFG_RESTART 0, Store FMMA_CFG_THRESH (fc_threshold cfg),
     Store FMMA_CFG_MAX_POS (fc_max_position cfg), Store FMMA_CFG_POSITION (word_of_int (fc_start_position cfg)),
     Store FMMA_CFG_HALF_SPREAD (fc_half_spread cfg), Store FMMA_CFG_SKEW (fc_skew cfg), Barrier]"

lemma load_accesses:
  assumes "fpga_regs d" "\<forall>i < FPGA_PROGRAM_LEN. view (FPGA_PROGRAM_BASE + i) = fpga_program ! i"
  shows "fst (fmma_fpga_load (Some d) (Some cfg) view beat0 views) =
    (load_head cfg @ body_stores @ [Barrier]) @ Store FPGA_PROGRAM_BASE (fpga_program ! 0) # [Barrier, Store FMMA_FW_VERSION 0, Barrier] @ [Store FMMA_CFG_RESTART 1]"
  using assms
  by (simp add: fmma_fpga_load_def fmma_fpga_present_def write_program_eq wait_for_cpu_def wait_stores_def Let_def split_beta load_head_def
      fmma_fpga_push_config_def program_stores_split)

lemma load_image_stores: "list_all image_store (load_head cfg @ body_stores @ [Barrier])"
  by (auto simp: load_head_def body_stores_def list_all_iff FPGA_PROGRAM_BASE_def FPGA_PROGRAM_LEN_def)

lemma split_access:
  "concat hs = xs @ x # ys \<Longrightarrow> \<exists>hs1 h1 h2 hs2. hs = hs1 @ (h1 @ x # h2) # hs2 \<and> concat hs1 @ h1 = xs \<and> h2 @ concat hs2 = ys"
proof (induction hs arbitrary: xs)
  case (Cons h hs)
  show ?case
  proof (cases "length h \<le> length xs")
    case True
    then obtain xs' where xs: "xs = h @ xs'" "concat hs = xs' @ x # ys" using Cons.prems by (auto simp: append_eq_append_conv2)
    then obtain hs1 h1 h2 hs2 where "hs = hs1 @ (h1 @ x # h2) # hs2" "concat hs1 @ h1 = xs'" "h2 @ concat hs2 = ys" using Cons.IH by blast
    then show ?thesis using xs by (intro exI [of _ "h # hs1"]) auto
  next
    case False
    then obtain t where t: "h = xs @ t" "t @ concat hs = x # ys" using Cons.prems by (auto simp: append_eq_append_conv2)
    then obtain h2 where "t = x # h2" "h2 @ concat hs = ys" using False by (cases t) auto
    then show ?thesis using t(1) by (intro exI [of _ "[]"] exI [of _ xs] exI [of _ h2] exI [of _ hs]) simp
  qed
qed simp

text \<open>Before an empty entry word the CPU stays where it is.\<close>

lemma parked_run:
  "pc c = 8 \<Longrightarrow> m 8 = 0 \<Longrightarrow> 8 \<notin> store_addrs (concat hs) \<Longrightarrow> cpu_run hs (c, m) = (c, run_accesses (concat hs) m)"
proof (induction hs arbitrary: m)
  case (Cons h hs)
  have "run_accesses h m 8 = 0" using Cons.prems run_accesses_frame [of 8 h m] by simp
  then show ?case using Cons by (simp add: cpu_step_def decode_def)
qed simp

text \<open>The load from a parked CPU is a load onto an image already in place, from the store of the entry word on.\<close>

lemma cold_to_warm:
  assumes "concat hs = xs @ x # ys" "pc c = 8" "m 8 = 0" "8 \<notin> store_addrs xs"
  obtains hs' where "concat hs' = ys" "\<And>n. cpu_run (hs @ replicate n []) (c, m) = cpu_run (hs' @ replicate n []) (c, run_accesses (xs @ [x]) m)"
proof -
  obtain hs1 h1 h2 hs2 where h: "hs = hs1 @ (h1 @ x # h2) # hs2" "concat hs1 @ h1 = xs" "h2 @ concat hs2 = ys"
    using split_access [OF assms(1)] by blast
  have "8 \<notin> store_addrs (concat hs1)" using assms(4) h(2) by auto
  then have p: "cpu_run hs1 (c, m) = (c, run_accesses (concat hs1) m)" using parked_run assms(2,3) by blast
  have e: "run_accesses (h1 @ x # h2) (run_accesses (concat hs1) m) = run_accesses h2 (run_accesses (xs @ [x]) m)"
    unfolding h(2) [symmetric] by (metis append.assoc append_Cons append_Nil run_accesses_append)
  have "cpu_run (hs @ replicate n []) (c, m) = cpu_run ((h2 # hs2) @ replicate n []) (c, run_accesses (xs @ [x]) m)" for n
    unfolding h(1) cpu_run_append p by (simp only: append_Cons append_Nil cpu_run.simps prod.case cpu_run_append p e append_assoc)
  then show ?thesis using h(3) by (intro that [of "h2 # hs2"]) simp_all
qed

text \<open>A block of image-keeping stores that ends with a restart request.\<close>

lemma warm_load:
  assumes "concat hs = zs @ [Store FMMA_CFG_RESTART 1]" "list_all image_store zs" "sane c" "loaded m"
  obtains c1 m1 k where "sane c1" "loaded m1" "m1 FMMA_CFG_RESTART = 1" "shadow (run_accesses (concat hs) m) m1"
    "\<And>n. cpu_run (hs @ replicate n []) (c, m) = cpu_alone (Suc k + n) (c1, m1)"
proof -
  obtain hs1 h k where h: "hs = hs1 @ (h @ [Store 266 1]) # replicate k []" "concat hs1 @ h = zs" using last_access [OF assms(1)] by blast
  have "list_all image_store (take i (concat hs1))" for i
    using assms(2) h(2) by (metis append_take_drop_id list_all_append)
  then have l: "loaded (run_accesses (take i (concat hs1)) m)" for i using image_store_loaded assms(4) by blast
  obtain c1 m0 where s: "cpu_run hs1 (c, m) = (c1, m0)" by (rule prod.exhaust)
  have s1: "sane c1" "shadow (run_accesses (concat hs1) m) m0" using shadow_run [OF assms(3) l _ s] by (simp_all add: shadow_def)
  define m1 where "m1 = run_accesses (h @ [Store 266 1]) m0"
  have sh: "shadow (run_accesses (concat hs) m) m1"
    using shadow_access [OF s1(2), of "h @ [Store 266 1]"] assms(1) h(2) by (simp add: m1_def) (metis run_accesses_append)
  have "loaded (run_accesses (concat hs) m)" unfolding assms(1) using image_store_loaded [OF assms(2,4)] by simp
  then have "loaded m1" by (rule shadow_loaded [OF sh])
  moreover have "cpu_run (hs @ replicate n []) (c, m) = cpu_alone (Suc k + n) (c1, m1)" for n
    unfolding h(1) by (simp add: cpu_run_append s m1_def replicate_add)
  moreover have "m1 266 = 1" by (simp add: m1_def)
  ultimately show ?thesis using s1(1) sh that by blast
qed

section \<open>A load brings the fabric up\<close>

lemma store_addrs_map: "store_addrs (map (\<lambda>i. Store (f i) (g i)) is) = f ` set is"
  by (induction "is") simp_all

lemma image_complete: "loaded (run_accesses ((load_head cfg @ body_stores @ [Barrier]) @ [Store FPGA_PROGRAM_BASE (fpga_program ! 0)]) m)"
  unfolding loaded_def
proof (intro allI impI)
  fix i
  assume i: "i < FPGA_PROGRAM_LEN"
  show "run_accesses ((load_head cfg @ body_stores @ [Barrier]) @ [Store FPGA_PROGRAM_BASE (fpga_program ! 0)]) m (FPGA_PROGRAM_BASE + i) = fpga_program ! i"
    using body_done [OF _ i] by (cases "i = 0") simp_all
qed

text \<open>From any starting point, the state in which the restart request is pending.\<close>

lemma load_pending:
  assumes "fpga_regs d" "\<forall>i < FPGA_PROGRAM_LEN. view (FPGA_PROGRAM_BASE + i) = fpga_program ! i"
    "concat hs = fst (fmma_fpga_load (Some d) (Some cfg) view beat0 views)" "pc c = 8 \<and> m 8 = 0 \<or> sane c \<and> loaded m"
  obtains c1 m1 k where "sane c1" "loaded m1" "m1 FMMA_CFG_RESTART = 1" "shadow (run_accesses (concat hs) m) m1"
    "\<And>n. cpu_run (hs @ replicate n []) (c, m) = cpu_alone (Suc k + n) (c1, m1)"
proof -
  let ?xs = "load_head cfg @ body_stores @ [Barrier]" and ?x = "Store FPGA_PROGRAM_BASE (fpga_program ! 0)"
    and ?ys = "[Barrier, Store FMMA_FW_VERSION 0, Barrier]" and ?r = "[Store FMMA_CFG_RESTART 1]"
  have acc: "concat hs = ?xs @ ?x # ?ys @ ?r" using assms(3) load_accesses [OF assms(1,2)] by simp
  show ?thesis
  proof (cases "sane c \<and> loaded m")
    case True
    have e: "concat hs = (?xs @ ?x # ?ys) @ ?r" using acc by simp
    have i: "list_all image_store (?xs @ ?x # ?ys)" using load_image_stores [of cfg] by (simp add: FPGA_PROGRAM_BASE_def)
    show ?thesis by (rule warm_load [OF e i conjunct1 [OF True] conjunct2 [OF True]]) (rule that)
  next
    case False
    then have p: "pc c = 8" "m 8 = 0" using assms(4) by blast+
    have n8: "8 \<notin> store_addrs ?xs" by (simp add: load_head_def body_stores_def store_addrs_map FPGA_PROGRAM_BASE_def)
    obtain hs' where hs': "concat hs' = ?ys @ ?r" "\<And>n. cpu_run (hs @ replicate n []) (c, m) = cpu_run (hs' @ replicate n []) (c, run_accesses (?xs @ [?x]) m)"
      by (rule cold_to_warm [where m = m, OF acc p n8]) (rule that)
    have i: "list_all image_store ?ys" by simp
    have s: "sane c" using p by (simp add: sane_def address_at_def)
    have e: "run_accesses (concat hs') (run_accesses (?xs @ [?x]) m) = run_accesses (concat hs) m"
      unfolding hs'(1) acc by simp
    show ?thesis by (rule warm_load [OF hs'(1) i s image_complete [of cfg m], unfolded e, folded hs'(2)]) (rule that)
  qed
qed

text \<open>The registers after a start.\<close>

definition fresh_fab :: "u32 \<Rightarrow> u32 \<Rightarrow> fab" where
  "fresh_fab pos fill = \<lparr>fb_anchor = 0, fb_tick = 0, fb_beat = 0, fb_pos = pos, fb_fill = fill\<rparr>"

lemma restart_settles:
  assumes "sane c" "loaded m" "m FMMA_CFG_RESTART \<noteq> 0" "m FMMA_TICK_SEQ = 0" "236 \<le> n"
  obtains M c' hb v where "restarted m M" "cpu_alone n (c, m) = (c', M(FMMA_HEARTBEAT := v))"
    "waiting ((fresh_fab (m FMMA_CFG_POSITION) (m FMMA_FILL_SEQ))\<lparr>fb_beat := hb\<rparr>) c'" "loaded M"
proof -
  let ?fb = "fresh_fab (m 270) (m 267)"
  obtain k where k: "k \<le> 236" "\<forall>i < k. True" "case cpu_alone k (c, m) of (c', m') \<Rightarrow> kept 46 0 0 0 (m 270) (m 267) c' \<and> restarted m m'"
    using restart_served [OF assms(1-3), unfolded within_def] by (elim exE conjE)
  obtain c1 M where s: "cpu_alone k (c, m) = (c1, M)" by (rule prod.exhaust)
  have M: "kept 46 0 0 0 (m 270) (m 267) c1" "restarted m M" using k(3) s by simp_all
  obtain M0 where M0: "own_change m M0" "M0 266 = 0" "M = started_ram M0" using M(2) unfolding restarted_def by blast
  have w: "M0 a = m a" if "a < 320" "a \<noteq> 266" for a using M0(1) that unfolding own_change_def by (meson leD)
  have l: "loaded M" using own_change_loaded [OF started_change [OF M0(1)] assms(2)] M0(3) by simp
  have "fab_at (?fb\<lparr>fb_beat := 0\<rparr>) c1 \<and> M = M(320 := M 320)" using M(1) by (simp add: fab_at_def fresh_fab_def)
  then have "within 0 (\<lambda>_. True) (c1, M) (\<lambda>c' m'. \<exists>hb v. fab_at (?fb\<lparr>fb_beat := hb\<rparr>) c' \<and> m' = M(320 := v))" by (intro within_here) blast
  moreover have "quiet ?fb M" using l w assms(4) M0 by (simp add: quiet_def fresh_fab_def started_ram_def)
  ultimately obtain j where j: "j \<le> 0" "\<And>i. i < j \<Longrightarrow> True" "\<And>i. j \<le> i \<Longrightarrow> \<exists>c' hb v. cpu_alone i (c1, M) = (c', M(320 := v)) \<and> waiting (?fb\<lparr>fb_beat := hb\<rparr>) c'"
    by (rule settle) (rule that)
  have "cpu_alone n (c, m) = cpu_alone (n - k) (c1, M)" using cpu_alone_add [of k "n - k" "(c, m)"] s k(1) assms(5) by simp
  then show ?thesis using j(3) [of "n - k"] j(1) M(2) l that by auto
qed



section \<open>Where fabric and transcription differ\<close>

text \<open>
  After a restart the quote still in the RAM counts as new: the program anchors on it, not on the next quote the host
  publishes.
\<close>

lemma restart_anchors_on_old_quote:
  assumes "m FMMA_TICK_SEQ \<noteq> 0" "even (m FMMA_TICK_SEQ)" "m FMMA_BID \<noteq> 0" "m FMMA_ASK \<noteq> 0"
  shows "fb_anchor (fst (fab_tick_step (fresh_fab pos fill) m)) = m FMMA_BID + m FMMA_ASK"
  using assms by (simp add: fab_tick_step_def fresh_fab_def Let_def)

text \<open>
  Outside the range of the fabric's signed compare the two part: with a threshold of \<open>2 ^ 30\<close> twice the threshold is the sign
  bit, and the fabric sells on a quote on which the C code decides nothing.
\<close>

lemma large_threshold_diverges:
  "snd (fab_tick_step (ready_fab\<lparr>fb_anchor := 2000\<rparr>)
      (ready_ram(FMMA_CFG_THRESH := 1073741824, FMMA_TICK_SEQ := 2, FMMA_BID := 1001, FMMA_ASK := 1001))) FMMA_SIGNAL = FMMA_SIGNAL_SELL \<and>
   snd (fmma_strategy_on_quote ((fmma_strategy_init 1073741824 5 0)\<lparr>strat_anchor := 2000\<rparr>) 1001 1001) = FMMA_SIGNAL_NONE"
  by (simp add: fab_tick_step_def fab_decision_def fab_emit_def ready_ram_def ready_fab_def Let_def fmma_strategy_on_quote_def
      fmma_strategy_init_def strategy_want_def s64_def)

end
