(* ===== verification/Fmma_Probe.thy ===== *)
theory Fmma_Probe
  imports Fmma_Bus Fmma_Platform
begin

text \<open>
  The link diagnostic, \<open>Software/src/fmma_probe.c\<close>, on a device that is a parameter: summary, watch,
  RAM test, dump, read and write, and the command line. Standard output and standard error are the
  two texts of the host state.
\<close>

section \<open>The code\<close>

text \<open>\<open>map_bridge\<close>: whether the window is mapped, and what goes to standard error. The texts of
  \<open>strerror\<close> are arguments.\<close>

definition map_bridge :: "(string \<Rightarrow> string option) \<Rightarrow> bool \<Rightarrow> int \<Rightarrow> bool \<Rightarrow> string \<Rightarrow> string \<Rightarrow> int \<times> string" where
  "map_bridge files force fd mmap_ok open_error mmap_error =
     (if fmma_fabric_check files force \<noteq> 0 then (- 1, [])
      else if fd = - 1 then (- 1, ''open /dev/mem: '' @ open_error @ '' (run as root)'' @ nl)
      else if \<not> mmap_ok then (- 1, ''mmap 0xFF200000: '' @ mmap_error @ nl)
      else (0, []))"

definition status_text :: "u32 \<Rightarrow> nat \<Rightarrow> string" where
  "status_text s n = snprintf_store n
     (''0x'' @ fmt_hex s @
      (if s AND FMMA_STATUS_RUNNING \<noteq> 0 then '' running'' else []) @
      (if s AND FMMA_STATUS_RISK_BLOCKED \<noteq> 0 then '' risk-blocked'' else []) @
      (if s AND FMMA_STATUS_DISABLED \<noteq> 0 then '' disabled'' else []))"

definition pad10 :: "u32 \<Rightarrow> string" where
  "pad10 v = pad_left 10 (fmt_word v)"

definition cmd_summary :: "'d bus \<Rightarrow> ('d, int) prog" where
  "cmd_summary io = do {
     version \<leftarrow> rd io FMMA_FW_VERSION;
     printf (''shared RAM at 0xFF200000, '' @ fmt_word (1024 :: u32) @ '' words'' @ nl @ nl);
     printf (''  FW_VERSION   '' @ pad10 version @ ''   '' @
       (if version = FMMA_PROTOCOL_VERSION then ''(matches this build)''
        else if version = 0 then ''(CPU has not started, or its datapath probe failed)''
        else ''(MISMATCH - rebuild the bitstream and the program)'') @ nl);
     hb \<leftarrow> rd io FMMA_HEARTBEAT;
     printf (''  HEARTBEAT    '' @ pad10 hb @ nl);
     st \<leftarrow> rd io FMMA_STATUS;
     printf (''  STATUS       '' @ pad_left 10 (status_text st 64) @ nl);
     po \<leftarrow> rd io FMMA_POSITION;
     printf (''  POSITION     '' @ pad_left 10 (fmt_int (sint po)) @ '' lots'' @ nl);
     rj \<leftarrow> rd io FMMA_REJECTS;
     printf (''  REJECTS      '' @ pad10 rj @ nl);
     sg \<leftarrow> rd io FMMA_SIGNAL; sq \<leftarrow> rd io FMMA_SIGNAL_SEQ; sk \<leftarrow> rd io FMMA_SIGNAL_TICK;
     printf (''  SIGNAL       '' @ pad10 sg @ ''   SIGNAL_SEQ '' @ fmt_word sq @ '', from tick '' @ fmt_word sk @ nl);
     qb \<leftarrow> rd io FMMA_QUOTE_BID; qa \<leftarrow> rd io FMMA_QUOTE_ASK;
     printf (''  QUOTE_BID    '' @ pad10 qb @ ''   QUOTE_ASK '' @ fmt_word qa @ nl);
     printf nl;
     tq \<leftarrow> rd io FMMA_TICK_SEQ; tq2 \<leftarrow> rd io FMMA_TICK_SEQ;
     printf (''  TICK_SEQ     '' @ pad10 tq @ ''   '' @
       (if tq2 AND 1 \<noteq> 0 then ''(odd: a write is in progress)'' else ''(even: stable)'') @ nl);
     b \<leftarrow> rd io FMMA_BID; a \<leftarrow> rd io FMMA_ASK;
     printf (''  BID          '' @ pad10 b @ ''   ASK '' @ fmt_word a @ nl);
     th \<leftarrow> rd io FMMA_CFG_THRESH; mp \<leftarrow> rd io FMMA_CFG_MAX_POS; en \<leftarrow> rd io FMMA_CFG_ENABLE;
     printf (''  CFG_THRESH   '' @ pad10 th @ ''   CFG_MAX_POS '' @ fmt_word mp @ ''   CFG_ENABLE '' @ fmt_word en @ nl);
     State_Monad.return 0 }"

text \<open>The watch loop runs until the interrupt flag is seen: so many turns.\<close>

definition watch_turn :: "'d bus \<Rightarrow> u32 \<Rightarrow> u32 \<Rightarrow> ('d, u32 \<times> u32) prog" where
  "watch_turn io beat sg = do {
     usleep io 1000000;
     b \<leftarrow> rd io FMMA_HEARTBEAT;
     po \<leftarrow> rd io FMMA_POSITION; rj \<leftarrow> rd io FMMA_REJECTS; st \<leftarrow> rd io FMMA_STATUS;
     printf (pad_left 12 (fmt_word b) @ '' '' @ pad_left 12 (fmt_word (b - beat)) @ '' '' @
       pad_left 10 (fmt_int (sint po)) @ '' '' @ pad_left 8 (fmt_word rj) @ ''  '' @ status_text st 64 @ nl);
     s \<leftarrow> rd io FMMA_SIGNAL_SEQ;
     if s \<noteq> sg then do {
       v \<leftarrow> rd io FMMA_SIGNAL;
       side \<leftarrow> (if v = FMMA_SIGNAL_BUY then State_Monad.return ''BUY''
               else do { v2 \<leftarrow> rd io FMMA_SIGNAL;
                         State_Monad.return (if v2 = FMMA_SIGNAL_SELL then ''SELL'' else ''?'') });
       tk \<leftarrow> rd io FMMA_SIGNAL_TICK;
       printf (''   >>> SIGNAL '' @ side @ '' (seq '' @ fmt_word s @ '', from tick '' @ fmt_word tk @ '')'' @ nl);
       State_Monad.return (b, s) }
     else State_Monad.return (b, sg) }"

fun watch_loop :: "'d bus \<Rightarrow> nat \<Rightarrow> u32 \<Rightarrow> u32 \<Rightarrow> ('d, unit) prog" where
  "watch_loop io 0 beat sg = State_Monad.return ()"
| "watch_loop io (Suc n) beat sg = do { r \<leftarrow> watch_turn io beat sg; watch_loop io n (fst r) (snd r) }"

definition cmd_watch :: "'d bus \<Rightarrow> nat \<Rightarrow> ('d, int) prog" where
  "cmd_watch io turns = do {
     beat \<leftarrow> rd io FMMA_HEARTBEAT;
     sg \<leftarrow> rd io FMMA_SIGNAL_SEQ;
     printf (''watching (Ctrl-C to stop)'' @ nl);
     printf (pad_left 12 ''heartbeat'' @ '' '' @ pad_left 12 ''loops/s'' @ '' '' @ pad_left 10 ''position'' @ '' '' @
       pad_left 8 ''rejects'' @ ''  '' @ ''status'' @ nl);
     watch_loop io turns beat sg;
     printf nl;
     State_Monad.return 0 }"

text \<open>The loops of the RAM test over \<open>[i, i + 1, \<dots>]\<close> with the base added.\<close>

abbreviation RAMTEST_BASE :: nat where "RAMTEST_BASE \<equiv> 512"
abbreviation RAMTEST_COUNT :: nat where "RAMTEST_COUNT \<equiv> 256"

fun save_words :: "'d bus \<Rightarrow> nat list \<Rightarrow> ('d, u32 list) prog" where
  "save_words io [] = State_Monad.return []"
| "save_words io (i # is) = do { v \<leftarrow> rd io (RAMTEST_BASE + i); vs \<leftarrow> save_words io is; State_Monad.return (v # vs) }"

definition unique_value :: "nat \<Rightarrow> u32" where
  "unique_value i = 0xA5A50000 + of_nat i"

fun write_words :: "'d bus \<Rightarrow> (nat \<times> u32) list \<Rightarrow> ('d, unit) prog" where
  "write_words io [] = State_Monad.return ()"
| "write_words io ((i, v) # ws) = do { wr io (RAMTEST_BASE + i) v; write_words io ws }"

fun check_unique :: "'d bus \<Rightarrow> nat list \<Rightarrow> u32 \<Rightarrow> ('d, u32) prog" where
  "check_unique io [] errs = State_Monad.return errs"
| "check_unique io (i # is) errs = do {
     got \<leftarrow> rd io (RAMTEST_BASE + i);
     if got \<noteq> unique_value i then do {
       (if errs < 8 then printf (''  word '' @ dec_digits (RAMTEST_BASE + i) @ '': wrote 0x'' @ fmt_hex8 (unique_value i) @
          '' read 0x'' @ fmt_hex8 got @ nl) else State_Monad.return ());
       check_unique io is (errs + 1) }
     else check_unique io is errs }"

fun walk_ones :: "'d bus \<Rightarrow> nat list \<Rightarrow> u32 \<Rightarrow> ('d, u32) prog" where
  "walk_ones io [] errs = State_Monad.return errs"
| "walk_ones io (bt # bs) errs = do {
     wr io RAMTEST_BASE (push_bit bt 1);
     got \<leftarrow> rd io RAMTEST_BASE;
     if got \<noteq> push_bit bt 1 then do {
       printf (''  data bit '' @ dec_digits bt @ '' stuck: wrote 0x'' @ fmt_hex8 (push_bit bt 1) @ '' read 0x'' @ fmt_hex8 got @ nl);
       walk_ones io bs (errs + 1) }
     else walk_ones io bs errs }"

definition cmd_ramtest :: "'d bus \<Rightarrow> ('d, int) prog" where
  "cmd_ramtest io = do {
     printf (''RAM test on words '' @ dec_digits RAMTEST_BASE @ ''..'' @ dec_digits (RAMTEST_BASE + RAMTEST_COUNT - 1) @
       '' (the free region)'' @ nl);
     saved \<leftarrow> save_words io [0..<RAMTEST_COUNT];
     write_words io (map (\<lambda>i. (i, unique_value i)) [0..<RAMTEST_COUNT]);
     errs1 \<leftarrow> check_unique io [0..<RAMTEST_COUNT] 0;
     errs \<leftarrow> walk_ones io [0..<32] errs1;
     write_words io (zip [0..<RAMTEST_COUNT] saved);
     if errs = 0 then do {
       printf (''  PASS - '' @ dec_digits RAMTEST_COUNT @ '' words, 32 data bits, no errors'' @ nl @
         ''  the window behaves as read/write RAM, so the FPGA is'' @ nl @
         ''  configured with a design that puts the shared memory here'' @ nl);
       State_Monad.return 0 }
     else do {
       printf (''  FAIL - '' @ fmt_word errs @ '' errors'' @ nl @
         ''  the FPGA is probably not configured, or is configured with a'' @ nl @
         ''  different design (the stock reference design puts PIO'' @ nl @
         ''  registers at this address, which fail exactly like this)'' @ nl);
       State_Monad.return 1 } }"

fun dump_row :: "'d bus \<Rightarrow> nat list \<Rightarrow> ('d, unit) prog" where
  "dump_row io [] = State_Monad.return ()"
| "dump_row io (w # ws) = do { v \<leftarrow> rd io w; printf (''  '' @ fmt_hex8 v); dump_row io ws }"

fun dump_rows :: "'d bus \<Rightarrow> nat \<Rightarrow> nat list \<Rightarrow> ('d, unit) prog" where
  "dump_rows io n [] = State_Monad.return ()"
| "dump_rows io n (i # is) = do {
     printf (''  '' @ pad_left 4 (dec_digits i) @ '':'');
     dump_row io (filter (\<lambda>w. w < n) [i..<i + 4]);
     printf nl;
     dump_rows io n is }"

text \<open>The row starts \<open>0, 4, 8, \<dots>\<close> below \<open>n\<close>.\<close>

definition cmd_dump :: "'d bus \<Rightarrow> string list \<Rightarrow> ('d, int) prog" where
  "cmd_dump io argv = (let n0 = (if length argv > 2 then unat (strtoul (argv ! 2)) else 32);
       n = (if n0 > FMMA_MEM_WORDS then FMMA_MEM_WORDS else n0)
     in do { dump_rows io n (map (\<lambda>k. 4 * k) [0..<(n + 3) div 4]); State_Monad.return 0 })"

definition cmd_read :: "'d bus \<Rightarrow> string list \<Rightarrow> ('d, int) prog" where
  "cmd_read io argv =
     (if length argv < 3 then do { eprintf (''read <word>'' @ nl); State_Monad.return 2 }
      else let w = unat (strtoul (argv ! 2))
        in if w \<ge> FMMA_MEM_WORDS then do { eprintf (''word out of range'' @ nl); State_Monad.return 2 }
           else do { v \<leftarrow> rd io w; printf (fmt_word v @ nl); State_Monad.return 0 })"

definition cmd_write :: "'d bus \<Rightarrow> string list \<Rightarrow> ('d, int) prog" where
  "cmd_write io argv =
     (if length argv < 4 then do { eprintf (''write <word> <value>'' @ nl); State_Monad.return 2 }
      else let w = unat (strtoul (argv ! 2)); v = strtoul (argv ! 3)
        in if w \<ge> FMMA_MEM_WORDS then do { eprintf (''word out of range'' @ nl); State_Monad.return 2 }
           else do {
             (if w \<ge> FMMA_OUTPUT_BASE \<and> w < FMMA_OUTPUT_BASE + 64
              then eprintf (''warning: word '' @ dec_digits w @ '' belongs to the FPGA; the protocol says the host never writes here'' @ nl)
              else State_Monad.return ());
             wr io w v;
             State_Monad.return 0 })"

definition probe_usage :: string where
  "probe_usage = ''fmma-probe - HPS/FPGA link diagnostic (protocol v'' @ fmt_word FMMA_PROTOCOL_VERSION @ '')'' @ nl @ nl @
     ''  fmma-probe                 summarise the protocol block'' @ nl @
     ''  fmma-probe watch           follow the heartbeat and signals'' @ nl @
     ''  fmma-probe ramtest         prove the window is our shared RAM'' @ nl @
     ''  fmma-probe dump [n]        hex dump the first n words'' @ nl @
     ''  fmma-probe read  <word>'' @ nl @
     ''  fmma-probe write <word> <value>'' @ nl @ nl @
     ''  --force   map the bridge even if the FPGA manager says the'' @ nl @
     ''            fabric is not configured (this can hang the board)'' @ nl"

text \<open>The first loop of \<open>main\<close>: \<open>--force\<close> is taken out of the argument list wherever it stands.\<close>

fun strip_force :: "string list \<Rightarrow> string list \<times> bool" where
  "strip_force [] = ([], False)"
| "strip_force (a # as) =
     (case strip_force as of (rest, f) \<Rightarrow> if a = ''--force'' then (rest, True) else (a # rest, f))"

text \<open>\<open>turns\<close> is how often the watch loop goes round before the interrupt.\<close>

definition probe_command :: "'d bus \<Rightarrow> nat \<Rightarrow> string list \<Rightarrow> ('d, int) prog" where
  "probe_command io turns argv =
     (if length argv < 2 then cmd_summary io
      else if argv ! 1 = ''watch'' then cmd_watch io turns
      else if argv ! 1 = ''ramtest'' then cmd_ramtest io
      else if argv ! 1 = ''dump'' then cmd_dump io argv
      else if argv ! 1 = ''read'' then cmd_read io argv
      else if argv ! 1 = ''write'' then cmd_write io argv
      else do { printf probe_usage; State_Monad.return 2 })"

definition probe_main ::
    "'d bus \<Rightarrow> (string \<Rightarrow> string option) \<Rightarrow> int \<Rightarrow> bool \<Rightarrow> string \<Rightarrow> string \<Rightarrow> nat \<Rightarrow> string list \<Rightarrow> ('d, int) prog" where
  "probe_main io files fd mmap_ok open_error mmap_error turns argv0 =
     (case strip_force (tl argv0) of (rest, force) \<Rightarrow>
        let argv = hd argv0 # rest
        in if rest \<noteq> [] \<and> (hd rest = ''-h'' \<or> hd rest = ''--help'') then do { printf probe_usage; State_Monad.return 0 }
           else case map_bridge files force fd mmap_ok open_error mmap_error of (rc, err) \<Rightarrow>
             do { eprintf err; if rc \<noteq> 0 then State_Monad.return 1 else probe_command io turns argv })"

section \<open>The RAM test on a memory\<close>

lemma run_printf [simp]: "run_state (printf s) h = ((), h\<lparr>h_out := h_out h @ s\<rparr>)"
  by (simp add: printf_def)

lemma run_eprintf [simp]: "run_state (eprintf s) h = ((), h\<lparr>h_err := h_err h @ s\<rparr>)"
  by (simp add: eprintf_def)

definition test_words :: "nat set" where
  "test_words = {RAMTEST_BASE..<RAMTEST_BASE + RAMTEST_COUNT}"

lemma test_wordsI: "i < RAMTEST_COUNT \<Longrightarrow> RAMTEST_BASE + i \<in> test_words"
  by (simp add: test_words_def)

context memory_region
begin

lemma save_run:
  assumes "\<And>i. i \<in> set is \<Longrightarrow> RAMTEST_BASE + i \<in> region"
  shows "\<exists>h'. run_state (save_words io is) h = (map (\<lambda>i. cell (h_dev h) (RAMTEST_BASE + i)) is, h') \<and>
    (\<forall>w\<in>region. cell (h_dev h') w = cell (h_dev h) w)"
  using assms
proof (induction "is" arbitrary: h)
  case (Cons i "is")
  let ?h = "h\<lparr>h_dev := snd (bus_read io (RAMTEST_BASE + i) (h_dev h))\<rparr>"
  have i: "RAMTEST_BASE + i \<in> region" using Cons.prems by simp
  obtain h' where h': "run_state (save_words io is) ?h = (map (\<lambda>i. cell (h_dev ?h) (RAMTEST_BASE + i)) is, h')"
      "\<forall>w\<in>region. cell (h_dev h') w = cell (h_dev ?h) w"
    using Cons.IH [of ?h] Cons.prems by fastforce
  have "map (\<lambda>i. cell (h_dev ?h) (RAMTEST_BASE + i)) is = map (\<lambda>i. cell (h_dev h) (RAMTEST_BASE + i)) is"
    using Cons.prems read_keeps [OF i] by simp
  then show ?case using h' read_keeps [OF i] by (simp add: rd_run [OF i])
qed simp

lemma write_run:
  assumes "\<And>i. i \<in> fst ` set ws \<Longrightarrow> RAMTEST_BASE + i \<in> region" "distinct (map fst ws)"
  shows "\<exists>h'. run_state (write_words io ws) h = ((), h') \<and>
    (\<forall>(i, v)\<in>set ws. cell (h_dev h') (RAMTEST_BASE + i) = v) \<and>
    (\<forall>w\<in>region. w \<notin> (\<lambda>(i, v). RAMTEST_BASE + i) ` set ws \<longrightarrow> cell (h_dev h') w = cell (h_dev h) w)"
  using assms
proof (induction ws arbitrary: h)
  case (Cons x ws)
  obtain i v where x: "x = (i, v)" by fastforce
  let ?h = "h\<lparr>h_dev := bus_write io (RAMTEST_BASE + i) v (h_dev h)\<rparr>"
  have i: "RAMTEST_BASE + i \<in> region" using Cons.prems(1) x by simp
  obtain h' where h': "run_state (write_words io ws) ?h = ((), h')"
      "\<forall>(i, v)\<in>set ws. cell (h_dev h') (RAMTEST_BASE + i) = v"
      "\<forall>w\<in>region. w \<notin> (\<lambda>(i, v). RAMTEST_BASE + i) ` set ws \<longrightarrow> cell (h_dev h') w = cell (h_dev ?h) w"
    using Cons.IH [of ?h] Cons.prems by (force simp: x)
  have "RAMTEST_BASE + i \<notin> (\<lambda>(i, v). RAMTEST_BASE + i) ` set ws" using Cons.prems(2) by (force simp: x)
  then have "cell (h_dev h') (RAMTEST_BASE + i) = v" using h'(3) i write_stores [OF i i] by simp
  then show ?case using h' write_stores [OF i] by (simp add: x wr_run)
qed simp

lemma check_run:
  assumes "\<And>i. i \<in> set is \<Longrightarrow> RAMTEST_BASE + i \<in> region \<and> cell (h_dev h) (RAMTEST_BASE + i) = unique_value i"
  shows "\<exists>h'. run_state (check_unique io is errs) h = (errs, h') \<and> (\<forall>w\<in>region. cell (h_dev h') w = cell (h_dev h) w)"
  using assms
proof (induction "is" arbitrary: h)
  case (Cons i "is")
  let ?h = "h\<lparr>h_dev := snd (bus_read io (RAMTEST_BASE + i) (h_dev h))\<rparr>"
  have i: "RAMTEST_BASE + i \<in> region" "cell (h_dev h) (RAMTEST_BASE + i) = unique_value i" using Cons.prems by simp_all
  have "\<exists>h'. run_state (check_unique io is errs) ?h = (errs, h') \<and> (\<forall>w\<in>region. cell (h_dev h') w = cell (h_dev ?h) w)"
    using Cons.prems read_keeps [OF i(1)] by (intro Cons.IH) simp
  then show ?case using read_keeps [OF i(1)] i(2) by (simp add: rd_run [OF i(1)])
qed simp

lemma walk_run:
  assumes "RAMTEST_BASE \<in> region"
  shows "\<exists>h'. run_state (walk_ones io bs errs) h = (errs, h') \<and>
    (\<forall>w\<in>region. w \<noteq> RAMTEST_BASE \<longrightarrow> cell (h_dev h') w = cell (h_dev h) w)"
proof (induction bs arbitrary: h)
  case (Cons bt bs)
  let ?h1 = "h\<lparr>h_dev := bus_write io RAMTEST_BASE (push_bit bt 1) (h_dev h)\<rparr>"
  let ?h2 = "?h1\<lparr>h_dev := snd (bus_read io RAMTEST_BASE (h_dev ?h1))\<rparr>"
  obtain h' where "run_state (walk_ones io bs errs) ?h2 = (errs, h')"
      "\<forall>w\<in>region. w \<noteq> RAMTEST_BASE \<longrightarrow> cell (h_dev h') w = cell (h_dev ?h2) w"
    using Cons.IH [of ?h2] by blast
  then show ?case using write_stores [OF assms] read_keeps [OF assms] assms
    by (simp add: wr_run rd_run [OF assms])
qed simp

lemma ramtest_run:
  assumes "test_words \<subseteq> region"
  shows "\<exists>h'. run_state (cmd_ramtest io) h = (0, h') \<and>
    (\<forall>w\<in>region. cell (h_dev h') w = cell (h_dev h) w)"
proof -
  let ?I = "[0..<RAMTEST_COUNT]"
  have r: "RAMTEST_BASE + i \<in> region" if "i \<in> set ?I" for i using that assms by (auto intro: test_wordsI)
  have b: "RAMTEST_BASE \<in> region" using r [of 0] by simp
  define h0 where "h0 = h\<lparr>h_out := h_out h @ (''RAM test on words '' @ dec_digits RAMTEST_BASE @ ''..'' @
    dec_digits (RAMTEST_BASE + RAMTEST_COUNT - 1) @ '' (the free region)'' @ nl)\<rparr>"
  obtain h1 where 1: "run_state (save_words io ?I) h0 = (map (\<lambda>i. cell (h_dev h) (RAMTEST_BASE + i)) ?I, h1)"
      "\<forall>w\<in>region. cell (h_dev h1) w = cell (h_dev h) w"
    using save_run [of ?I h0] r by (auto simp: h0_def)
  define saved where "saved = map (\<lambda>i. cell (h_dev h) (RAMTEST_BASE + i)) ?I"
  let ?U = "map (\<lambda>i. (i, unique_value i)) ?I"
  have U: "RAMTEST_BASE + i \<in> region" if "i \<in> fst ` set ?U" for i using that r by auto
  have dU: "distinct (map fst ?U)" by (simp add: comp_def)
  obtain h2 where 2: "run_state (write_words io ?U) h1 = ((), h2)"
      "\<forall>(i, v)\<in>set ?U. cell (h_dev h2) (RAMTEST_BASE + i) = v"
      "\<forall>w\<in>region. w \<notin> (\<lambda>(i, v). RAMTEST_BASE + i) ` set ?U \<longrightarrow> cell (h_dev h2) w = cell (h_dev h1) w"
    using write_run [OF U dU, of h1] by blast
  obtain h3 where 3: "run_state (check_unique io ?I 0) h2 = (0, h3)" "\<forall>w\<in>region. cell (h_dev h3) w = cell (h_dev h2) w"
    using check_run [of ?I h2 0] r 2(2) by auto
  obtain h4 where 4: "run_state (walk_ones io [0..<32] 0) h3 = (0, h4)"
      "\<forall>w\<in>region. w \<noteq> RAMTEST_BASE \<longrightarrow> cell (h_dev h4) w = cell (h_dev h3) w"
    using walk_run [OF b, of "[0..<32]" 0 h3] by blast
  let ?S = "zip ?I saved"
  have len: "length saved = RAMTEST_COUNT" by (simp add: saved_def)
  have sub: "i \<in> set ?I" if "(i, v) \<in> set ?S" for i v using that by (rule set_zip_leftD)
  have inS: "RAMTEST_BASE + i \<in> region" if "i \<in> fst ` set ?S" for i using that r sub by fastforce
  have dS: "distinct (map fst ?S)" by (simp add: len)
  obtain h5 where 5: "run_state (write_words io ?S) h4 = ((), h5)"
      "\<forall>(i, v)\<in>set ?S. cell (h_dev h5) (RAMTEST_BASE + i) = v"
      "\<forall>w\<in>region. w \<notin> (\<lambda>(i, v). RAMTEST_BASE + i) ` set ?S \<longrightarrow> cell (h_dev h5) w = cell (h_dev h4) w"
    using write_run [OF inS dS, of h4] by blast
  have restored: "cell (h_dev h5) w = cell (h_dev h) w" if w: "w \<in> region" for w
  proof (cases "\<exists>i<RAMTEST_COUNT. w = RAMTEST_BASE + i")
    case True
    then obtain i where i: "i < RAMTEST_COUNT" "w = RAMTEST_BASE + i" by blast
    then have "(i, cell (h_dev h) (RAMTEST_BASE + i)) \<in> set ?S"
      by (auto simp: set_zip saved_def intro!: exI [of _ i])
    then show ?thesis using 5(2) i(2) by fastforce
  next
    case False
    then have "w \<notin> (\<lambda>(i, v). RAMTEST_BASE + i) ` set ?S" "w \<notin> (\<lambda>(i, v). RAMTEST_BASE + i) ` set ?U" "w \<noteq> RAMTEST_BASE"
      using sub by (auto, fastforce)
    then show ?thesis using w 1(2) 2(3) 3(2) 4(2) 5(3) by auto
  qed
  let ?h6 = "h5\<lparr>h_out := h_out h5 @ (''  PASS - '' @ dec_digits RAMTEST_COUNT @ '' words, 32 data bits, no errors'' @ nl @
         ''  the window behaves as read/write RAM, so the FPGA is'' @ nl @
         ''  configured with a design that puts the shared memory here'' @ nl)\<rparr>"
  have "run_state (cmd_ramtest io) h = (0, ?h6)"
    unfolding cmd_ramtest_def
    by (simp only: run_state_bind run_printf h0_def [symmetric] 1(1) 2(1) 3(1) 4(1) 5(1) [unfolded saved_def]
        prod.case refl if_True run_state_return)
  moreover have "\<forall>w\<in>region. cell (h_dev ?h6) w = cell (h_dev h) w" using restored by simp
  ultimately show ?thesis by blast
qed

end

section \<open>Address lines that are not ours\<close>

text \<open>
  A memory behind an address decoder: word \<open>w\<close> of the window is cell \<open>g w\<close>. When \<open>g\<close> is not injective on
  the tested words, two of them are the same cell.
\<close>

definition alias_bus :: "(nat \<Rightarrow> nat) \<Rightarrow> ram bus" where
  "alias_bus g = \<lparr>bus_read = (\<lambda>w m. (m (g w), m)), bus_write = (\<lambda>w v m. m(g w := v)), bus_sleep = (\<lambda>us m. m),
     bus_clock = (\<lambda>m. (0, m))\<rparr>"

lemma alias_rd [simp]: "run_state (rd (alias_bus g) w) h = (h_dev h (g w), h)"
  by (simp add: rd_def alias_bus_def)

lemma alias_wr [simp]: "run_state (wr (alias_bus g) w v) h = ((), h\<lparr>h_dev := (h_dev h)(g w := v)\<rparr>)"
  by (simp add: wr_def alias_bus_def)

lemma alias_save: "run_state (save_words (alias_bus g) is) h = (map (\<lambda>i. h_dev h (g (RAMTEST_BASE + i))) is, h)"
  by (induction "is") auto

text \<open>A cell holds the last value written through any of its addresses.\<close>

lemma alias_write_last:
  assumes "\<And>i v. (i, v) \<in> set ws \<Longrightarrow> v = unique_value i" "j \<in> fst ` set ws" "sorted (map fst ws)"
  shows "\<exists>k\<ge>j. k \<in> fst ` set ws \<and>
    h_dev (snd (run_state (write_words (alias_bus g) ws) h)) (g (RAMTEST_BASE + j)) = unique_value k"
  using assms
proof (induction ws arbitrary: h j rule: rev_induct)
  case (snoc x ws)
  obtain i v where x: "x = (i, v)" by fastforce
  have v: "v = unique_value i" using snoc.prems(1) [of i v] by (simp add: x)
  have split: "run_state (write_words (alias_bus g) (ws @ [x])) h =
      ((), (snd (run_state (write_words (alias_bus g) ws) h))\<lparr>h_dev :=
        (h_dev (snd (run_state (write_words (alias_bus g) ws) h)))(g (RAMTEST_BASE + i) := v)\<rparr>)"
    by (induction ws arbitrary: h) (auto simp: x)
  have le: "\<And>k. k \<in> fst ` set ws \<Longrightarrow> k \<le> i" using snoc.prems(3) by (auto simp: x sorted_append)
  show ?case
  proof (cases "g (RAMTEST_BASE + j) = g (RAMTEST_BASE + i)")
    case True
    moreover have "j \<le> i" using snoc.prems(2) le by (auto simp: x)
    moreover have "h_dev (snd (run_state (write_words (alias_bus g) (ws @ [x])) h)) (g (RAMTEST_BASE + i)) = unique_value i"
      by (simp only: split snd_conv) (simp add: v)
    ultimately show ?thesis by (intro exI [of _ i]) (simp add: x)
  next
    case False
    then have "j \<in> fst ` set ws" using snoc.prems(2) by (auto simp: x)
    moreover have "\<And>i v. (i, v) \<in> set ws \<Longrightarrow> v = unique_value i" using snoc.prems(1) by simp
    moreover have "sorted (map fst ws)" using snoc.prems(3) by (simp add: sorted_append)
    ultimately obtain k where "k \<ge> j" "k \<in> fst ` set ws"
        "h_dev (snd (run_state (write_words (alias_bus g) ws) h)) (g (RAMTEST_BASE + j)) = unique_value k"
      using snoc.IH [of j h] by blast
    then show ?thesis using False by (intro exI [of _ k]) (simp add: split)
  qed
qed simp

lemma alias_check:
  "\<exists>h'. run_state (check_unique (alias_bus g) is errs) h =
     (errs + of_nat (length (filter (\<lambda>i. h_dev h (g (RAMTEST_BASE + i)) \<noteq> unique_value i) is)), h') \<and> h_dev h' = h_dev h"
proof (induction "is" arbitrary: errs h)
  case (Cons i "is")
  let ?bad = "h_dev h (g (RAMTEST_BASE + i)) \<noteq> unique_value i"
  define h1 where "h1 = snd (run_state (if errs < 8 then printf (''  word '' @ dec_digits (RAMTEST_BASE + i) @ '': wrote 0x'' @
      fmt_hex8 (unique_value i) @ '' read 0x'' @ fmt_hex8 (h_dev h (g (RAMTEST_BASE + i))) @ nl) else State_Monad.return ()) h)"
  have d: "h_dev h1 = h_dev h" by (simp add: h1_def)
  have "run_state (check_unique (alias_bus g) (i # is) errs) h =
      (if ?bad then run_state (check_unique (alias_bus g) is (errs + 1)) h1 else run_state (check_unique (alias_bus g) is errs) h)"
    by (auto simp: h1_def)
  then show ?case using Cons.IH [of "errs + 1" h1] Cons.IH [of errs h] d by (auto simp: algebra_simps)
qed simp

lemma alias_walk:
  "\<exists>n h'. run_state (walk_ones (alias_bus g) bs errs) h = (errs + of_nat n, h') \<and> n \<le> length bs"
proof (induction bs arbitrary: errs h)
  case (Cons bt bs)
  have "run_state (walk_ones (alias_bus g) (bt # bs) errs) h =
      run_state (walk_ones (alias_bus g) bs errs) (h\<lparr>h_dev := (h_dev h)(g RAMTEST_BASE := push_bit bt 1)\<rparr>)" by simp
  then show ?case using Cons.IH [of errs "h\<lparr>h_dev := (h_dev h)(g RAMTEST_BASE := push_bit bt 1)\<rparr>"] by auto
qed auto

lemma unique_value_inj: "i < RAMTEST_COUNT \<Longrightarrow> j < RAMTEST_COUNT \<Longrightarrow> unique_value i = unique_value j \<Longrightarrow> i = j"
  by (simp add: unique_value_def word_of_nat_eq_iff take_bit_nat_eq_self)

lemma ramtest_alias:
  assumes "i < j" "j < RAMTEST_COUNT" "g (RAMTEST_BASE + i) = g (RAMTEST_BASE + j)"
  shows "fst (run_state (cmd_ramtest (alias_bus g)) h) = 1"
proof -
  let ?I = "[0..<RAMTEST_COUNT]"
  let ?U = "map (\<lambda>i. (i, unique_value i)) ?I"
  define h0 where "h0 = h\<lparr>h_out := h_out h @ (''RAM test on words '' @ dec_digits RAMTEST_BASE @ ''..'' @
    dec_digits (RAMTEST_BASE + RAMTEST_COUNT - 1) @ '' (the free region)'' @ nl)\<rparr>"
  define h1 where "h1 = snd (run_state (write_words (alias_bus g) ?U) h0)"
  have su: "sorted (map fst ?U)" by (simp add: comp_def)
  have "\<exists>k\<ge>j. k \<in> fst ` set ?U \<and> h_dev h1 (g (RAMTEST_BASE + j)) = unique_value k"
    unfolding h1_def by (rule alias_write_last [OF _ _ su]) (use assms(2) in \<open>auto simp: image_iff\<close>)
  then obtain k where k: "j \<le> k" "k < RAMTEST_COUNT" "h_dev h1 (g (RAMTEST_BASE + i)) = unique_value k"
    using assms(3) by (auto simp: image_iff)
  have bad: "h_dev h1 (g (RAMTEST_BASE + i)) \<noteq> unique_value i"
    using k unique_value_inj [of k i] assms(1,2) by auto
  define n where "n = length (filter (\<lambda>i. h_dev h1 (g (RAMTEST_BASE + i)) \<noteq> unique_value i) ?I)"
  have "i \<in> set (filter (\<lambda>i. h_dev h1 (g (RAMTEST_BASE + i)) \<noteq> unique_value i) ?I)" using bad assms by simp
  then have "0 < n" unfolding n_def by (rule length_pos_if_in_set)
  moreover have "n \<le> RAMTEST_COUNT" unfolding n_def by (rule order_trans [OF length_filter_le]) simp
  ultimately have n: "0 < n" "n \<le> RAMTEST_COUNT" by simp_all
  obtain h2 where 2: "run_state (check_unique (alias_bus g) ?I 0) h1 = (of_nat n, h2)"
    using alias_check [of g ?I 0 h1] by (auto simp: n_def)
  obtain m h3 where 3: "run_state (walk_ones (alias_bus g) [0..<32] (of_nat n)) h2 = (of_nat n + of_nat m, h3)" "m \<le> 32"
    using alias_walk [of g "[0..<32]" "of_nat n" h2] by auto
  have "of_nat (n + m) \<noteq> (0 :: u32)"
    using n 3(2) by (auto simp: word_of_nat_eq_0_iff simp del: of_nat_add dest: dvd_imp_le)
  then have nz: "of_nat n + of_nat m \<noteq> (0 :: u32)" by simp
  have "run_state (write_words (alias_bus g) ?U) h0 = ((), h1)" by (simp add: h1_def prod_eq_iff)
  then show ?thesis
    unfolding cmd_ramtest_def
    by (simp only: run_state_bind run_printf h0_def [symmetric] alias_save 2 3(1) prod.case nz if_False split_beta
        fst_conv snd_conv run_state_return)
qed

section \<open>Properties\<close>


definition demo_host :: "ram \<Rightarrow> ram host" where
  "demo_host m = \<lparr>h_dev = m, h_f = None, h_out = [], h_err = []\<rparr>"


lemma strip_force_spec:
  "strip_force as = (filter (\<lambda>a. a \<noteq> ''--force'') as, ''--force'' \<in> set as)"
  by (induction "as") auto

text \<open>
  The probe never reaches outside the shared RAM, and never touches the bridge of a fabric that is
  not configured: a read or write command with a word index of 1024 or more ends with exit code 2 and
  without an access, and without \<open>--force\<close> a fabric not reported as configured ends every command but the
  help with exit code 1 and without an access.
\<close>

theorem probe_stays_inside:
  assumes "w \<ge> 1024" "argv ! 2 = dec_digits w" "w < 2 ^ 32"
    "fmma_fabric_check files False \<noteq> 0" "''--force'' \<notin> set args" "args = [] \<or> hd args \<notin> {''-h'', ''--help''}"
  shows "fst (run_state (cmd_read io argv) h) = 2 \<and> h_dev (snd (run_state (cmd_read io argv) h)) = h_dev h \<and>
    fst (run_state (cmd_write io argv) h) = 2 \<and> h_dev (snd (run_state (cmd_write io argv) h)) = h_dev h \<and>
    fst (run_state (probe_main io files fd mmap_ok e1 e2 turns (name # args)) h) = 1 \<and>
    h_dev (snd (run_state (probe_main io files fd mmap_ok e1 e2 turns (name # args)) h)) = h_dev h"
proof -
  have "unat (strtoul (argv ! 2)) = w"
    using assms(1-3) by (simp add: strtoul_dec unsigned_of_nat take_bit_nat_eq_self)
  then have big: "\<not> unat (strtoul (argv ! 2)) < FMMA_MEM_WORDS" using assms(1) by simp
  have f: "filter (\<lambda>a. a \<noteq> ''--force'') args = args" using assms(5) by (auto simp: filter_id_conv)
  have "map_bridge files False fd mmap_ok e1 e2 = (- 1, [])" using assms(4) by (simp add: map_bridge_def)
  then have m: "run_state (probe_main io files fd mmap_ok e1 e2 turns (name # args)) h = (1, h)"
    using assms(5,6) by (auto simp: probe_main_def strip_force_spec f)
  show ?thesis unfolding m using big by (auto simp: cmd_read_def cmd_write_def Let_def)
qed

theorem probe_stays_inside_witness:
  "fst (run_state (cmd_write ram_bus [''fmma-probe'', ''write'', ''1024'', ''5'']) (demo_host (\<lambda>_. 0))) = 2 \<and>
   fst (run_state (probe_main ram_bus (\<lambda>_. None) 3 True [] [] 0 [''fmma-probe'', ''ramtest'']) (demo_host (\<lambda>_. 0))) = 1"
proof -
  have "[''fmma-probe'', ''write'', ''1024'', ''5''] ! 2 = dec_digits 1024" by code_simp
  moreover have "fmma_fabric_check (\<lambda>_. None) False \<noteq> 0" by code_simp
  ultimately show ?thesis
    using probe_stays_inside [of 1024 "[''fmma-probe'', ''write'', ''1024'', ''5'']" "\<lambda>_. None" "[''ramtest'']"
        ram_bus "demo_host (\<lambda>_. 0)" 3 True "[]" "[]" 0 "''fmma-probe''"]
    by simp
qed

end
