(* ===== verification/Fmma_Device.thy ===== *)
theory Fmma_Device
  imports Fmma_Boot Fmma_Selftest Fmma_Probe
begin

text \<open>
  The fabric as a device of the diagnostics: the CPU executes the image while the host's word accesses arrive, any number of
  instructions apart. It satisfies the contracts the diagnostics were proved against, so their theorems hold beside a
  running CPU.
\<close>

section \<open>The device\<close>

text \<open>
  The state: the CPU somewhere in the image, the RAM with the image in it, and how many instructions pass before each of the
  coming accesses. The diagnostics never store into the image; the device ignores such a store.
\<close>

typedef fabric = "{s :: cpu \<times> ram \<times> (nat \<Rightarrow> nat). sane (fst s) \<and> loaded (fst (snd s))}"
  by (rule exI [of _ "(reset_cpu, image_ram, \<lambda>_. 0)"]) simp

definition fabric_word :: "fabric \<Rightarrow> nat \<Rightarrow> u32" where
  "fabric_word d = fst (snd (Rep_fabric d))"

definition fabric_pass :: "nat \<Rightarrow> fabric \<Rightarrow> fabric" where
  "fabric_pass n d =
     (case Rep_fabric d of (c, m, p) \<Rightarrow> case cpu_alone (n + p 0) (c, m) of (c', m') \<Rightarrow> Abs_fabric (c', m', \<lambda>i. p (Suc i)))"

definition fabric_store :: "nat \<Rightarrow> u32 \<Rightarrow> fabric \<Rightarrow> fabric" where
  "fabric_store w v d =
     (case Rep_fabric d of (c, m, p) \<Rightarrow> if 8 \<le> w \<and> w < 162 then d else Abs_fabric (c, m(w := v), p))"

lemma rep_fabric: obtains c m p where "Rep_fabric d = (c, m, p)" "sane c" "loaded m"
  using Rep_fabric [of d] by (metis (mono_tags, lifting) fst_conv mem_Collect_eq prod_cases3 snd_conv)

lemma alone_sane:
  assumes "sane c" "loaded m" "cpu_alone n (c, m) = (c', m')"
  shows "sane c'" "own_change m m'" "loaded m'"
proof -
  have "sane c' \<and> shadow m m'" using shadow_run [OF assms(1) _ _ assms(3), of m] assms(2) by (simp add: shadow_def)
  then show "sane c'" "own_change m m'" "loaded m'" using shadow_loaded assms(2) by (auto simp: shadow_self)
qed

text \<open>The bus of a CPU that executes \<open>rate\<close> instructions per microsecond of sleep.\<close>

definition fabric_bus :: "nat \<Rightarrow> (fabric \<Rightarrow> u64) \<Rightarrow> fabric bus" where
  "fabric_bus rate clk = \<lparr>bus_read = (\<lambda>w d. let d1 = fabric_pass 0 d in (fabric_word d1 w, d1)),
     bus_write = (\<lambda>w v d. fabric_store w v (fabric_pass 0 d)), bus_sleep = (\<lambda>us d. fabric_pass (us * rate) d),
     bus_clock = (\<lambda>d. (clk d, d))\<rparr>"

text \<open>The words that the program leaves to the host.\<close>

definition host_words :: "nat set" where
  "host_words = {w. \<not> (8 \<le> w \<and> w < 162) \<and> \<not> (FMMA_HEARTBEAT \<le> w \<and> w \<le> FMMA_QUOTE_ASK) \<and> w \<noteq> FMMA_CFG_RESTART}"

lemma pass_word:
  assumes "w \<in> host_words"
  shows "fabric_word (fabric_pass n d) w = fabric_word d w"
proof -
  obtain c m p where d: "Rep_fabric d = (c, m, p)" "sane c" "loaded m" by (rule rep_fabric)
  obtain c' m' where r: "cpu_alone (n + p 0) (c, m) = (c', m')" by (rule prod.exhaust)
  note a = alone_sane [OF d(2,3) r]
  have "m' w = m w" using a(2) assms by (auto simp: own_change_def host_words_def)
  then show ?thesis using a(1,3) by (simp add: fabric_word_def fabric_pass_def d r Abs_fabric_inverse)
qed

lemma store_word: "fabric_word (fabric_store a v d) w = (if w = a \<and> \<not> (8 \<le> a \<and> a < 162) then v else fabric_word d w)"
proof -
  obtain c m p where d: "Rep_fabric d = (c, m, p)" "sane c" "loaded m" by (rule rep_fabric)
  then have "loaded (m(a := v))" if "\<not> (8 \<le> a \<and> a < 162)"
    using that by (auto simp: loaded_def FPGA_PROGRAM_LEN_def FPGA_PROGRAM_BASE_def)
  then show ?thesis using d(2) by (auto simp: fabric_word_def fabric_store_def d(1) Abs_fabric_inverse)
qed

text \<open>Its words are memory to the host, and the host's alone.\<close>

interpretation fabric: memory_region "fabric_bus rate clk" fabric_word host_words for rate clk
  by unfold_locales (auto simp: fabric_bus_def pass_word store_word Let_def host_words_def)

interpretation fabric_own: host_owned "fabric_bus rate clk" fabric_word host_words for rate clk
  by unfold_locales (auto simp: fabric_bus_def pass_word store_word Let_def host_words_def)

section \<open>The diagnostics beside a running CPU\<close>

text \<open>The RAM test passes and restores what it tested, whatever the timing.\<close>

lemma ramtest_beside_cpu:
  "\<exists>h'. run_state (cmd_ramtest (fabric_bus rate clk)) h = (0, h') \<and> (\<forall>w \<in> host_words. fabric_word (h_dev h') w = fabric_word (h_dev h) w)"
  by (rule fabric.ramtest_run) (auto simp: test_words_def host_words_def)

text \<open>A conformance run leaves trading disabled, and the limit of its own test behind.\<close>

lemma selftest_beside_cpu:
  fixes rate clk
  assumes "fmma_fpga_present (h_f h)"
  defines "h' \<equiv> snd (run_state (fmma_selftest_run (fabric_bus rate clk)) h)"
  shows "fabric_word (h_dev h') FMMA_CFG_ENABLE = 0 \<and> fabric_word (h_dev h') FMMA_CFG_MAX_POS = 2 \<and>
    fabric_word (h_dev h') FMMA_CFG_POSITION = 0"
  unfolding h'_def by (rule fabric_own.selftest_leaves) (use assms in \<open>auto simp: host_words_def\<close>)

end
