(* ===== verification/Fmma_Units.thy ===== *)
theory Fmma_Units
  imports Fmma_Fixed Fmma_Json Fmma_Strategy Fmma_Risk
begin

text \<open>
  The repository's own unit tests, \<open>Software/tests/test_units.c\<close>, run on the model: every check of the program in its
  order, with the counters and the report. They tie the definitions of four modules to the behaviour their authors
  wrote down.
\<close>

section \<open>The harness\<close>

text \<open>The two counters and the output. Where the \<open>n\<close>-th check stands in the file, \<open>__FILE__:__LINE__\<close>, is an argument.\<close>

record units =
  g_checks :: int
  g_failures :: int
  g_out :: string

type_synonym places = "int \<Rightarrow> string"

definition CHECK :: "places \<Rightarrow> bool \<Rightarrow> string \<Rightarrow> units \<Rightarrow> units" where
  "CHECK at cond text u =
     (let u1 = u\<lparr>g_checks := s32 (g_checks u + 1)\<rparr>
      in if cond then u1
         else u1\<lparr>g_failures := s32 (g_failures u1 + 1), g_out := g_out u1 @ ''  FAIL '' @ at (g_checks u1) @ ''  '' @ text @ nl\<rparr>)"

definition CHECK_EQ :: "places \<Rightarrow> int \<Rightarrow> int \<Rightarrow> string \<Rightarrow> units \<Rightarrow> units" where
  "CHECK_EQ at got want what u = CHECK at (got = want) (what @ '': got '' @ fmt_int got @ '', want '' @ fmt_int want) u"

definition test_section :: "string \<Rightarrow> units \<Rightarrow> units" where
  "test_section name u = u\<lparr>g_out := g_out u @ nl @ name @ nl\<rparr>"

section \<open>Fixed point\<close>

text \<open>A check of the parser; \<open>None\<close> when the parser does not return.\<close>

definition CHECK_PARSE :: "places \<Rightarrow> string option \<Rightarrow> u32 \<Rightarrow> int \<Rightarrow> string \<Rightarrow> units option \<Rightarrow> units option" where
  "CHECK_PARSE at text scale want what ou =
     (case ou of None \<Rightarrow> None
      | Some u \<Rightarrow> (case fmma_parse_scaled text scale of None \<Rightarrow> None | Some v \<Rightarrow> Some (CHECK_EQ at v want what u)))"

definition CHECK_FORMAT :: "places \<Rightarrow> int \<Rightarrow> u32 \<Rightarrow> string \<Rightarrow> string \<Rightarrow> units \<Rightarrow> units" where
  "CHECK_FORMAT at value scale want what u =
     (let buf = the (fmma_format_scaled (Some []) 32 value scale) in CHECK at (buf = want) (what @ '': '' @ buf) u)"

definition test_fixed :: "places \<Rightarrow> units \<Rightarrow> units option" where
  "test_fixed at u =
     (let ou = Some (test_section ''fixed-point parsing'' u);
          ou = CHECK_PARSE at (Some ''97431.02'') 100 9743102 ''two decimals'' ou;
          ou = CHECK_PARSE at (Some ''97431'') 100 9743100 ''no decimal point'' ou;
          ou = CHECK_PARSE at (Some ''0.0013'') 10000 13 ''fractional size'' ou;
          ou = CHECK_PARSE at (Some ''-3.5'') 100 (- 350) ''negative'' ou;
          ou = CHECK_PARSE at (Some ''+1.25'') 100 125 ''leading plus'' ou;
          ou = CHECK_PARSE at (Some ''1.239'') 100 123 ''truncates, not rounds'' ou;
          ou = CHECK_PARSE at (Some ''0'') 100 0 ''zero'' ou;
          ou = CHECK_PARSE at (Some ''.5'') 100 FMMA_PARSE_ERROR ''leading dot is rejected'' ou;
          ou = CHECK_PARSE at (Some ''nope'') 100 FMMA_PARSE_ERROR ''not a number'' ou;
          ou = CHECK_PARSE at None 100 FMMA_PARSE_ERROR ''null'' ou;
          ou = CHECK_PARSE at (Some (''97431.02'' @ [quote] @ '','' @ [quote] @ ''best_ask'' @ [quote] @ '':'' @ [quote] @ ''1'')) 100 9743102 ''stops at the closing quote'' ou;
          ou = CHECK_PARSE at (Some ''97431.07'') 100 9743107 ''exact cents'' ou
      in case ou of None \<Rightarrow> None
         | Some u \<Rightarrow>
             let u = test_section ''fixed-point formatting'' u;
                 u = CHECK_FORMAT at 9743102 100 ''97431.02'' ''format two decimals'' u;
                 u = CHECK_FORMAT at (- 350) 100 ''-3.50'' ''format negative'' u;
                 u = CHECK_FORMAT at 13 10000 ''0.0013'' ''format small'' u;
                 u = test_section ''price clamping'' u;
                 (v, clamped) = fmma_clamp_price 500000;
                 u = CHECK_EQ at (uint v) 500000 ''in range'' u;
                 u = CHECK_EQ at (of_bool clamped) 0 ''not clamped'' u;
                 (v, clamped) = fmma_clamp_price (FMMA_PRICE_MAX + 1);
                 u = CHECK_EQ at (of_bool clamped) 1 ''over range is reported'' u;
                 (v, clamped) = fmma_clamp_price (- 1)
             in Some (CHECK_EQ at (of_bool clamped) 1 ''negative is reported'' u))"

section \<open>JSON\<close>

definition test_msg :: string where
  "test_msg = ''{'' @ [quote] @ ''type'' @ [quote] @ '':'' @ [quote] @ ''ticker'' @ [quote] @ '','' @ [quote] @ ''sequence'' @ [quote] @ '':123,'' @ [quote] @ ''product_id'' @ [quote] @ '':'' @ [quote] @ ''BTC-USD'' @ [quote] @ '','' @ [quote] @ ''price'' @ [quote] @ '':'' @ [quote] @ ''97431.07'' @ [quote] @ '','' @ [quote] @ ''best_bid'' @ [quote] @ '':'' @ [quote] @ ''97431.02'' @ [quote] @ '','' @ [quote] @ ''best_ask'' @ [quote] @ '':'' @ [quote] @ ''97431.98'' @ [quote] @ '','' @ [quote] @ ''best_bid_size'' @ [quote] @ '':'' @ [quote] @ ''0.00130000'' @ [quote] @ ''}''"

definition last_match_msg :: string where
  "last_match_msg = ''{'' @ [quote] @ ''type'' @ [quote] @ '':'' @ [quote] @ ''last_match'' @ [quote] @ '','' @ [quote] @ ''price'' @ [quote] @ '':'' @ [quote] @ ''1'' @ [quote] @ ''}''"

definition ack_msg :: string where
  "ack_msg = ''{'' @ [quote] @ ''type'' @ [quote] @ '':'' @ [quote] @ ''subscriptions'' @ [quote] @ '','' @ [quote] @ ''channels'' @ [quote] @ '':[{'' @ [quote] @ ''name'' @ [quote] @ '':'' @ [quote] @ ''ticker'' @ [quote] @ ''}]}''"

definition CHECK_COPY :: "places \<Rightarrow> string \<Rightarrow> nat \<Rightarrow> int \<Rightarrow> string \<Rightarrow> units \<Rightarrow> units" where
  "CHECK_COPY at name cap want what u = CHECK_EQ at (fst (fmma_json_copy_string (Some test_msg) (Some name) (Some []) cap)) want what u"

definition CHECK_VALUE :: "places \<Rightarrow> string \<Rightarrow> string \<Rightarrow> units \<Rightarrow> units" where
  "CHECK_VALUE at name want u =
     (let buf = the (snd (fmma_json_copy_string (Some test_msg) (Some name) (Some []) 32))
      in CHECK at (buf = want) (name @ '' value: '' @ buf) u)"

definition test_json :: "places \<Rightarrow> units \<Rightarrow> units" where
  "test_json at u =
     (let u = test_section ''JSON field extraction'' u;
          u = CHECK_COPY at ''best_bid'' 32 0 ''best_bid found'' u;
          u = CHECK_VALUE at ''best_bid'' ''97431.02'' u;
          u = CHECK_COPY at ''product_id'' 32 0 ''product_id found'' u;
          u = CHECK_VALUE at ''product_id'' ''BTC-USD'' u;
          u = CHECK_COPY at ''absent'' 32 (- 1) ''missing field'' u;
          u = CHECK_COPY at ''sequence'' 32 (- 1) ''numeric field is not a string field'' u;
          u = CHECK at (fmma_json_type_is (Some test_msg) (Some ''ticker'')) ''type is ticker'' u;
          u = CHECK at (\<not> fmma_json_type_is (Some test_msg) (Some ''tick'')) ''prefix does not match'' u;
          u = CHECK at (\<not> fmma_json_type_is (Some test_msg) (Some ''match'')) ''wrong type'' u;
          u = CHECK at (\<not> fmma_json_type_is (Some last_match_msg) (Some ''match'')) ''last_match is not match'' u;
          u = CHECK at (\<not> fmma_json_type_is (Some ack_msg) (Some ''ticker'')) ''ack is not a ticker message'' u
      in CHECK_COPY at ''best_bid'' 4 (- 1) ''value that does not fit is rejected'' u)"

section \<open>Strategy\<close>

text \<open>A quote, and a quote whose result is checked.\<close>

definition feed_quote :: "u32 \<Rightarrow> u32 \<Rightarrow> fmma_strategy \<times> units \<Rightarrow> fmma_strategy \<times> units" where
  "feed_quote b a su = (fst (fmma_strategy_on_quote (fst su) b a), snd su)"

definition CHECK_QUOTE :: "places \<Rightarrow> u32 \<Rightarrow> u32 \<Rightarrow> u32 \<Rightarrow> string \<Rightarrow> fmma_strategy \<times> units \<Rightarrow> fmma_strategy \<times> units" where
  "CHECK_QUOTE at b a want what su =
     (case fmma_strategy_on_quote (fst su) b a of (s, got) \<Rightarrow> (s, CHECK_EQ at (uint got) (uint want) what (snd su)))"

definition test_strategy :: "places \<Rightarrow> units \<Rightarrow> units" where
  "test_strategy at u =
     (let u = test_section ''strategy'' u;
          su = (fmma_strategy_init 1000 100 0, u);
          su = CHECK_QUOTE at 1000000 1000100 FMMA_SIGNAL_NONE ''first quote anchors'' su;
          su = CHECK_QUOTE at 999900 1000000 FMMA_SIGNAL_NONE ''small move'' su;
          su = feed_quote 1000000 1000100 (fmma_strategy_init 1000 100 0, snd su);
          su = CHECK_QUOTE at 998000 998100 FMMA_SIGNAL_BUY ''fall -> buy'' su;
          su = feed_quote 1000000 1000100 (fmma_strategy_init 1000 100 0, snd su);
          su = CHECK_QUOTE at 1002000 1002100 FMMA_SIGNAL_SELL ''rise -> sell'' su;
          su = feed_quote 1000000 1000100 (fmma_strategy_init 1000 100 0, snd su);
          su = feed_quote 998000 998100 su;
          su = CHECK_QUOTE at 998000 998100 FMMA_SIGNAL_NONE ''same level twice fires once'' su;
          su = feed_quote 1000000 1000100 (fmma_strategy_init 1000 100 0, snd su);
          su = CHECK_QUOTE at 0 998100 FMMA_SIGNAL_NONE ''no bid'' su;
          su = CHECK_QUOTE at 998000 0 FMMA_SIGNAL_NONE ''no ask'' su;
          u = test_section ''strategy risk limit'' (snd su);
          su = feed_quote 1000000 1000100 (fmma_strategy_init 1000 2 2, u);
          su = CHECK_QUOTE at 998000 998100 FMMA_SIGNAL_NONE ''buy blocked at the long limit'' su;
          su = (fst su, CHECK_EQ at (uint (strat_rejects (fst su))) 1 ''rejection counted'' (snd su));
          su = feed_quote 1000000 1000100 su;
          su = CHECK_QUOTE at 1002000 1002100 FMMA_SIGNAL_SELL ''sell still allowed at the long limit'' su;
          su = feed_quote 1000000 1000100 (fmma_strategy_init 1000 2 (- 2), snd su);
          su = CHECK_QUOTE at 1002000 1002100 FMMA_SIGNAL_NONE ''sell blocked at the short limit'' su;
          su = feed_quote 1000000 1000100 su;
          su = CHECK_QUOTE at 998000 998100 FMMA_SIGNAL_BUY ''buy still allowed at the short limit'' su;
          su = feed_quote 1000000 1000100 (fmma_strategy_init 1000 3 2, snd su);
          su = CHECK_QUOTE at 998000 998100 FMMA_SIGNAL_BUY ''just inside the limit'' su;
          s = fmma_strategy_on_fill (fmma_strategy_init 1000 100 0) FMMA_FILL_BOUGHT 3;
          u = CHECK_EQ at (strat_position s) 3 ''bought 3'' (snd su);
          s = fmma_strategy_on_fill s FMMA_FILL_SOLD 5
      in CHECK_EQ at (strat_position s) (- 2) ''sold 5'' u)"

section \<open>Risk\<close>

text \<open>The enumerators as numbers.\<close>

fun verdict_code :: "fmma_risk_verdict \<Rightarrow> int" where
  "verdict_code FMMA_RISK_OK = 0"
| "verdict_code FMMA_RISK_LOSS_LIMIT = 1"
| "verdict_code FMMA_RISK_STALE_FEED = 2"
| "verdict_code FMMA_RISK_HALTED = 3"

definition CHECK_VERDICT :: "places \<Rightarrow> u64 \<Rightarrow> fmma_risk_verdict \<Rightarrow> string \<Rightarrow> fmma_risk \<times> units \<Rightarrow> fmma_risk \<times> units" where
  "CHECK_VERDICT at age want what ru =
     (case fmma_risk_check (fst ru) age of (r, v) \<Rightarrow> (r, CHECK_EQ at (verdict_code v) (verdict_code want) what (snd ru)))"

definition test_risk :: "places \<Rightarrow> units \<Rightarrow> units" where
  "test_risk at u =
     (let u = test_section ''P&L accounting'' u;
          r = fmma_risk_on_fill (fmma_risk_init 0 0 0) FMMA_FILL_BOUGHT 1 100;
          u = CHECK_EQ at (risk_position r) 1 ''long 1'' u;
          u = CHECK_EQ at (risk_avg_price r) 100 ''average entry'' u;
          r = fmma_risk_on_fill r FMMA_FILL_SOLD 1 110;
          u = CHECK_EQ at (risk_position r) 0 ''flat'' u;
          u = CHECK_EQ at (risk_realised r) 10 ''realised profit'' u;
          r = fmma_risk_on_fill (fmma_risk_init 0 0 0) FMMA_FILL_BOUGHT 1 100;
          r = fmma_risk_on_fill r FMMA_FILL_BOUGHT 1 200;
          u = CHECK_EQ at (risk_avg_price r) 150 ''averaged entry'' u;
          u = CHECK_EQ at (risk_position r) 2 ''long 2'' u;
          r = fmma_risk_on_fill (fmma_risk_init 0 0 0) FMMA_FILL_SOLD 1 100;
          u = CHECK_EQ at (risk_position r) (- 1) ''short 1'' u;
          r = fmma_risk_on_fill r FMMA_FILL_BOUGHT 1 90;
          u = CHECK_EQ at (risk_realised r) 10 ''profit on the short'' u;
          r = fmma_risk_mark (fmma_risk_on_fill (fmma_risk_init 0 0 0) FMMA_FILL_BOUGHT 2 100) 120;
          u = CHECK_EQ at (risk_unrealised r) 40 ''unrealised on 2 lots'' u;
          u = CHECK_EQ at (fmma_risk_pnl r) 40 ''total P&L'' u;
          u = test_section ''risk limits'' u;
          r = fmma_risk_mark (fmma_risk_on_fill (fmma_risk_init 50 0 0) FMMA_FILL_BOUGHT 1 100) 40;
          ru = CHECK_VERDICT at 0 FMMA_RISK_LOSS_LIMIT ''loss limit hit'' (r, u);
          ru = (fst ru, CHECK at (risk_halted (fst ru)) ''halted after the limit'' (snd ru));
          ru = CHECK_VERDICT at 0 FMMA_RISK_HALTED ''stays halted'' ru;
          ru = CHECK_VERDICT at 500000 FMMA_RISK_OK ''fresh feed'' (fmma_risk_init 0 1000 0, snd ru);
          ru = CHECK_VERDICT at 2000000 FMMA_RISK_STALE_FEED ''stale feed'' ru;
          ru = (fst ru, CHECK at (\<not> risk_halted (fst ru)) ''stale feed does not halt permanently'' (snd ru))
      in snd (CHECK_VERDICT at 0 FMMA_RISK_OK ''recovers'' ru))"

section \<open>The program\<close>

definition units_main :: "places \<Rightarrow> (units \<times> int) option" where
  "units_main at =
     (case test_fixed at \<lparr>g_checks = 0, g_failures = 0, g_out = ''FMMA host unit tests'' @ nl\<rparr> of None \<Rightarrow> None
      | Some u \<Rightarrow>
          let u = test_risk at (test_strategy at (test_json at u));
              u = u\<lparr>g_out := g_out u @ nl @ fmt_int (g_checks u) @ '' checks, '' @ fmt_int (g_failures u) @ '' failures'' @ nl @
                (if g_failures u = 0 then ''=== unit tests PASSED ==='' else ''=== unit tests FAILED ==='') @ nl\<rparr>
          in Some (u, if g_failures u = 0 then 0 else 1))"

declare pad_frac.simps [code]

section \<open>The checks succeed\<close>

text \<open>A run that has made \<open>k\<close> checks and seen no failure.\<close>

definition green :: "int \<Rightarrow> units \<Rightarrow> bool" where
  "green k u \<longleftrightarrow> g_checks u = k \<and> g_failures u = 0"

definition green_opt :: "int \<Rightarrow> units option \<Rightarrow> bool" where
  "green_opt k ou \<longleftrightarrow> (case ou of None \<Rightarrow> False | Some u \<Rightarrow> green k u)"

named_theorems checks \<open>what a check that holds does to the counters\<close>

lemma green_section [checks]: "green k u \<Longrightarrow> green k (test_section name u)"
  by (simp add: green_def test_section_def)

lemma green_CHECK [checks]:
  "green (k - 1) u \<Longrightarrow> cond \<Longrightarrow> 1 \<le> k \<and> k < 2 ^ 31 \<Longrightarrow> green k (CHECK at cond text u)"
  by (simp add: green_def CHECK_def s32_id)

lemma green_CHECK_EQ [checks]:
  "green (k - 1) u \<Longrightarrow> got = want \<Longrightarrow> 1 \<le> k \<and> k < 2 ^ 31 \<Longrightarrow> green k (CHECK_EQ at got want what u)"
  unfolding CHECK_EQ_def by (rule green_CHECK)

lemma green_CHECK_PARSE [checks]:
  "green_opt (k - 1) ou \<Longrightarrow> fmma_parse_scaled text scale = Some want \<Longrightarrow> 1 \<le> k \<and> k < 2 ^ 31 \<Longrightarrow>
   green_opt k (CHECK_PARSE at text scale want what ou)"
  by (cases ou) (simp_all add: green_opt_def CHECK_PARSE_def green_CHECK_EQ)

lemma green_Some [checks]: "green k u \<Longrightarrow> green_opt k (Some u)"
  by (simp add: green_opt_def)

lemma green_bind [checks]:
  "green_opt j ou \<Longrightarrow> (\<And>u. green j u \<Longrightarrow> green_opt k (f u)) \<Longrightarrow> green_opt k (case ou of None \<Rightarrow> None | Some u \<Rightarrow> f u)"
  by (cases ou) (simp_all add: green_opt_def)

lemma green_CHECK_FORMAT [checks]:
  "green (k - 1) u \<Longrightarrow> fmma_format_scaled (Some []) 32 value scale = Some want \<Longrightarrow> 1 \<le> k \<and> k < 2 ^ 31 \<Longrightarrow>
   green k (CHECK_FORMAT at value scale want what u)"
  unfolding CHECK_FORMAT_def Let_def by (rule green_CHECK) simp_all

lemma green_CHECK_COPY [checks]:
  "green (k - 1) u \<Longrightarrow> fst (fmma_json_copy_string (Some test_msg) (Some name) (Some []) cap) = want \<Longrightarrow>
   1 \<le> k \<and> k < 2 ^ 31 \<Longrightarrow> green k (CHECK_COPY at name cap want what u)"
  unfolding CHECK_COPY_def by (rule green_CHECK_EQ)

lemma green_CHECK_VALUE [checks]:
  "green (k - 1) u \<Longrightarrow> snd (fmma_json_copy_string (Some test_msg) (Some name) (Some []) 32) = Some want \<Longrightarrow>
   1 \<le> k \<and> k < 2 ^ 31 \<Longrightarrow> green k (CHECK_VALUE at name want u)"
  unfolding CHECK_VALUE_def Let_def by (rule green_CHECK) simp_all

lemma green_snd [checks]: "green k u \<Longrightarrow> green k (snd (s, u))"
  by simp

lemma green_feed_quote [checks]: "green k (snd su) \<Longrightarrow> green k (snd (feed_quote b a su))"
  by (simp add: feed_quote_def)

lemma green_CHECK_QUOTE [checks]:
  "green (k - 1) (snd su) \<Longrightarrow> snd (fmma_strategy_on_quote (fst su) b a) = want \<Longrightarrow> 1 \<le> k \<and> k < 2 ^ 31 \<Longrightarrow>
   green k (snd (CHECK_QUOTE at b a want what su))"
  by (simp add: CHECK_QUOTE_def case_prod_beta green_CHECK_EQ)

lemma green_CHECK_VERDICT [checks]:
  "green (k - 1) (snd ru) \<Longrightarrow> snd (fmma_risk_check (fst ru) age) = want \<Longrightarrow> 1 \<le> k \<and> k < 2 ^ 31 \<Longrightarrow>
   green k (snd (CHECK_VERDICT at age want what ru))"
  by (simp add: CHECK_VERDICT_def case_prod_beta green_CHECK_EQ)

text \<open>The state the checked calls thread.\<close>

lemma fst_tests:
  "fst (feed_quote b a su) = fst (fmma_strategy_on_quote (fst su) b a)"
  "fst (CHECK_QUOTE at b a want what su) = fst (fmma_strategy_on_quote (fst su) b a)"
  "fst (CHECK_VERDICT at age verdict what ru) = fst (fmma_risk_check (fst ru) age)"
  by (simp_all add: feed_quote_def CHECK_QUOTE_def CHECK_VERDICT_def case_prod_beta)

subsection \<open>The values\<close>

lemma digit_chars:
  "digit_char 0 = CHR ''0''" "digit_char 1 = CHR ''1''" "digit_char (Suc 0) = CHR ''1''" "digit_char 2 = CHR ''2''"
  "digit_char 3 = CHR ''3''" "digit_char 6 = CHR ''6''" "digit_char 4 = CHR ''4''" "digit_char 5 = CHR ''5''" "digit_char 7 = CHR ''7''"
  "digit_char 9 = CHR ''9''"
  by code_simp+

lemma parse_checks:
  "fmma_parse_scaled (Some ''97431.02'') 100 = Some 9743102"
  "fmma_parse_scaled (Some ''97431'') 100 = Some 9743100"
  "fmma_parse_scaled (Some ''0.0013'') 10000 = Some 13"
  "fmma_parse_scaled (Some ''-3.5'') 100 = Some (- 350)"
  "fmma_parse_scaled (Some ''+1.25'') 100 = Some 125"
  "fmma_parse_scaled (Some ''1.239'') 100 = Some 123"
  "fmma_parse_scaled (Some ''0'') 100 = Some 0"
  "fmma_parse_scaled (Some ''.5'') 100 = Some FMMA_PARSE_ERROR"
  "fmma_parse_scaled (Some ''nope'') 100 = Some FMMA_PARSE_ERROR"
  "fmma_parse_scaled None 100 = Some FMMA_PARSE_ERROR"
  "fmma_parse_scaled (Some (''97431.02'' @ [quote] @ '','' @ [quote] @ ''best_ask'' @ [quote] @ '':'' @ [quote] @ ''1'')) 100 = Some 9743102"
  "fmma_parse_scaled (Some ''97431.07'') 100 = Some 9743107"
  by code_simp+

lemma format_checks:
  "fmma_format_scaled (Some []) 32 9743102 100 = Some ''97431.02''"
  "fmma_format_scaled (Some []) 32 (- 350) 100 = Some ''-3.50''"
  "fmma_format_scaled (Some []) 32 13 10000 = Some ''0.0013''"
  by (simp_all add: fmma_format_scaled_def format_text_def scale_digits.simps dec_digits.simps zero_pad_def
      snprintf_store_def s64_id digit_chars)

lemma clamp_checks:
  "fmma_clamp_price 500000 = (500000, False)"
  "snd (fmma_clamp_price (FMMA_PRICE_MAX + 1))"
  "snd (fmma_clamp_price (- 1))"
  by code_simp+

lemma copy_checks:
  "fst (fmma_json_copy_string (Some test_msg) (Some ''best_bid'') (Some []) 32) = 0"
  "snd (fmma_json_copy_string (Some test_msg) (Some ''best_bid'') (Some []) 32) = Some ''97431.02''"
  "fst (fmma_json_copy_string (Some test_msg) (Some ''product_id'') (Some []) 32) = 0"
  "snd (fmma_json_copy_string (Some test_msg) (Some ''product_id'') (Some []) 32) = Some ''BTC-USD''"
  "fst (fmma_json_copy_string (Some test_msg) (Some ''absent'') (Some []) 32) = - 1"
  "fst (fmma_json_copy_string (Some test_msg) (Some ''sequence'') (Some []) 32) = - 1"
  "fst (fmma_json_copy_string (Some test_msg) (Some ''best_bid'') (Some []) 4) = - 1"
  by code_simp+

lemma type_checks:
  "fmma_json_type_is (Some test_msg) (Some ''ticker'')"
  "\<not> fmma_json_type_is (Some test_msg) (Some ''tick'')"
  "\<not> fmma_json_type_is (Some test_msg) (Some ''match'')"
  "\<not> fmma_json_type_is (Some last_match_msg) (Some ''match'')"
  "\<not> fmma_json_type_is (Some ack_msg) (Some ''ticker'')"
  by code_simp+

subsection \<open>The four tests\<close>

lemma test_fixed_passes:
  assumes "green 0 u"
  shows "green_opt 19 (test_fixed at u)"
  unfolding test_fixed_def Let_def case_prod_beta
proof (rule green_bind [where j = 12], goal_cases)
  case 1
  show ?case by ((rule checks)+, use assms in simp, (rule parse_checks | simp (no_asm))+)
next
  case (2 v)
  then show ?case by - ((rule checks)+, simp, (rule format_checks | simp (no_asm) add: clamp_checks)+)
qed

lemma test_json_passes:
  assumes "green 19 u"
  shows "green 31 (test_json at u)"
  unfolding test_json_def Let_def
  by ((rule checks)+, use assms in simp, (rule copy_checks type_checks | simp (no_asm))+)

text \<open>The strategy and the risk book compute on the concrete quotes and fills.\<close>

lemmas strategy_steps = fmma_strategy_init_def fmma_strategy_on_quote_def strategy_want_def fmma_strategy_on_fill_def
  Let_def fst_tests

lemmas risk_steps = fmma_risk_init_def fmma_risk_on_fill_def fmma_risk_mark_def fmma_risk_pnl_def fmma_risk_check_def
  fmma_risk_halt_def labs_def cdiv_def Let_def fst_tests

lemma test_strategy_passes:
  assumes "green 31 u"
  shows "green 46 (test_strategy at u)"
  unfolding test_strategy_def Let_def
  by ((rule checks)+, use assms in simp, (simp add: strategy_steps s64_id s32_id)+)

lemma test_risk_passes:
  assumes "green 46 u"
  shows "green 63 (test_risk at u)"
  unfolding test_risk_def Let_def
  by ((rule checks)+, use assms in simp, (simp add: risk_steps s64_id s32_id)+)
text \<open>
  The tests pass: the parser returns on each of their inputs, all 63 checks succeed, the last line says so, and the
  program ends with exit code 0.
\<close>

theorem unit_tests_pass:
  "\<exists>u. units_main at = Some (u, 0) \<and> g_checks u = 63 \<and> g_failures u = 0 \<and>
     (\<exists>log. g_out u = log @ nl @ ''63 checks, 0 failures'' @ nl @ ''=== unit tests PASSED ==='' @ nl)"
proof -
  let ?u0 = "\<lparr>g_checks = 0, g_failures = 0, g_out = ''FMMA host unit tests'' @ nl\<rparr>"
  have "green 0 ?u0" by (simp add: green_def)
  from test_fixed_passes [OF this, of at]
  obtain u where u: "test_fixed at ?u0 = Some u" "green 19 u" by (auto simp: green_opt_def split: option.splits)
  let ?v = "test_risk at (test_strategy at (test_json at u))"
  have "green 63 ?v" by (intro test_risk_passes test_strategy_passes test_json_passes u(2))
  then have v: "g_checks ?v = 63" "g_failures ?v = 0" by (simp_all add: green_def)
  have digits: "fmt_int 63 = ''63''" "fmt_int 0 = ''0''"
    by (simp_all add: fmt_int_def dec_digits.simps digit_chars)
  have "units_main at = Some (?v\<lparr>g_out := g_out ?v @ nl @ ''63'' @ '' checks, '' @ ''0'' @ '' failures'' @ nl @
      ''=== unit tests PASSED ==='' @ nl\<rparr>, 0)"
    unfolding units_main_def u(1) option.case Let_def by (simp add: v digits)
  with v show ?thesis by simp
qed

end
