(* ===== verification/Fmma_Iobuf.thy ===== *)
theory Fmma_Iobuf
  imports Fmma_Prelude
begin

text \<open>
  The byte buffers and the connections of \<open>NewArch/In-Memory v2/mongoose.c\<close>, the network library this architecture
  patches and compiles into its program (\<open>iobuf.c\<close>, \<open>util.c\<close> and \<open>sock.c\<close> of it). Everything has the widths of the 32-bit
  target: \<open>size_t\<close> is \<open>u32\<close>, so sums of lengths wrap. An access outside the block a pointer points into is undefined;
  where the code can make one the model returns \<open>None\<close>.
\<close>

type_synonym u8 = "8 word"
type_synonym u16 = "16 word"

text \<open>The characters of a C string, and back.\<close>

definition text_of :: "u8 list \<Rightarrow> string" where
  "text_of = map (\<lambda>b. char_of (unat b))"

definition bytes_of :: "string \<Rightarrow> u8 list" where
  "bytes_of = map (\<lambda>c. of_nat (of_char c))"

definition c_string :: "u8 list \<Rightarrow> string" where
  "c_string b = text_of (takeWhile (\<lambda>x. x \<noteq> 0) b)"

section \<open>Memory\<close>

text \<open>
  What the coming allocations give: \<open>None\<close> no memory, \<open>Some f\<close> a block whose bytes are the indeterminate \<open>f\<close>. When the list
  has ended they succeed.
\<close>

type_synonym allocs = "(nat \<Rightarrow> u8) option list"

fun malloc :: "u32 \<Rightarrow> allocs \<Rightarrow> u8 list option \<times> allocs" where
  "malloc n [] = (Some (replicate (unat n) 0), [])"
| "malloc n (None # h) = (None, h)"
| "malloc n (Some f # h) = (Some (map f [0..<unat n]), h)"

text \<open>\<open>memcpy\<close> and \<open>memmove\<close> to an offset of a block.\<close>

definition store :: "nat \<Rightarrow> u8 list \<Rightarrow> u8 list \<Rightarrow> u8 list" where
  "store off xs block = take off block @ xs @ drop (off + length xs) block"

lemma length_store [simp]: "off + length xs \<le> length block \<Longrightarrow> length (store off xs block) = length block"
  by (simp add: store_def)

lemma take_store_low: "k \<le> off \<Longrightarrow> off \<le> length block \<Longrightarrow> take k (store off xs block) = take k block"
  by (simp add: store_def min_absorb1)

lemma take_store_end: "off \<le> length block \<Longrightarrow> take (off + length xs) (store off xs block) = take off block @ xs"
  by (simp add: store_def min_absorb2)

section \<open>Buffers\<close>

text \<open>A block of \<open>size\<close> bytes (none for the null pointer) of which the first \<open>len\<close> are in use.\<close>

record mg_iobuf =
  io_buf :: "u8 list"
  io_size :: u32
  io_len :: u32

definition mg_iobuf_resize :: "mg_iobuf \<Rightarrow> u32 \<Rightarrow> allocs \<Rightarrow> mg_iobuf \<times> allocs" where
  "mg_iobuf_resize io new_size h =
     (if new_size = 0 then (\<lparr>io_buf = [], io_size = 0, io_len = 0\<rparr>, h)
      else if new_size \<noteq> io_size io then
        (case malloc new_size h of
           (None, h') \<Rightarrow> (io, h')
         | (Some p, h') \<Rightarrow>
             (io\<lparr>io_buf := store 0 (take (unat (if io_size io < new_size then io_size io else new_size)) (io_buf io)) p,
                 io_size := new_size\<rparr>, h'))
      else (io, h))"

definition mg_iobuf_init :: "u32 \<Rightarrow> allocs \<Rightarrow> mg_iobuf \<times> allocs" where
  "mg_iobuf_init size0 h =
     (let io = \<lparr>io_buf = [], io_size = 0, io_len = 0\<rparr> in if size0 > 0 then mg_iobuf_resize io size0 h else (io, h))"

text \<open>The bytes at \<open>buf\<close>, \<open>None\<close> for the null pointer; the number of bytes appended comes first in the result.\<close>

definition mg_iobuf_append :: "mg_iobuf \<Rightarrow> u8 list option \<Rightarrow> u32 \<Rightarrow> u32 \<Rightarrow> allocs \<Rightarrow> u32 \<times> mg_iobuf \<times> allocs" where
  "mg_iobuf_append io buf len chunk_size h =
     (let new_size = io_len io + len + chunk_size;
          new_size = new_size - new_size mod chunk_size;
          (io1, h1) = (if new_size \<noteq> io_size io then mg_iobuf_resize io new_size h else (io, h));
          len = (if new_size \<noteq> io_size io1 then 0 else len);
          io2 = (case buf of None \<Rightarrow> io1
                 | Some b \<Rightarrow> io1\<lparr>io_buf := store (unat (io_len io1)) (take (unat len) b) (io_buf io1)\<rparr>)
      in (len, io2\<lparr>io_len := io_len io2 + len\<rparr>, h1))"

definition mg_iobuf_delete :: "mg_iobuf \<Rightarrow> u32 \<Rightarrow> u32 \<times> mg_iobuf" where
  "mg_iobuf_delete io len0 =
     (let len = (if len0 > io_len io then 0 else len0)
      in (len, io\<lparr>io_buf := store 0 (take (unat (io_len io - len)) (drop (unat len) (io_buf io))) (io_buf io),
                  io_len := io_len io - len\<rparr>))"

definition mg_iobuf_free :: "mg_iobuf \<Rightarrow> allocs \<Rightarrow> mg_iobuf \<times> allocs" where
  "mg_iobuf_free io h = mg_iobuf_init 0 h"

subsection \<open>A buffer is a queue of bytes\<close>

definition iobuf_ok :: "mg_iobuf \<Rightarrow> bool" where
  "iobuf_ok io \<longleftrightarrow> length (io_buf io) = unat (io_size io) \<and> io_len io \<le> io_size io"

definition content :: "mg_iobuf \<Rightarrow> u8 list" where
  "content io = take (unat (io_len io)) (io_buf io)"

lemma iobuf_ok_len: "iobuf_ok io \<Longrightarrow> unat (io_len io) \<le> length (io_buf io)"
  by (simp add: iobuf_ok_def word_le_nat_alt)

lemma length_content: "iobuf_ok io \<Longrightarrow> length (content io) = unat (io_len io)"
  using iobuf_ok_len by (simp add: content_def)

lemma empty_ok [simp]: "iobuf_ok \<lparr>io_buf = [], io_size = 0, io_len = 0\<rparr>" "content \<lparr>io_buf = [], io_size = 0, io_len = 0\<rparr> = []"
  by (simp_all add: iobuf_ok_def content_def)

text \<open>An allocation gives a block of the size asked for, or none.\<close>

lemma malloc_length: "malloc n h = (Some p, h') \<Longrightarrow> length p = unat n"
  by (cases h; cases "hd h") auto

lemma resize_keeps:
  assumes "iobuf_ok io" "io_len io \<le> n" "0 < n" "mg_iobuf_resize io n h = (io', h')"
  shows "iobuf_ok io'" "content io' = content io" "io_len io' = io_len io" "io_size io' = n \<or> io' = io"
proof -
  have n0: "n \<noteq> 0" using assms(3) by (simp add: word_gt_0)
  have "iobuf_ok io' \<and> content io' = content io \<and> io_len io' = io_len io \<and> (io_size io' = n \<or> io' = io)"
  proof (cases "\<exists>p. n \<noteq> io_size io \<and> malloc n h = (Some p, h')")
    case True
    then obtain p where p: "n \<noteq> io_size io" "malloc n h = (Some p, h')" by blast
    define k where "k = unat (if io_size io < n then io_size io else n)"
    have k: "k \<le> unat n" "k \<le> length (io_buf io)" "unat (io_len io) \<le> k"
      using assms(1,2) by (auto simp: k_def iobuf_ok_def word_le_nat_alt word_less_nat_alt)
    have io': "io' = io\<lparr>io_buf := store 0 (take k (io_buf io)) p, io_size := n\<rparr>"
      using assms(4) p n0 by (simp add: mg_iobuf_resize_def k_def)
    have "length p = unat n" by (rule malloc_length [OF p(2)])
    then show ?thesis using k assms(2) by (simp add: io' iobuf_ok_def content_def store_def min_absorb2)
  next
    case False
    then have "io' = io" using assms(4) n0
      by (auto simp: mg_iobuf_resize_def split: if_splits prod.splits option.splits)
    then show ?thesis using assms(1) by simp
  qed
  then show "iobuf_ok io'" "content io' = content io" "io_len io' = io_len io" "io_size io' = n \<or> io' = io" by blast+
qed

lemma resize_succeeds:
  assumes "mg_iobuf_resize io n [] = (io', h')"
  shows "io_size io' = n" "h' = []"
  using assms by (auto simp: mg_iobuf_resize_def split: if_splits)

text \<open>Rounding the wanted size up to a multiple of the chunk leaves room for one byte more at least.\<close>

lemma chunk_room:
  fixes c n m :: u32
  assumes "0 < c" "unat n + unat m + unat c < 2 ^ 32"
  defines "s \<equiv> n + m + c"
  shows "unat n + unat m < unat (s - s mod c)" "unat (s - s mod c) \<le> unat n + unat m + unat c"
proof -
  have "unat (n + m) = unat n + unat m" using assms(2) by (intro unat_add_lem [THEN iffD1]) simp
  then have s: "unat s = unat n + unat m + unat c"
    unfolding s_def using assms(2) by (subst unat_add_lem [THEN iffD1]) simp_all
  have "s mod c \<le> s" by (simp add: word_le_nat_alt unat_mod_distrib)
  then have e: "unat (s - s mod c) = unat s - unat s mod unat c" by (simp add: unat_sub unat_mod_distrib)
  have "unat s mod unat c < unat c" using assms(1) by (simp add: word_less_nat_alt)
  then show "unat n + unat m < unat (s - s mod c)" "unat (s - s mod c) \<le> unat n + unat m + unat c"
    using s e by linarith+
qed

lemma append_spec:
  assumes "iobuf_ok io" "0 < c" "unat (io_len io) + unat len + unat c < 2 ^ 32" "length b = unat len"
    "mg_iobuf_append io (Some b) len c h = (n, io', h')"
  shows "iobuf_ok io'" "n = len \<and> content io' = content io @ b \<or> n = 0 \<and> content io' = content io"
    "io_len io' = io_len io + n" "h = [] \<Longrightarrow> n = len \<and> h' = []"
proof -
  define s where "s = io_len io + len + c"
  define new where "new = s - s mod c"
  have room: "unat (io_len io) + unat len < unat new" using chunk_room(1) [OF assms(2,3)] by (simp add: new_def s_def)
  obtain io1 h1 where r: "(if new \<noteq> io_size io then mg_iobuf_resize io new h else (io, h)) = (io1, h1)"
    by (rule prod.exhaust)
  have le: "io_len io \<le> new" "0 < new" using room by (simp_all add: word_le_nat_alt word_less_nat_alt)
  have io1: "iobuf_ok io1" "content io1 = content io" "io_len io1 = io_len io"
    using r resize_keeps [OF assms(1) le] assms(1) by (auto split: if_splits)
  define l where "l = (if new \<noteq> io_size io1 then 0 else len)"
  have res: "n = l" "h' = h1"
    "io' = io1\<lparr>io_buf := store (unat (io_len io1)) (take (unat l) b) (io_buf io1), io_len := io_len io1 + l\<rparr>"
    using assms(5) r by (auto simp: mg_iobuf_append_def Let_def l_def s_def [symmetric] new_def [symmetric] cong: if_cong)
  have b: "length (take (unat l) b) = unat l" using assms(4) by (auto simp: l_def)
  have fit: "unat (io_len io1) + unat l \<le> length (io_buf io1)"
    using io1 room iobuf_ok_len [OF io1(1)] by (auto simp: l_def iobuf_ok_def)
  have sum: "unat (io_len io1 + l) = unat (io_len io1) + unat l"
    using fit io1(1) unat_u32_less [of "io_size io1"] by (intro unat_add_lem [THEN iffD1]) (simp add: iobuf_ok_def)
  show "iobuf_ok io'" using io1(1) fit b sum by (simp add: res(3) iobuf_ok_def word_le_nat_alt)
  have "content io' = content io1 @ take (unat l) b"
    using take_store_end [of "unat (io_len io1)" "io_buf io1" "take (unat l) b"] fit b sum by (simp add: res(3) content_def)
  then show "n = len \<and> content io' = content io @ b \<or> n = 0 \<and> content io' = content io"
    using assms(4) io1(2) by (auto simp: res(1) l_def)
  show "io_len io' = io_len io + n" by (simp add: res io1(3))
  show "n = len \<and> h' = []" if "h = []"
    using r that resize_succeeds [of io new io1 h1] by (auto simp: res l_def split: if_splits)
qed

lemma delete_spec:
  assumes "iobuf_ok io" "n \<le> io_len io"
  shows "iobuf_ok (snd (mg_iobuf_delete io n))" "content (snd (mg_iobuf_delete io n)) = drop (unat n) (content io)"
    "fst (mg_iobuf_delete io n) = n" "io_size (snd (mg_iobuf_delete io n)) = io_size io"
    "io_len (snd (mg_iobuf_delete io n)) = io_len io - n"
proof -
  have n: "\<not> n > io_len io" using assms(2) by simp
  have d: "unat (io_len io - n) = unat (io_len io) - unat n" by (rule unat_sub [OF assms(2)])
  note l = iobuf_ok_len [OF assms(1)]
  have len: "length (take (unat (io_len io - n)) (drop (unat n) (io_buf io))) = unat (io_len io - n)"
    using l d by simp
  have "io_len io - n \<le> io_size io" using assms by (auto simp: iobuf_ok_def word_le_nat_alt d)
  then show "iobuf_ok (snd (mg_iobuf_delete io n))"
    using assms(1) l d len by (simp add: mg_iobuf_delete_def n iobuf_ok_def)
  show "content (snd (mg_iobuf_delete io n)) = drop (unat n) (content io)"
    using take_store_end [of 0 "io_buf io" "take (unat (io_len io - n)) (drop (unat n) (io_buf io))"] len d
    by (simp add: mg_iobuf_delete_def n content_def drop_take)
qed (use assms(2) in \<open>simp_all add: mg_iobuf_delete_def not_less [symmetric]\<close>)

section \<open>Bytes\<close>

text \<open>A number in the memory of the little-endian target, and back; \<open>mg_htons\<close> and \<open>mg_htonl\<close> are these functions too.\<close>

definition le16 :: "u16 \<Rightarrow> u8 list" where
  "le16 w = [ucast w, ucast (drop_bit 8 w)]"

definition le32 :: "u32 \<Rightarrow> u8 list" where
  "le32 w = [ucast w, ucast (drop_bit 8 w), ucast (drop_bit 16 w), ucast (drop_bit 24 w)]"

definition mg_ntohl :: "u32 \<Rightarrow> u32" where
  "mg_ntohl net =
     (let d = le32 net
      in push_bit 0 (ucast (d ! 3)) OR push_bit 8 (ucast (d ! 2)) OR push_bit 16 (ucast (d ! 1)) OR push_bit 24 (ucast (d ! 0)))"

definition mg_ntohs :: "u16 \<Rightarrow> u16" where
  "mg_ntohs net = (let d = le16 net in ucast (push_bit 0 (ucast (d ! 1) :: u32) OR push_bit 8 (ucast (d ! 0))))"

text \<open>The number that a read of two or four bytes of a block gives.\<close>

definition read16 :: "u8 list \<Rightarrow> nat \<Rightarrow> u16" where
  "read16 buf i = ucast (buf ! i) OR push_bit 8 (ucast (buf ! (i + 1)))"

definition read32 :: "u8 list \<Rightarrow> nat \<Rightarrow> u32" where
  "read32 buf i = ucast (buf ! i) OR push_bit 8 (ucast (buf ! (i + 1))) OR push_bit 16 (ucast (buf ! (i + 2))) OR
     push_bit 24 (ucast (buf ! (i + 3)))"

lemma le_length [simp]: "length (le16 w) = 2" "length (le32 v) = 4"
  by (simp_all add: le16_def le32_def)

lemma bit_byte: "bit (push_bit k (ucast (ucast (drop_bit j w :: 'a::len word) :: u8)) :: 'b::len word) n \<longleftrightarrow>
    n < LENGTH('b) \<and> k \<le> n \<and> n < k + 8 \<and> bit w (n - k + j)"
  by (auto simp: bit_simps add.commute dest: bit_imp_le_length)

lemma octet: "(n::nat) < 32 \<Longrightarrow> n < 8 \<or> 8 \<le> n \<and> n < 16 \<or> 16 \<le> n \<and> n < 24 \<or> 24 \<le> n"
  by linarith

lemma read16_le16: "read16 (pre @ le16 w @ post) (length pre) = w"
  by (rule bit_word_eqI) (auto simp: read16_def le16_def nth_append bit_simps)

lemma read32_le32: "read32 (pre @ le32 w @ post) (length pre) = w"
proof (rule bit_word_eqI)
  fix n assume n: "n < LENGTH(32)"
  have "bit (read32 (pre @ le32 w @ post) (length pre)) n \<longleftrightarrow>
      n < 8 \<and> bit w n \<or> 8 \<le> n \<and> n < 16 \<and> bit w n \<or> 16 \<le> n \<and> n < 24 \<and> bit w n \<or> 24 \<le> n \<and> bit w n"
    using n bit_byte [of 0 0 w n, where 'b = 32]
    by (simp add: read32_def le32_def nth_append bit_or_iff bit_byte) auto
  then show "bit (read32 (pre @ le32 w @ post) (length pre)) n = bit w n"
    using octet [of n] n by auto
qed

lemma ntohs_ntohs [simp]: "mg_ntohs (mg_ntohs w) = w"
  by (rule bit_word_eqI) (auto simp: mg_ntohs_def le16_def Let_def bit_simps)

lemma bit_ntohl: "n < 32 \<Longrightarrow> bit (mg_ntohl w) n \<longleftrightarrow>
    bit w (if n < 8 then n + 24 else if n < 16 then n + 8 else if n < 24 then n - 8 else n - 24)"
proof -
  assume n: "n < 32"
  have e: "mg_ntohl w = push_bit 0 (ucast (ucast (drop_bit 24 w) :: u8)) OR push_bit 8 (ucast (ucast (drop_bit 16 w) :: u8)) OR
      push_bit 16 (ucast (ucast (drop_bit 8 w) :: u8)) OR push_bit 24 (ucast (ucast (drop_bit 0 w) :: u8))"
    by (simp add: mg_ntohl_def le32_def Let_def)
  from n consider "n < 8" | "8 \<le> n" "n < 16" | "16 \<le> n" "n < 24" | "24 \<le> n" using octet [of n] by auto
  then show ?thesis unfolding e bit_or_iff bit_byte by cases (use n in \<open>simp_all add: add.commute\<close>)
qed

lemma ntohl_ntohl [simp]: "mg_ntohl (mg_ntohl w) = w"
proof (rule bit_word_eqI)
  fix n assume n: "n < LENGTH(32)"
  then consider "n < 8" | "8 \<le> n" "n < 16" | "16 \<le> n" "n < 24" | "24 \<le> n" "n < 32" using octet [of n] by auto
  then show "bit (mg_ntohl (mg_ntohl w)) n = bit w n"
  proof cases
    case 3
    then have "\<not> n - 8 < 8" "n - 8 < 16" by linarith+
    with 3 show ?thesis by (simp add: bit_ntohl)
  next
    case 4
    then have "n - 24 < 8" by linarith
    with 4 show ?thesis by (simp add: bit_ntohl)
  qed (simp_all add: bit_ntohl)
qed

lemma read_at:
  "length pre = i \<Longrightarrow> read16 (pre @ le16 w @ post) i = w" "length pre = i \<Longrightarrow> read32 (pre @ le32 v @ post) i = v"
  by (auto simp: read16_le16 read32_le32)

end
