(* ===== verification/Fmma_Ws.thy ===== *)
theory Fmma_Ws
  imports Fmma_Iobuf
begin

text \<open>
  Websockets in \<open>NewArch/In-Memory v2/mongoose.c\<close>: what a connection buffers (\<open>sock.c\<close>), how frames are built, found in
  the received bytes and handed to the handler of the user (\<open>ws.c\<close>). The handler is a parameter. Connections are TCP
  connections; below TLS, the bytes are the decrypted ones. \<open>None\<close> is an access outside a block, undefined in C.
\<close>

section \<open>Connections\<close>

abbreviation MG_IO_SIZE :: u32 where "MG_IO_SIZE \<equiv> 512"
abbreviation MG_MAX_RECV_BUF_SIZE :: u32 where "MG_MAX_RECV_BUF_SIZE \<equiv> 3 * 1024 * 1024"
abbreviation WEBSOCKET_OP_TEXT :: u8 where "WEBSOCKET_OP_TEXT \<equiv> 1"
abbreviation WEBSOCKET_OP_CLOSE :: u8 where "WEBSOCKET_OP_CLOSE \<equiv> 8"
abbreviation WEBSOCKET_OP_PING :: u8 where "WEBSOCKET_OP_PING \<equiv> 9"
abbreviation WEBSOCKET_OP_PONG :: u8 where "WEBSOCKET_OP_PONG \<equiv> 10"
abbreviation WEBSOCKET_FLAGS_MASK_FIN :: u8 where "WEBSOCKET_FLAGS_MASK_FIN \<equiv> 128"
abbreviation WEBSOCKET_FLAGS_MASK_OP :: u8 where "WEBSOCKET_FLAGS_MASK_OP \<equiv> 15"

text \<open>The buffers and flags the code below uses, then what the allocator and the random device will give.\<close>

record mg_connection =
  c_recv :: mg_iobuf
  c_send :: mg_iobuf
  c_is_client :: bool
  c_is_websocket :: bool
  c_is_closing :: bool
  c_allocs :: allocs
  c_random :: "nat \<Rightarrow> u8"

text \<open>The events a handler sees; a message is a place in the receive buffer, its length and its flags.\<close>

datatype mg_event =
    MG_EV_ERROR string | MG_EV_POLL | MG_EV_RESOLVE | MG_EV_CONNECT | MG_EV_READ | MG_EV_WRITE | MG_EV_CLOSE
  | MG_EV_WS_OPEN | MG_EV_WS_MSG nat u32 u8

type_synonym 's handler = "mg_event \<Rightarrow> 's \<times> mg_connection \<Rightarrow> ('s \<times> mg_connection) option"

definition mg_random :: "nat \<Rightarrow> mg_connection \<Rightarrow> u8 list \<times> mg_connection" where
  "mg_random n c = (map (c_random c) [0..<n], c\<lparr>c_random := \<lambda>i. c_random c (i + n)\<rparr>)"

definition mg_send :: "mg_connection \<Rightarrow> u8 list \<Rightarrow> u32 \<Rightarrow> u32 \<times> mg_connection" where
  "mg_send c buf len =
     (case mg_iobuf_append (c_send c) (Some buf) len MG_IO_SIZE (c_allocs c) of
        (n, io, h) \<Rightarrow> (n, c\<lparr>c_send := io, c_allocs := h\<rparr>))"

section \<open>Frames\<close>

text \<open>\<open>p[i] ^= m[i & 3]\<close>, from \<open>i\<close> on.\<close>

fun xor_mask :: "u8 list \<Rightarrow> nat \<Rightarrow> u8 list \<Rightarrow> u8 list" where
  "xor_mask m i [] = []"
| "xor_mask m i (x # xs) = (x XOR m ! (i AND 3)) # xor_mask m (Suc i) xs"

text \<open>The loop over \<open>len\<close> bytes from an offset of the block.\<close>

definition mask_block :: "u8 list \<Rightarrow> nat \<Rightarrow> nat \<Rightarrow> u8 list \<Rightarrow> u8 list option" where
  "mask_block m off len block =
     (if len = 0 then Some block
      else if off + len \<le> length block then Some (store off (xor_mask m 0 (take len (drop off block))) block)
      else None)"

record ws_msg =
  ws_flags :: u8
  ws_header_len :: u32
  ws_data_len :: u32

definition ws_msg_zero :: ws_msg where
  "ws_msg_zero = \<lparr>ws_flags = 0, ws_header_len = 0, ws_data_len = 0\<rparr>"

text \<open>
  What the first bytes say. The cast to \<open>int\<close> binds to the shifted high half of a 64-bit length, whose low 32 bits are
  zero: the sum is the low half.
\<close>

definition ws_lengths :: "u8 list \<Rightarrow> u32 \<Rightarrow> ws_msg \<times> u32" where
  "ws_lengths buf len =
     (if 2 \<le> len then
        let n = ucast (buf ! 1 AND 0x7f) :: u32;
            mask_len = (if buf ! 1 AND WEBSOCKET_FLAGS_MASK_FIN \<noteq> 0 then 4 else 0) :: u32;
            msg = ws_msg_zero\<lparr>ws_flags := buf ! 0\<rparr>
        in (if n < 126 \<and> mask_len \<le> len then msg\<lparr>ws_data_len := n, ws_header_len := 2 + mask_len\<rparr>
            else if n = 126 \<and> 4 + mask_len \<le> len
              then msg\<lparr>ws_header_len := 4 + mask_len, ws_data_len := ucast (mg_ntohs (read16 buf 2))\<rparr>
            else if 10 + mask_len \<le> len
              then msg\<lparr>ws_header_len := 10 + mask_len,
                       ws_data_len := word_of_int (s32 (uint (push_bit 32 (ucast (mg_ntohl (read32 buf 2)) :: u64)))) +
                         mg_ntohl (read32 buf 6)\<rparr>
            else msg, mask_len)
      else (ws_msg_zero, 0))"

text \<open>The number of bytes consumed, the message, and the block with the data unmasked in place.\<close>

definition ws_process :: "u8 list \<Rightarrow> u32 \<Rightarrow> (u32 \<times> ws_msg \<times> u8 list) option" where
  "ws_process buf len =
     (case ws_lengths buf len of
        (msg, mask_len) \<Rightarrow>
          if ws_header_len msg + ws_data_len msg > len then Some (0, msg, buf)
          else
            let total = ws_header_len msg + ws_data_len msg
            in if mask_len > 0
               then map_option (\<lambda>b. (total, msg, b))
                 (mask_block (take 4 (drop (unat (ws_header_len msg - mask_len)) buf)) (unat (ws_header_len msg))
                    (unat (ws_data_len msg)) buf)
               else Some (total, msg, buf))"

definition ws_header :: "u32 \<Rightarrow> u8 \<Rightarrow> u8 list" where
  "ws_header len op =
     (op OR WEBSOCKET_FLAGS_MASK_FIN) #
     (if len < 126 then [ucast len]
      else if len < 65535 then 126 # le16 (mg_ntohs (ucast len))
      else 127 # le32 (mg_ntohl (ucast (drop_bit 32 (ucast len :: u64)))) @ le32 (mg_ntohl (len AND 0xffffffff)))"

text \<open>\<open>header[1] |= 1 << 7\<close> on a client.\<close>

definition client_header :: "bool \<Rightarrow> u8 list \<Rightarrow> u8 list" where
  "client_header client header = (if client then header[1 := header ! 1 OR push_bit 7 1] else header)"

text \<open>
  Header, mask, data, then the data masked where the send buffer now holds it. Its place is computed from the end
  of the buffer, also when an allocation failed and the data is not there.
\<close>

definition mg_ws_send :: "mg_connection \<Rightarrow> u8 list \<Rightarrow> u32 \<Rightarrow> u8 \<Rightarrow> (u32 \<times> mg_connection) option" where
  "mg_ws_send c buf len op =
     (let header = client_header (c_is_client c) (ws_header len op);
          header_len = word_of_nat (length header) :: u32;
          c = snd (mg_send c header header_len)
      in if c_is_client c then
           let (mk, c) = mg_random 4 c;
               c = snd (mg_send c mk 4);
               c = snd (mg_send c buf len)
           in (case mask_block mk (unat (io_len (c_send c) - len)) (unat len) (io_buf (c_send c)) of
                 None \<Rightarrow> None
               | Some b \<Rightarrow> Some (header_len + 4 + len, c\<lparr>c_send := (c_send c)\<lparr>io_buf := b\<rparr>\<rparr>))
         else Some (header_len + len, snd (mg_send c buf len)))"

section \<open>Receiving\<close>

text \<open>
  One turn of the loop over the frames in the receive buffer, and whether there is another. The data of a message
  stays where it was received; the handler may change the connection. A close frame ends the loop before its bytes are
  removed.
\<close>

definition ws_finish :: "u32 \<Rightarrow> 's \<times> mg_connection \<Rightarrow> bool \<times> 's \<times> mg_connection" where
  "ws_finish n sc = (True, fst sc, (snd sc)\<lparr>c_recv := snd (mg_iobuf_delete (c_recv (snd sc)) n)\<rparr>)"

definition ws_step :: "'s handler \<Rightarrow> 's \<times> mg_connection \<Rightarrow> (bool \<times> 's \<times> mg_connection) option" where
  "ws_step fn sc =
     (case sc of (s, c) \<Rightarrow>
       (case ws_process (io_buf (c_recv c)) (io_len (c_recv c)) of
          None \<Rightarrow> None
        | Some (n, msg, b) \<Rightarrow>
            let c1 = c\<lparr>c_recv := (c_recv c)\<lparr>io_buf := b\<rparr>\<rparr>;
                off = unat (ws_header_len msg);
                op = ws_flags msg AND WEBSOCKET_FLAGS_MASK_OP;
                total = ws_header_len msg + ws_data_len msg;
                evd = MG_EV_WS_MSG off (ws_data_len msg) (ws_flags msg)
            in if n = 0 then Some (False, s, c1)
               else if op = WEBSOCKET_OP_PING \<and> length b < off + unat (ws_data_len msg) then None
               else if op = WEBSOCKET_OP_PING then
                 map_option (\<lambda>(_, c2). ws_finish total (s, c2))
                   (mg_ws_send c1 (take (unat (ws_data_len msg)) (drop off b)) (ws_data_len msg) WEBSOCKET_OP_PONG)
               else if op = WEBSOCKET_OP_PONG then Some (ws_finish total (s, c1))
               else if op = WEBSOCKET_OP_CLOSE then
                 map_option (\<lambda>(s', c2). (False, s', c2\<lparr>c_is_closing := True\<rparr>)) (fn evd (s, c1))
               else map_option (ws_finish total) (fn evd (s, c1))))"

text \<open>The loop; \<open>None\<close>: undefined, or it does not return.\<close>

partial_function (option) ws_loop :: "'s handler \<Rightarrow> 's \<times> mg_connection \<Rightarrow> ('s \<times> mg_connection) option" where
  "ws_loop fn sc =
     (case ws_step fn sc of None \<Rightarrow> None | Some (go, sc') \<Rightarrow> if go then ws_loop fn sc' else Some sc')"

text \<open>The end of the HTTP answer to the upgrade request: its length, 0 when it is not complete, -1 when it is no text.\<close>

definition not_text :: "u8 \<Rightarrow> bool" where
  "not_text b \<longleftrightarrow> \<not> (0x20 \<le> b \<and> b \<le> 0x7e) \<and> b \<noteq> 13 \<and> b \<noteq> 10 \<and> b < 128"

definition request_ends :: "u8 list \<Rightarrow> nat \<Rightarrow> bool" where
  "request_ends buf i \<longleftrightarrow>
     i > 0 \<and> buf ! i = 10 \<and> buf ! (i - 1) = 10 \<or>
     i > 3 \<and> buf ! i = 10 \<and> buf ! (i - 1) = 13 \<and> buf ! (i - 2) = 10"

fun request_len_from :: "u8 list \<Rightarrow> nat \<Rightarrow> nat \<Rightarrow> int" where
  "request_len_from buf 0 i = 0"
| "request_len_from buf (Suc left) i =
     (if not_text (buf ! i) then - 1
      else if request_ends buf i then int i + 1
      else request_len_from buf left (Suc i))"

definition mg_http_get_request_len :: "u8 list \<Rightarrow> u32 \<Rightarrow> int" where
  "mg_http_get_request_len buf buf_len = request_len_from buf (unat buf_len) 0"

definition mg_ws_cb :: "'s handler \<Rightarrow> mg_event \<Rightarrow> 's \<times> mg_connection \<Rightarrow> ('s \<times> mg_connection) option" where
  "mg_ws_cb fn ev sc =
     (if ev \<noteq> MG_EV_READ then Some sc
      else case sc of (s, c) \<Rightarrow>
        if \<not> c_is_websocket c \<and> c_is_client c then
          let n = mg_http_get_request_len (io_buf (c_recv c)) (io_len (c_recv c))
          in if n < 0 then ws_loop fn (s, c\<lparr>c_is_closing := True\<rparr>)
             else if n > 0 then
               (case (if n < 15 \<or> take 3 (drop 9 (io_buf (c_recv c))) \<noteq> [0x31, 0x30, 0x31]
                      then Some (s, c\<lparr>c_is_closing := True\<rparr>)
                      else fn MG_EV_WS_OPEN (s, c\<lparr>c_is_websocket := True\<rparr>)) of
                  None \<Rightarrow> None
                | Some (s', c') \<Rightarrow> ws_loop fn (s', c'\<lparr>c_recv := snd (mg_iobuf_delete (c_recv c') (word_of_int n))\<rparr>))
             else Some (s, c)
        else ws_loop fn (s, c))"

text \<open>\<open>mg_call\<close> with the handlers of a websocket: the protocol's, then the user's.\<close>

definition mg_call :: "'s handler \<Rightarrow> mg_event \<Rightarrow> 's \<times> mg_connection \<Rightarrow> ('s \<times> mg_connection) option" where
  "mg_call fn ev sc = (case mg_ws_cb fn ev sc of None \<Rightarrow> None | Some sc' \<Rightarrow> fn ev sc')"

text \<open>
  A read: the socket gives \<open>got\<close>, cut to the room in the buffer, or fails. The number of bytes read comes first.
\<close>

definition read_conn :: "'s handler \<Rightarrow> u8 list \<Rightarrow> bool \<Rightarrow> 's \<times> mg_connection \<Rightarrow> (nat \<times> ('s \<times> mg_connection)) option" where
  "read_conn fn got fail sc =
     (case sc of (s, c) \<Rightarrow>
       let (io, h) = (if io_size (c_recv c) - io_len (c_recv c) < MG_IO_SIZE \<and> io_size (c_recv c) < MG_MAX_RECV_BUF_SIZE
                      then mg_iobuf_resize (c_recv c) (io_size (c_recv c) + MG_IO_SIZE) (c_allocs c)
                      else (c_recv c, c_allocs c));
           data = take (unat (io_size io - io_len io)) got;
           rc = length data
       in if rc > 0
          then map_option (Pair rc) (mg_call fn MG_EV_READ
            (s, c\<lparr>c_recv := io\<lparr>io_buf := store (unat (io_len io)) data (io_buf io), io_len := io_len io + word_of_nat rc\<rparr>,
                  c_allocs := h\<rparr>))
          else Some (0, (s, c\<lparr>c_recv := io, c_allocs := h, c_is_closing := c_is_closing c \<or> fail\<rparr>)))"

text \<open>A write of \<open>rc\<close> bytes, or a failure.\<close>

definition write_conn :: "'s handler \<Rightarrow> int \<Rightarrow> bool \<Rightarrow> 's \<times> mg_connection \<Rightarrow> ('s \<times> mg_connection) option" where
  "write_conn fn rc fail sc =
     (case sc of (s, c) \<Rightarrow>
       if rc > 0 then
         let io = snd (mg_iobuf_delete (c_send c) (word_of_int rc));
             (io, h) = (if io_len io = 0 then mg_iobuf_resize io 0 (c_allocs c) else (io, c_allocs c))
         in mg_call fn MG_EV_WRITE (s, c\<lparr>c_send := io, c_allocs := h\<rparr>)
       else Some (s, if fail then c\<lparr>c_is_closing := True\<rparr> else c))"

section \<open>Any frame is found whole\<close>

text \<open>The three forms of the length; a frame with a given form and, from a client, a mask.\<close>

datatype len_form = Short | Mid | Long

fun form_fits :: "len_form \<Rightarrow> nat \<Rightarrow> bool" where
  "form_fits Short n \<longleftrightarrow> n < 126"
| "form_fits Mid n \<longleftrightarrow> n < 2 ^ 16"
| "form_fits Long n \<longleftrightarrow> n < 2 ^ 31"

fun form_len :: "len_form \<Rightarrow> nat" where
  "form_len Short = 2"
| "form_len Mid = 4"
| "form_len Long = 10"

definition mask_bit :: "u8 list option \<Rightarrow> u8" where
  "mask_bit mk = (if mk = None then 0 else 128)"

definition mask_len :: "u8 list option \<Rightarrow> nat" where
  "mask_len mk = (if mk = None then 0 else 4)"

fun frame_lengths :: "len_form \<Rightarrow> u8 list option \<Rightarrow> u32 \<Rightarrow> u8 list" where
  "frame_lengths Short mk n = [ucast n OR mask_bit mk]"
| "frame_lengths Mid mk n = (126 OR mask_bit mk) # le16 (mg_ntohs (ucast n))"
| "frame_lengths Long mk n = (127 OR mask_bit mk) # le32 (mg_ntohl 0) @ le32 (mg_ntohl n)"

definition frame_body :: "u8 list option \<Rightarrow> u8 list \<Rightarrow> u8 list" where
  "frame_body mk payload = (case mk of None \<Rightarrow> payload | Some m \<Rightarrow> m @ xor_mask m 0 payload)"

definition ws_frame :: "len_form \<Rightarrow> u8 \<Rightarrow> u8 list option \<Rightarrow> u8 list \<Rightarrow> u8 list" where
  "ws_frame form flags mk payload =
     flags # frame_lengths form mk (word_of_nat (length payload)) @ frame_body mk payload"

definition frame_ok :: "len_form \<Rightarrow> u8 list option \<Rightarrow> u8 list \<Rightarrow> bool" where
  "frame_ok form mk payload \<longleftrightarrow> form_fits form (length payload) \<and> (\<forall>m. mk = Some m \<longrightarrow> length m = 4)"

lemma frame_ok_mask: "frame_ok form (Some m) payload \<Longrightarrow> length m = 4"
  by (simp add: frame_ok_def)

lemma frame_ok_small: "frame_ok form mk payload \<Longrightarrow> length payload < 2 ^ 31"
  by (cases form) (auto simp: frame_ok_def)

lemma xor_mask_length [simp]: "length (xor_mask m i xs) = length xs"
  by (induction m i xs rule: xor_mask.induct) auto

lemma xor_mask_twice [simp]: "xor_mask m i (xor_mask m i xs) = xs"
  by (induction m i xs rule: xor_mask.induct) (auto simp: xor.assoc)

lemma frame_lengths_length [simp]: "length (frame_lengths form mk n) + 1 = form_len form"
  "length (frame_lengths form mk n) = form_len form - 1"
  by (cases form; simp)+

lemma frame_length:
  "frame_ok form mk payload \<Longrightarrow> length (ws_frame form flags mk payload) = form_len form + mask_len mk + length payload"
  by (cases form; cases mk) (auto simp: ws_frame_def frame_body_def mask_len_def dest: frame_ok_mask)

lemma seven_bits:
  fixes x :: u8
  assumes "x < 128"
  shows "(x OR mask_bit mk) AND 0x7f = x" "(x OR mask_bit mk) AND 128 = mask_bit mk"
proof -
  have "take_bit 7 x = x" using assms by (simp add: word_unat_eq_iff unsigned_take_bit_eq take_bit_nat_eq_self word_less_nat_alt)
  then have b: "i < 7" if "bit x i" for i by (metis bit_take_bit_iff that)
  have low: "bit (127 :: u8) i \<longleftrightarrow> i < 7" and high: "bit (128 :: u8) i \<longleftrightarrow> i = 7" for i
    using bit_mask_iff [where 'a = "8 word", of 7 i] bit_exp_iff [where 'a = "8 word", of 7 i]
    by (auto simp: mask_eq_exp_minus_1)
  show "(x OR mask_bit mk) AND 0x7f = x"
    by (rule bit_word_eqI) (auto simp: mask_bit_def bit_and_iff bit_or_iff low high simp del: bit_numeral_word_iff dest: b)
  show "(x OR mask_bit mk) AND 128 = mask_bit mk"
    by (rule bit_word_eqI) (auto simp: mask_bit_def bit_and_iff bit_or_iff low high simp del: bit_numeral_word_iff dest: b)
qed

text \<open>What the header says, from \<open>k\<close> bytes of the frame.\<close>

definition header_known :: "len_form \<Rightarrow> u8 list option \<Rightarrow> nat \<Rightarrow> bool" where
  "header_known form mk k \<longleftrightarrow>
     (case form of Short \<Rightarrow> max 2 (mask_len mk) \<le> k | _ \<Rightarrow> form_len form + mask_len mk \<le> k)"

lemma ws_lengths_frame:
  fixes len :: u32
  assumes ok: "frame_ok form mk payload"
    and at: "\<And>i. i < unat len \<Longrightarrow> i < length (ws_frame form flags mk payload) \<Longrightarrow> block ! i = ws_frame form flags mk payload ! i"
  shows "ws_lengths block len =
    (if unat len < 2 then (ws_msg_zero, 0)
     else (if header_known form mk (unat len)
           then \<lparr>ws_flags = flags, ws_header_len = word_of_nat (form_len form + mask_len mk), ws_data_len = word_of_nat (length payload)\<rparr>
           else ws_msg_zero\<lparr>ws_flags := flags\<rparr>, word_of_nat (mask_len mk)))"
proof (cases "unat len < 2")
  case True
  then show ?thesis by (simp add: ws_lengths_def word_le_nat_alt)
next
  case False
  let ?f = "ws_frame form flags mk payload"
  have l: "length ?f = form_len form + mask_len mk + length payload" using frame_length [OF ok] .
  have b0: "block ! 0 = flags" using False at [of 0] by (simp add: ws_frame_def)
  have b1: "block ! Suc 0 = frame_lengths form mk (word_of_nat (length payload)) ! 0"
    using False at [of 1] l by (cases form) (simp_all add: ws_frame_def)
  have mz: "mask_bit mk \<noteq> 0 \<longleftrightarrow> mk \<noteq> None" by (simp add: mask_bit_def)
  show ?thesis
  proof (cases form)
    case Short
    then have n: "length payload < 126" using ok by (simp add: frame_ok_def)
    then have w: "(ucast (word_of_nat (length payload) :: u32) :: u8) < 128"
      "ucast (ucast (word_of_nat (length payload) :: u32) :: u8) = (word_of_nat (length payload) :: u32)"
      "(word_of_nat (length payload) :: u32) < 126"
      by (simp_all add: word_less_nat_alt unsigned_of_nat take_bit_nat_eq_self word_unat_eq_iff unsigned_ucast_eq)
    show ?thesis using False b0 b1 seven_bits [OF w(1), of mk] w
      by (simp add: Short ws_lengths_def Let_def mz mask_len_def header_known_def word_le_nat_alt ws_msg_zero_def)
  next
    case Mid
    then have n: "length payload < 2 ^ 16" using ok by (simp add: frame_ok_def)
    have r: "read16 block 2 = mg_ntohs (ucast (word_of_nat (length payload) :: u32))" if "4 \<le> unat len"
    proof -
      have "read16 block 2 = read16 ?f 2" using that at l by (simp add: read16_def Mid)
      then show ?thesis
        using read_at(1) [of "[flags, 126 OR mask_bit mk]" 2] by (simp add: ws_frame_def Mid)
    qed
    have w: "ucast (ucast (word_of_nat (length payload) :: u32) :: u16) = (word_of_nat (length payload) :: u32)"
      using n by (simp add: unsigned_of_nat take_bit_nat_eq_self word_unat_eq_iff unsigned_ucast_eq)
    show ?thesis using False b0 b1 seven_bits [of 126 mk] w r
      by (simp add: Mid ws_lengths_def Let_def mz mask_len_def header_known_def word_le_nat_alt ws_msg_zero_def)
  next
    case Long
    then have n: "length payload < 2 ^ 31" using ok by (simp add: frame_ok_def)
    have r: "read32 block 2 = mg_ntohl 0" "read32 block 6 = mg_ntohl (word_of_nat (length payload))" if "10 \<le> unat len"
    proof -
      have "read32 block 2 = read32 ?f 2" "read32 block 6 = read32 ?f 6" using that at l by (simp_all add: read32_def Long)
      then show "read32 block 2 = mg_ntohl 0" "read32 block 6 = mg_ntohl (word_of_nat (length payload))"
        using read_at(2) [of "[flags, 127 OR mask_bit mk]" 2] read_at(2) [of "[flags, 127 OR mask_bit mk] @ le32 (mg_ntohl 0)" 6]
        by (simp_all add: ws_frame_def Long)
    qed
    show ?thesis using False b0 b1 seven_bits [of 127 mk] r
      by (simp add: Long ws_lengths_def Let_def mz mask_len_def header_known_def word_le_nat_alt ws_msg_zero_def s32_def)
  qed
qed

text \<open>The place of the data in a frame.\<close>

abbreviation data_at :: "len_form \<Rightarrow> u8 list option \<Rightarrow> nat" where
  "data_at form mk \<equiv> form_len form + mask_len mk"

lemma data_at_bounds: "data_at form mk \<le> 14" "2 \<le> data_at form mk"
  by (cases form; simp add: mask_len_def)+

lemma frame_drop: "drop (data_at form mk) (ws_frame form flags mk payload @ rest) =
    (case mk of None \<Rightarrow> payload | Some m \<Rightarrow> xor_mask m 0 payload) @ rest" if "frame_ok form mk payload"
  using that by (cases form; cases mk) (auto simp: ws_frame_def frame_body_def mask_len_def drop_Cons' dest: frame_ok_mask)

lemma frame_mask: "take 4 (drop (form_len form) (ws_frame form flags (Some m) payload @ rest)) = m"
  if "frame_ok form (Some m) payload"
  using that by (cases form) (auto simp: ws_frame_def frame_body_def drop_Cons' dest: frame_ok_mask)

lemma ws_process_whole:
  fixes len :: u32
  assumes ok: "frame_ok form mk payload"
    and le: "length (ws_frame form flags mk payload) \<le> unat len"
  defines "f \<equiv> ws_frame form flags mk payload"
  shows "ws_process (f @ rest) len =
    Some (word_of_nat (length f),
      \<lparr>ws_flags = flags, ws_header_len = word_of_nat (data_at form mk), ws_data_len = word_of_nat (length payload)\<rparr>,
      take (data_at form mk) f @ payload @ rest)"
proof -
  have l: "length f = data_at form mk + length payload" unfolding f_def using frame_length [OF ok] .
  have len: "length f < 2 ^ 32" using le unat_u32_less [of len] by (simp add: f_def)
  have two: "\<not> unat len < 2" "header_known form mk (unat len)"
    using le l data_at_bounds [of form mk] by (auto simp: f_def [symmetric] header_known_def split: len_form.splits)
  have h: "ws_lengths (f @ rest) len = (\<lparr>ws_flags = flags, ws_header_len = word_of_nat (data_at form mk),
      ws_data_len = word_of_nat (length payload)\<rparr>, word_of_nat (mask_len mk))"
    using ws_lengths_frame [where len = len and block = "f @ rest" and flags = flags, OF ok] two by (simp add: f_def nth_append)
  have sum: "word_of_nat (data_at form mk) + word_of_nat (length payload) = (word_of_nat (length f) :: u32)"
    using l by simp
  have "\<not> word_of_nat (length f) > len" using le len by (simp add: word_less_nat_alt unat_of_nat_u32 f_def)
  note step = h sum this
  have d: "drop (data_at form mk) (f @ rest) = (case mk of None \<Rightarrow> payload | Some m \<Rightarrow> xor_mask m 0 payload) @ rest"
    unfolding f_def by (rule frame_drop [OF ok])
  have tk: "take (data_at form mk) (f @ rest) = take (data_at form mk) f" using l by simp
  show ?thesis
  proof (cases mk)
    case None
    then have "take (data_at form mk) f @ payload @ rest = f @ rest"
      by (metis append_take_drop_id tk d option.case(1))
    then show ?thesis using step None by (simp add: ws_process_def mask_len_def)
  next
    case (Some m)
    have small: "unat (word_of_nat (data_at form mk) :: u32) = data_at form mk"
      "unat (word_of_nat (length payload) :: u32) = length payload"
      by (rule unat_of_nat_u32; use l len in linarith)+
    have m: "take 4 (drop (unat (word_of_nat (data_at form mk) - 4 :: u32)) (f @ rest)) = m"
      using frame_mask [of form m payload flags rest] ok
      by (cases form) (simp_all add: Some f_def mask_len_def)
    have "mask_block m (data_at form mk) (length payload) (f @ rest) = Some (take (data_at form mk) f @ payload @ rest)"
      using d l tk append_take_drop_id [of "data_at form mk" "f @ rest"] by (auto simp: mask_block_def store_def Some)
    then show ?thesis using step m small by (simp add: ws_process_def Some mask_len_def Let_def)
  qed
qed

lemma ws_process_partial:
  fixes len :: u32
  assumes ok: "frame_ok form mk payload"
    and at: "\<And>i. i < unat len \<Longrightarrow> block ! i = ws_frame form flags mk payload ! i"
    and le: "unat len < length (ws_frame form flags mk payload)"
  shows "\<exists>msg. ws_process block len = Some (0, msg, block)"
proof -
  have h: "ws_lengths block len =
    (if unat len < 2 then (ws_msg_zero, 0)
     else (if header_known form mk (unat len)
           then \<lparr>ws_flags = flags, ws_header_len = word_of_nat (data_at form mk), ws_data_len = word_of_nat (length payload)\<rparr>
           else ws_msg_zero\<lparr>ws_flags := flags\<rparr>, word_of_nat (mask_len mk)))"
    using at by (intro ws_lengths_frame [OF ok])
  show ?thesis
  proof (cases "2 \<le> unat len \<and> header_known form mk (unat len)")
    case True
    have "data_at form mk + length payload < 2 ^ 32"
      using frame_ok_small [OF ok] data_at_bounds [of form mk] by simp
    then have "word_of_nat (data_at form mk) + word_of_nat (length payload) > len"
      using le frame_length [OF ok, of flags] unat_of_nat_u32 [of "data_at form mk + length payload"]
      by (simp add: word_less_nat_alt)
    then show ?thesis using True h by (simp add: ws_process_def)
  next
    case False
    then show ?thesis using h by (auto simp: ws_process_def ws_msg_zero_def mask_block_def)
  qed
qed

section \<open>Sending builds a frame\<close>

text \<open>Room for \<open>n\<close> more bytes, and memory.\<close>

definition can_send :: "nat \<Rightarrow> mg_connection \<Rightarrow> bool" where
  "can_send n c \<longleftrightarrow> iobuf_ok (c_send c) \<and> c_allocs c = [] \<and> unat (io_len (c_send c)) + n + 512 < 2 ^ 32"

definition same_input :: "mg_connection \<Rightarrow> mg_connection \<Rightarrow> bool" where
  "same_input c c' \<longleftrightarrow> c_recv c' = c_recv c \<and> c_is_client c' = c_is_client c \<and> c_is_websocket c' = c_is_websocket c \<and>
     c_is_closing c' = c_is_closing c \<and> c_allocs c' = c_allocs c"

text \<open>\<open>c'\<close> is \<open>c\<close> after these bytes went into the send buffer.\<close>

definition has_sent :: "u8 list \<Rightarrow> mg_connection \<Rightarrow> mg_connection \<Rightarrow> bool" where
  "has_sent xs c c' \<longleftrightarrow> iobuf_ok (c_send c') \<and> content (c_send c') = content (c_send c) @ xs \<and>
     unat (io_len (c_send c')) = unat (io_len (c_send c)) + length xs \<and> same_input c c'"

lemma sent_can_send: "has_sent xs c c' \<Longrightarrow> can_send (length xs + n) c \<Longrightarrow> can_send n c'"
  by (auto simp: has_sent_def can_send_def same_input_def)

lemma sent_trans: "has_sent xs c c1 \<Longrightarrow> has_sent ys c1 c2 \<Longrightarrow> has_sent (xs @ ys) c c2"
  by (simp add: has_sent_def same_input_def)

lemma mg_send_sent:
  assumes "can_send (unat len) c" "length buf = unat len"
  shows "has_sent buf c (snd (mg_send c buf len))"
proof -
  obtain n io h where a: "mg_iobuf_append (c_send c) (Some buf) len MG_IO_SIZE [] = (n, io, h)" by (metis prod_cases3)
  have c: "iobuf_ok (c_send c)" "c_allocs c = []" "unat (io_len (c_send c)) + unat len + unat (512 :: u32) < 2 ^ 32"
    using assms(1) by (simp_all add: can_send_def)
  note sp = append_spec [OF c(1) _ c(3) assms(2) a]
  have n: "n = len" "h = []" using sp(4) by simp_all
  have ok: "iobuf_ok io" using sp(1) by simp
  have ct: "content io = content (c_send c) @ buf" using sp(2) assms(2) n by auto
  have "length (content io) = unat (io_len io)" by (rule length_content [OF ok])
  then have "unat (io_len io) = unat (io_len (c_send c)) + length buf"
    using ct length_content [OF c(1)] by simp
  moreover have "mg_send c buf len = (len, c\<lparr>c_send := io\<rparr>)" using a n c(2) by (simp add: mg_send_def)
  ultimately show ?thesis using ok ct by (simp add: has_sent_def same_input_def)
qed

lemma mg_random_sent: "mg_random n c = (m, c') \<Longrightarrow> can_send k c \<Longrightarrow> length m = n \<and> has_sent [] c c'"
  by (auto simp: mg_random_def has_sent_def can_send_def same_input_def)

definition send_form :: "u32 \<Rightarrow> len_form" where
  "send_form len = (if len < 126 then Short else if len < 65535 then Mid else Long)"

lemma client_header_frame:
  assumes "unat len < 2 ^ 31"
  shows "client_header client (ws_header len op) = (op OR 128) # frame_lengths (send_form len) (if client then Some m else None) len"
proof -
  have "push_bit 7 1 = (128 :: u8)" by simp
  moreover have "drop_bit 32 (ucast len :: u64) = 0" by (rule bit_word_eqI) (auto simp: bit_simps dest: bit_imp_le_length)
  moreover have all: "(0xffffffff :: u32) = - 1" by simp
  ultimately show ?thesis
    by (simp add: client_header_def ws_header_def send_form_def mask_bit_def all)
qed

lemma send_form_ok: "unat len < 2 ^ 31 \<Longrightarrow> length buf = unat len \<Longrightarrow> (\<And>m. mk = Some m \<Longrightarrow> length m = 4) \<Longrightarrow> frame_ok (send_form len) mk buf"
  by (auto simp: frame_ok_def send_form_def word_less_nat_alt)

lemma mask_tail:
  assumes "iobuf_ok io" "content io = pre @ buf"
  obtains b where "mask_block m (length pre) (length buf) (io_buf io) = Some b"
    "iobuf_ok (io\<lparr>io_buf := b\<rparr>)" "content (io\<lparr>io_buf := b\<rparr>) = pre @ xor_mask m 0 buf"
proof -
  define junk where "junk = drop (unat (io_len io)) (io_buf io)"
  have e: "io_buf io = pre @ buf @ junk"
    unfolding junk_def using assms(2) by (metis append.assoc append_take_drop_id content_def)
  have l: "unat (io_len io) = length pre + length buf" using length_content [OF assms(1)] assms(2) by simp
  have "mask_block m (length pre) (length buf) (io_buf io) = Some (pre @ xor_mask m 0 buf @ junk)"
    by (simp add: mask_block_def e store_def)
  moreover have "iobuf_ok (io\<lparr>io_buf := pre @ xor_mask m 0 buf @ junk\<rparr>)" using assms(1) e by (simp add: iobuf_ok_def)
  moreover have "content (io\<lparr>io_buf := pre @ xor_mask m 0 buf @ junk\<rparr>) = pre @ xor_mask m 0 buf"
    by (simp add: content_def l)
  ultimately show thesis by (rule that)
qed

lemma masked_sent:
  assumes "has_sent (pre @ buf) c c'" "length buf = unat len"
  obtains b where "mask_block m (unat (io_len (c_send c') - len)) (unat len) (io_buf (c_send c')) = Some b"
    "has_sent (pre @ xor_mask m 0 buf) c (c'\<lparr>c_send := (c_send c')\<lparr>io_buf := b\<rparr>\<rparr>)"
proof -
  have c: "iobuf_ok (c_send c')" "content (c_send c') = (content (c_send c) @ pre) @ buf" using assms(1) by (simp_all add: has_sent_def)
  obtain b where b: "mask_block m (length (content (c_send c) @ pre)) (length buf) (io_buf (c_send c')) = Some b"
    "iobuf_ok ((c_send c')\<lparr>io_buf := b\<rparr>)" "content ((c_send c')\<lparr>io_buf := b\<rparr>) = (content (c_send c) @ pre) @ xor_mask m 0 buf"
    by (rule mask_tail [OF c, of m])
  have l: "unat (io_len (c_send c')) = length (content (c_send c) @ pre) + unat len"
    using length_content [OF c(1)] c(2) assms(2) by simp
  then have "len \<le> io_len (c_send c')" by (simp add: word_le_nat_alt)
  then have "unat (io_len (c_send c') - len) = length (content (c_send c) @ pre)" using l by (simp add: unat_sub)
  then show thesis using that [of b] b assms by (simp add: has_sent_def same_input_def)
qed

lemma mg_ws_send_sent:
  fixes op :: u8 and len :: u32
  assumes room: "can_send (unat len + 14) c" and buf: "length buf = unat len" "unat len < 2 ^ 31"
  defines "form \<equiv> send_form len" and "fl \<equiv> op OR WEBSOCKET_FLAGS_MASK_FIN"
  obtains mk c' where "frame_ok form mk buf" "mk \<noteq> None \<longleftrightarrow> c_is_client c" "has_sent (ws_frame form fl mk buf) c c'"
    "mg_ws_send c buf len op = Some (word_of_nat (length (ws_frame form fl mk buf)), c')"
proof -
  define head where "head = client_header (c_is_client c) (ws_header len op)"
  have hd: "head = fl # frame_lengths form (if c_is_client c then Some m else None) len" for m
    unfolding head_def form_def fl_def by (rule client_header_frame [OF buf(2)])
  have hl: "length head = form_len form" "length head \<le> 10" using hd [of "[]"] by (cases form; simp)+
  have hw: "length head = unat (word_of_nat (length head) :: u32)" using hl by (simp add: unat_of_nat_u32)
  define c1 where "c1 = snd (mg_send c head (word_of_nat (length head)))"
  have s1: "has_sent head c c1" unfolding c1_def
    by (rule mg_send_sent) (use room hl hw in \<open>auto simp: can_send_def\<close>)
  have room1: "can_send (unat len + 4) c1"
    by (rule sent_can_send [OF s1]) (use room hl in \<open>auto simp: can_send_def\<close>)
  have lw: "word_of_nat (length buf) = len" using buf(1) by simp
  note unf = mg_ws_send_def [of c buf len op, folded head_def, unfolded Let_def, folded c1_def]
  have cl: "c_is_client c1 = c_is_client c" using s1 by (simp add: has_sent_def same_input_def)
  show thesis
  proof (cases "c_is_client c")
    case False
    define c2 where "c2 = snd (mg_send c1 buf len)"
    have s2: "has_sent buf c1 c2" unfolding c2_def by (rule mg_send_sent) (use room1 buf in \<open>auto simp: can_send_def\<close>)
    have fr: "ws_frame form fl None buf = head @ buf" using hd [of "[]"] lw False by (simp add: ws_frame_def frame_body_def)
    show thesis
    proof (rule that [where mk = None and c' = c2])
      show "frame_ok form None buf" unfolding form_def using buf by (intro send_form_ok) simp_all
      show "has_sent (ws_frame form fl None buf) c c2" unfolding fr by (rule sent_trans [OF s1 s2])
    qed (use False cl fr lw in \<open>simp_all add: unf c2_def\<close>)
  next
    case True
    obtain m c2 where r: "mg_random 4 c1 = (m, c2)" by (rule prod.exhaust)
    have m: "length m = 4" "has_sent [] c1 c2" using mg_random_sent [OF r room1] by simp_all
    define c3 where "c3 = snd (mg_send c2 m 4)"
    have s3: "has_sent m c2 c3" unfolding c3_def
      by (rule mg_send_sent) (use sent_can_send [OF m(2), of "unat len + 4"] room1 m in \<open>auto simp: can_send_def\<close>)
    have pre: "has_sent (head @ m) c c3" using sent_trans [OF s1 sent_trans [OF m(2) s3]] by simp
    define c4 where "c4 = snd (mg_send c3 buf len)"
    have "can_send (unat len) c3"
      by (rule sent_can_send [OF pre]) (use room hl m in \<open>auto simp: can_send_def\<close>)
    then have s4: "has_sent ((head @ m) @ buf) c c4" unfolding c4_def by (intro sent_trans [OF pre] mg_send_sent buf)
    obtain b where b: "mask_block m (unat (io_len (c_send c4) - len)) (unat len) (io_buf (c_send c4)) = Some b"
      "has_sent ((head @ m) @ xor_mask m 0 buf) c (c4\<lparr>c_send := (c_send c4)\<lparr>io_buf := b\<rparr>\<rparr>)"
      by (rule masked_sent [OF s4 buf(1)])
    have fr: "ws_frame form fl (Some m) buf = (head @ m) @ xor_mask m 0 buf"
      using hd [of m] lw True by (simp add: ws_frame_def frame_body_def)
    show thesis
    proof (rule that [where mk = "Some m"])
      show "frame_ok form (Some m) buf" unfolding form_def using buf m(1) by (intro send_form_ok) simp_all
      show "has_sent (ws_frame form fl (Some m) buf) c (c4\<lparr>c_send := (c_send c4)\<lparr>io_buf := b\<rparr>\<rparr>)" unfolding fr by (rule b(2))
      show "mg_ws_send c buf len op = Some (word_of_nat (length (ws_frame form fl (Some m) buf)), c4\<lparr>c_send := (c_send c4)\<lparr>io_buf := b\<rparr>\<rparr>)"
        using True cl r b(1) m(1) lw by (simp add: fr unf c3_def [symmetric] c4_def [symmetric] add.assoc)
    qed (use True in simp)
  qed
qed

section \<open>Round trip\<close>


definition idle_client :: mg_connection where
  "idle_client = \<lparr>c_recv = \<lparr>io_buf = [], io_size = 0, io_len = 0\<rparr>, c_send = \<lparr>io_buf = [], io_size = 0, io_len = 0\<rparr>,
     c_is_client = True, c_is_websocket = False, c_is_closing = False, c_allocs = [], c_random = \<lambda>i. word_of_nat (i + 1)\<rparr>"


text \<open>
  A length that wraps: a frame of 10 bytes whose 64-bit length is \<open>2 ^ 32 - 1\<close> passes the check, since on the target the sum of
  header and data is 9; the handler gets data of 4 GB in a block of 10 bytes. With a mask, unmasking leaves the block.
  A length of \<open>2 ^ 32\<close> loses its high half.
\<close>

lemma ws_length_wraps:
  "ws_process [0x81, 127, 0, 0, 0, 0, 0xff, 0xff, 0xff, 0xff] 10 =
     Some (9, \<lparr>ws_flags = 0x81, ws_header_len = 10, ws_data_len = 0xffffffff\<rparr>, [0x81, 127, 0, 0, 0, 0, 0xff, 0xff, 0xff, 0xff])"
  "ws_process [0x81, 0xff, 0, 0, 0, 0, 0xff, 0xff, 0xff, 0xff, 1, 2, 3, 4] 14 = None"
  "ws_process [0x81, 127, 0, 0, 0, 1, 0, 0, 0, 5, 1, 2, 3, 4, 5] 15 =
     Some (15, \<lparr>ws_flags = 0x81, ws_header_len = 10, ws_data_len = 5\<rparr>, [0x81, 127, 0, 0, 0, 1, 0, 0, 0, 5, 1, 2, 3, 4, 5])"
  by (simp_all add: ws_process_def ws_lengths_def ws_msg_zero_def read32_def mg_ntohl_def le32_def mask_block_def s32_def Let_def)

end
