(* ===== verification/Fmma_Wire.thy ===== *)
theory Fmma_Wire
  imports Fmma_Ws Fmma_Stream
begin

text \<open>
  The stream over its transport. A locale states what the websocket layer may assume of a handler; inside it the layer is
  shown to deliver the messages of the peer whole and in order, however the bytes are cut into reads. \<open>coinbase_cb\<close> of
  \<open>MarketStream.c\<close>, with the library's calls it makes, is an instance.
\<close>

section \<open>The answer to the upgrade request\<close>

definition answer_ok :: "u8 list \<Rightarrow> bool" where
  "answer_ok r \<longleftrightarrow> request_len_from r (length r) 0 = int (length r) \<and> 15 \<le> length r \<and> take 3 (drop 9 r) = [0x31, 0x30, 0x31]"

lemma request_len_cong:
  "(\<And>j. j < i + n \<Longrightarrow> a ! j = b ! j) \<Longrightarrow> request_len_from a n i = request_len_from b n i"
proof (induction n arbitrary: i)
  case (Suc n)
  have "a ! i = b ! i" "a ! (i - 1) = b ! (i - 1)" "a ! (i - 2) = b ! (i - 2)" using Suc.prems by simp_all
  moreover have "request_len_from a n (Suc i) = request_len_from b n (Suc i)" using Suc.prems by (intro Suc.IH) simp
  ultimately show ?case by (simp add: request_ends_def)
qed simp

text \<open>The scan stops where it stops: less is not complete, more does not matter.\<close>

lemma request_len_stops:
  assumes "request_len_from r n i = int (i + n)" "0 < n"
  shows "request_len_from r m i = (if m < n then 0 else int (i + n))"
  using assms
proof (induction m arbitrary: i n)
  case (Suc m)
  obtain k where n: "n = Suc k" using Suc.prems(2) by (cases n) auto
  show ?case
  proof (cases "not_text (r ! i) \<or> request_ends r i")
    case True
    then show ?thesis using Suc.prems by (auto simp: n split: if_splits)
  next
    case False
    then have "request_len_from r k (Suc i) = int (Suc i + k)" using Suc.prems by (simp add: n)
    moreover from this have "0 < k" by (cases k) auto
    ultimately show ?thesis using Suc.IH [of k "Suc i"] False by (simp add: n)
  qed
qed simp

lemma answer_length:
  assumes "answer_ok r" "\<And>j. j < unat len \<Longrightarrow> j < length r \<Longrightarrow> b ! j = r ! j"
  shows "mg_http_get_request_len b len = (if unat len < length r then 0 else int (length r))"
proof -
  have r: "request_len_from r (length r) 0 = int (0 + length r)" "0 < length r" using assms(1) by (auto simp: answer_ok_def)
  show ?thesis
  proof (cases "unat len < length r")
    case True
    then have "request_len_from b (unat len) 0 = request_len_from r (unat len) 0" using assms(2) by (intro request_len_cong) simp
    then show ?thesis using request_len_stops [OF r, of "unat len"] True by (simp add: mg_http_get_request_len_def)
  next
    case False
    have "request_len_from b (length r) 0 = request_len_from r (length r) 0" using assms(2) False by (intro request_len_cong) simp
    then have "request_len_from b (length r) 0 = int (0 + length r)" using r by simp
    from request_len_stops [OF this r(2), of "unat len"] show ?thesis using False by (simp add: mg_http_get_request_len_def)
  qed
qed

section \<open>Handlers\<close>

text \<open>A message of the peer: the form of its length, its flags, its data. Control frames are left out.\<close>

type_synonym message = "len_form \<times> u8 \<times> u8 list"

fun message_bytes :: "message \<Rightarrow> u8 list" where
  "message_bytes (form, flags, payload) = ws_frame form flags None payload"

fun message_ok :: "message \<Rightarrow> bool" where
  "message_ok (form, flags, payload) \<longleftrightarrow>
     frame_ok form None payload \<and> length payload < 2 ^ 20 \<and>
     flags AND WEBSOCKET_FLAGS_MASK_OP \<notin> {WEBSOCKET_OP_CLOSE, WEBSOCKET_OP_PING, WEBSOCKET_OP_PONG}"

text \<open>
  The contract: a handler treats a message as a function of its bytes and leaves the connection alone, answers the opening
  of the websocket by sending at most, within some room, and ignores reads.
\<close>

locale ws_handler =
  fixes fn :: "'s handler" and on_msg :: "u8 list \<Rightarrow> 's \<Rightarrow> 's option" and on_open :: "'s \<Rightarrow> 's" and greeting :: "u8 list"
  assumes msg: "off + unat len \<le> length (io_buf (c_recv c)) \<Longrightarrow> unat len < 2 ^ 20 \<Longrightarrow> c_allocs c = [] \<Longrightarrow>
      fn (MG_EV_WS_MSG off len flags) (s, c) =
        map_option (\<lambda>s'. (s', c)) (on_msg (take (unat len) (drop off (io_buf (c_recv c)))) s)"
    and opened: "can_send (length greeting + 14) c \<Longrightarrow> c_is_client c \<Longrightarrow>
      \<exists>c' m. fn MG_EV_WS_OPEN (s, c) = Some (on_open s, c') \<and> length m = 4 \<and>
        has_sent (ws_frame (send_form (word_of_nat (length greeting))) 0x81 (Some m) greeting) c c'"
    and read: "fn MG_EV_READ (s, c) = Some (s, c)"
begin

primrec deliver :: "message list \<Rightarrow> 's \<Rightarrow> 's option" where
  "deliver [] s = Some s"
| "deliver (m # ms) s = (case on_msg (snd (snd m)) s of None \<Rightarrow> None | Some s' \<Rightarrow> deliver ms s')"

lemma deliver_append: "deliver (ms @ ns) s = (case deliver ms s of None \<Rightarrow> None | Some s' \<Rightarrow> deliver ns s')"
  by (induction ms arbitrary: s) (auto split: option.splits)

end

section \<open>The loop delivers what has arrived whole\<close>

text \<open>The start of a frame, not all of it.\<close>

definition partial_frame :: "u8 list \<Rightarrow> bool" where
  "partial_frame p \<longleftrightarrow> (\<exists>m. message_ok m \<and> length p < length (message_bytes m) \<and> p = take (length p) (message_bytes m))"

lemma partial_Nil: "partial_frame []"
proof -
  have "message_ok (Short, 1, [])" by (simp add: frame_ok_def)
  moreover have "length (message_bytes (Short, 1, [])) = 2"
    using frame_length [of Short None "[]" 1] by (simp add: frame_ok_def mask_len_def)
  ultimately show ?thesis unfolding partial_frame_def by (intro exI [of _ "(Short, 1, [])"]) simp
qed

lemma message_length:
  "message_ok m \<Longrightarrow> length (message_bytes m) = form_len (fst m) + length (snd (snd m)) \<and> length (message_bytes m) < 2 ^ 21"
  using data_at_bounds [of "fst m" None] by (cases m) (auto simp: frame_length mask_len_def)

lemma nth_content: "iobuf_ok io \<Longrightarrow> j < unat (io_len io) \<Longrightarrow> io_buf io ! j = content io ! j"
  by (simp add: content_def)

lemma step_stops:
  assumes "iobuf_ok (c_recv c)" "partial_frame (content (c_recv c))"
  shows "ws_step fn (s, c) = Some (False, s, c)"
proof -
  obtain form flags payload where m: "message_ok (form, flags, payload)"
    "length (content (c_recv c)) < length (message_bytes (form, flags, payload))"
    "content (c_recv c) = take (length (content (c_recv c))) (message_bytes (form, flags, payload))"
    using assms(2) unfolding partial_frame_def by (metis prod_cases3)
  have l: "length (content (c_recv c)) = unat (io_len (c_recv c))" by (rule length_content [OF assms(1)])
  have "\<exists>msg. ws_process (io_buf (c_recv c)) (io_len (c_recv c)) = Some (0, msg, io_buf (c_recv c))"
  proof (rule ws_process_partial)
    show "frame_ok form None payload" using m(1) by simp
    show "io_buf (c_recv c) ! i = ws_frame form flags None payload ! i" if "i < unat (io_len (c_recv c))" for i
      using nth_content [OF assms(1) that] m(3) l that by (metis message_bytes.simps nth_take)
    show "unat (io_len (c_recv c)) < length (ws_frame form flags None payload)" using m(2) l by simp
  qed
  then show ?thesis by (auto simp: ws_step_def)
qed

context ws_handler
begin

lemma step_delivers:
  assumes ok: "iobuf_ok (c_recv c)" "c_allocs c = []" and m: "message_ok m" and ct: "content (c_recv c) = message_bytes m @ rest"
    and on: "on_msg (snd (snd m)) s = Some s'"
  obtains io where "ws_step fn (s, c) = Some (True, s', c\<lparr>c_recv := io\<rparr>)" "iobuf_ok io" "content io = rest"
    "io_size io = io_size (c_recv c)"
proof -
  obtain form flags payload where mm: "m = (form, flags, payload)" by (rule prod_cases3)
  define f where "f = ws_frame form flags None payload"
  define junk where "junk = drop (unat (io_len (c_recv c))) (io_buf (c_recv c))"
  have fo: "frame_ok form None payload" "length payload < 2 ^ 20" using m by (simp_all add: mm)
  have buf: "io_buf (c_recv c) = f @ rest @ junk"
    using ct append_take_drop_id [of "unat (io_len (c_recv c))" "io_buf (c_recv c)"]
    by (simp add: content_def mm f_def [symmetric] junk_def [symmetric])
  have l: "length f = form_len form + length payload" using frame_length [OF fo(1), of flags] by (simp add: f_def mask_len_def)
  have le: "length f \<le> unat (io_len (c_recv c))" using length_content [OF ok(1)] ct by (simp add: mm f_def)
  have small: "unat (word_of_nat (form_len form) :: u32) = form_len form" "unat (word_of_nat (length payload) :: u32) = length payload"
    using fo(2) data_at_bounds [of form None] by (intro unat_of_nat_u32; simp add: mask_len_def)+
  have ff: "take (form_len form) f @ payload = f"
    using frame_drop [OF fo(1), of flags "[]"] append_take_drop_id [of "form_len form" f] by (simp add: f_def mask_len_def)
  then have "take (form_len form) f @ payload @ rest @ junk = f @ rest @ junk" by (metis append.assoc)
  with ws_process_whole [OF fo(1), of flags "io_len (c_recv c)" "rest @ junk"] le
  have p: "ws_process (io_buf (c_recv c)) (io_len (c_recv c)) =
      Some (word_of_nat (length f), \<lparr>ws_flags = flags, ws_header_len = word_of_nat (form_len form),
        ws_data_len = word_of_nat (length payload)\<rparr>, io_buf (c_recv c))"
    by (simp add: buf f_def [symmetric] mask_len_def)
  have "take (length payload) (drop (form_len form) (io_buf (c_recv c))) = payload"
    using frame_drop [OF fo(1), of flags "rest @ junk"] by (simp add: buf f_def [symmetric] mask_len_def)
  then have fn: "fn (MG_EV_WS_MSG (form_len form) (word_of_nat (length payload)) flags) (s, c) = Some (s', c)"
    using msg [of "form_len form" "word_of_nat (length payload)" c flags s] small fo(2) ok(2) on buf l
    by (simp add: mm)
  have sum: "word_of_nat (form_len form) + word_of_nat (length payload) = (word_of_nat (length f) :: u32)" using l by simp
  have nz: "word_of_nat (length f) \<noteq> (0 :: u32)" and un: "unat (word_of_nat (length f) :: u32) = length f"
    using unat_of_nat_u32 [of "length f"] l fo(2) data_at_bounds [of form None] by (auto simp: mask_len_def unat_eq_zero)
  define io where "io = snd (mg_iobuf_delete (c_recv c) (word_of_nat (length f)))"
  have d: "iobuf_ok io" "content io = rest" "io_size io = io_size (c_recv c)"
    using delete_spec [OF ok(1), of "word_of_nat (length f)"] le un ct by (simp_all add: io_def word_le_nat_alt mm f_def)
  have "ws_step fn (s, c) = Some (True, s', c\<lparr>c_recv := io\<rparr>)"
    using m nz fn sum small(1) by (simp add: ws_step_def p mm Let_def ws_finish_def io_def)
  from that [OF this d] show thesis .
qed

lemma loop_delivers:
  assumes "iobuf_ok (c_recv c)" "c_allocs c = []" "\<forall>m \<in> set ms. message_ok m"
    "content (c_recv c) = concat (map message_bytes ms) @ p" "partial_frame p" "deliver ms s = Some s'"
  shows "\<exists>io. ws_loop fn (s, c) = Some (s', c\<lparr>c_recv := io\<rparr>) \<and> iobuf_ok io \<and> content io = p \<and> io_size io = io_size (c_recv c)"
  using assms
proof (induction ms arbitrary: s c)
  case Nil
  then have "ws_step fn (s, c) = Some (False, s, c)" by (intro step_stops) simp_all
  then have "ws_loop fn (s, c) = Some (s', c\<lparr>c_recv := c_recv c\<rparr>)" using Nil.prems(6) by (subst ws_loop.simps) simp
  then show ?case using Nil.prems by (intro exI [of _ "c_recv c"]) simp
next
  case (Cons m ms)
  obtain s1 where s1: "on_msg (snd (snd m)) s = Some s1" "deliver ms s1 = Some s'"
    using Cons.prems(6) by (auto split: option.splits)
  have mo: "message_ok m" and ct: "content (c_recv c) = message_bytes m @ (concat (map message_bytes ms) @ p)"
    using Cons.prems(3,4) by simp_all
  obtain io where io: "ws_step fn (s, c) = Some (True, s1, c\<lparr>c_recv := io\<rparr>)" "iobuf_ok io"
    "content io = concat (map message_bytes ms) @ p" "io_size io = io_size (c_recv c)"
    by (rule step_delivers [OF Cons.prems(1,2) mo ct s1(1)])
  obtain io' where "ws_loop fn (s1, c\<lparr>c_recv := io\<rparr>) = Some (s', c\<lparr>c_recv := io'\<rparr>)" "iobuf_ok io'" "content io' = p"
    "io_size io' = io_size io"
    using Cons.IH [of "c\<lparr>c_recv := io\<rparr>" s1] Cons.prems io s1(2) by auto
  then show ?case using io by (subst ws_loop.simps) auto
qed

end

section \<open>Reads\<close>

text \<open>What has arrived of the messages still to be delivered: a beginning of the first.\<close>

definition arrives :: "u8 list \<Rightarrow> message list \<Rightarrow> u8 list \<Rightarrow> bool" where
  "arrives p ms wire \<longleftrightarrow> p @ wire = concat (map message_bytes ms) \<and> (ms \<noteq> [] \<longrightarrow> length p < length (message_bytes (hd ms)))"

lemma cut_end: "arrives p ms [] \<Longrightarrow> ms = [] \<and> p = []"
  by (cases ms) (auto simp: arrives_def)

lemma cut_partial: "arrives p ms wire \<Longrightarrow> \<forall>m \<in> set ms. message_ok m \<Longrightarrow> partial_frame p"
proof (cases ms)
  case (Cons m ns)
  assume "arrives p ms wire" "\<forall>m \<in> set ms. message_ok m"
  then have c: "p @ wire = message_bytes m @ concat (map message_bytes ns)" "length p < length (message_bytes m)" "message_ok m"
    by (simp_all add: arrives_def Cons)
  have "take (length p) (p @ wire) = take (length p) (message_bytes m)" unfolding c(1) using c(2) by simp
  then show ?thesis using c(2,3) unfolding partial_frame_def by (intro exI [of _ m]) simp
qed (simp add: arrives_def partial_Nil)

lemma cut_small: "arrives p ms wire \<Longrightarrow> \<forall>m \<in> set ms. message_ok m \<Longrightarrow> length p < 2 ^ 21"
  using message_length by (cases ms) (fastforce simp: arrives_def)+

lemma split_arrived:
  assumes "x @ y = concat (map message_bytes ms)"
  shows "\<exists>as bs p. ms = as @ bs \<and> x = concat (map message_bytes as) @ p \<and> arrives p bs y"
  using assms
proof (induction ms arbitrary: x)
  case Nil
  then show ?case by (simp add: arrives_def)
next
  case (Cons m ms)
  show ?case
  proof (cases "length x < length (message_bytes m)")
    case True
    then show ?thesis using Cons.prems by (intro exI [of _ "[]"] exI [of _ "m # ms"] exI [of _ x]) (simp add: arrives_def)
  next
    case False
    define z where "z = drop (length (message_bytes m)) x"
    have "take (length (message_bytes m)) (x @ y) = message_bytes m" using Cons.prems by simp
    then have z: "x = message_bytes m @ z"
      using False append_take_drop_id [of "length (message_bytes m)" x] by (simp add: z_def)
    then have z: "x = message_bytes m @ z" "z @ y = concat (map message_bytes ms)" using Cons.prems by simp_all
    obtain as bs p where "ms = as @ bs" "z = concat (map message_bytes as) @ p" "arrives p bs y" using Cons.IH [OF z(2)] by blast
    then show ?thesis using z(1) by (intro exI [of _ "m # as"] exI [of _ bs] exI [of _ p]) simp
  qed
qed

text \<open>The buffer grows before a read when less than 512 bytes are free.\<close>

definition read_room :: "mg_connection \<Rightarrow> mg_iobuf \<times> allocs" where
  "read_room c = (if io_size (c_recv c) - io_len (c_recv c) < MG_IO_SIZE \<and> io_size (c_recv c) < MG_MAX_RECV_BUF_SIZE
                  then mg_iobuf_resize (c_recv c) (io_size (c_recv c) + MG_IO_SIZE) (c_allocs c)
                  else (c_recv c, c_allocs c))"

lemma read_room_spec:
  assumes "iobuf_ok (c_recv c)" "c_allocs c = []" "length (content (c_recv c)) < 2 ^ 21"
  obtains io where "read_room c = (io, [])" "iobuf_ok io" "content io = content (c_recv c)" "io_len io = io_len (c_recv c)"
    "512 \<le> unat (io_size io - io_len io)"
proof -
  have l: "io_len (c_recv c) \<le> io_size (c_recv c)" using assms(1) by (simp add: iobuf_ok_def)
  have len: "unat (io_len (c_recv c)) < 2 ^ 21" using assms(3) length_content [OF assms(1)] by simp
  show thesis
  proof (cases "io_size (c_recv c) - io_len (c_recv c) < 512 \<and> io_size (c_recv c) < MG_MAX_RECV_BUF_SIZE")
    case True
    define n where "n = io_size (c_recv c) + 512"
    have n: "unat n = unat (io_size (c_recv c)) + 512" unfolding n_def
      using True by (subst unat_add_lem [THEN iffD1]) (simp_all add: word_less_nat_alt)
    obtain io h where r: "mg_iobuf_resize (c_recv c) n [] = (io, h)" by (rule prod.exhaust)
    have le: "io_len (c_recv c) \<le> n" "0 < n" using n l by (simp_all add: word_le_nat_alt word_less_nat_alt)
    note k = resize_keeps [OF assms(1) le r] and t = resize_succeeds [OF r]
    have "io_len io \<le> io_size io" using k(1) by (simp add: iobuf_ok_def)
    then have "512 \<le> unat (io_size io - io_len io)" using n l k(3) t(1) by (simp add: unat_sub word_le_nat_alt)
    then show thesis using that [of io] True r k t assms(2) by (simp add: read_room_def n_def)
  next
    case False
    have "512 \<le> unat (io_size (c_recv c) - io_len (c_recv c))"
      using False len l by (auto simp: word_less_nat_alt unat_sub word_le_nat_alt)
    moreover have "read_room c = (c_recv c, [])" unfolding read_room_def if_not_P [OF False] assms(2) ..
    ultimately show thesis using that [of "c_recv c"] assms(1) by simp
  qed
qed

lemma read_conn_data:
  assumes "iobuf_ok (c_recv c)" "c_allocs c = []" "length (content (c_recv c)) < 2 ^ 21" "got \<noteq> []"
  obtains io data rest where "got = data @ rest" "data \<noteq> []" "iobuf_ok io" "content io = content (c_recv c) @ data"
    "read_conn fn got False (s, c) = map_option (Pair (length data)) (mg_call fn MG_EV_READ (s, c\<lparr>c_recv := io\<rparr>))"
proof -
  obtain io where io: "read_room c = (io, [])" "iobuf_ok io" "content io = content (c_recv c)" "io_len io = io_len (c_recv c)"
    "512 \<le> unat (io_size io - io_len io)"
    by (rule read_room_spec [OF assms(1-3)])
  define data where "data = take (unat (io_size io - io_len io)) got"
  have ne: "data \<noteq> []" using io(5) assms(4) by (auto simp: data_def)
  have le: "io_len io \<le> io_size io" using io(2) by (simp add: iobuf_ok_def)
  have "length data \<le> unat (io_size io - io_len io)" by (simp add: data_def)
  then have fit: "unat (io_len io) + length data \<le> length (io_buf io)"
    using io(2) le by (auto simp: iobuf_ok_def unat_sub word_le_nat_alt)
  then have small: "unat (io_len io) + length data < 2 ^ 32" using io(2) unat_u32_less [of "io_size io"] by (simp add: iobuf_ok_def)
  then have w: "unat (word_of_nat (length data) :: u32) = length data" by (intro unat_of_nat_u32) simp
  then have sum: "unat (io_len io + word_of_nat (length data)) = unat (io_len io) + length data"
    using small by (subst unat_add_lem [THEN iffD1]) simp_all
  have same: "c\<lparr>c_recv := i, c_allocs := []\<rparr> = c\<lparr>c_recv := i\<rparr>" for i using assms(2) by (cases c) simp
  define io' where "io' = io\<lparr>io_buf := store (unat (io_len io)) data (io_buf io), io_len := io_len io + word_of_nat (length data)\<rparr>"
  have "iobuf_ok io'" using io(2) fit sum by (simp add: io'_def iobuf_ok_def word_le_nat_alt)
  moreover have "content io' = content (c_recv c) @ data"
    using take_store_end [of "unat (io_len io)" "io_buf io" data] fit sum io(3) by (simp add: io'_def content_def)
  moreover have "read_conn fn got False (s, c) =
      map_option (Pair (length data)) (mg_call fn MG_EV_READ (s, c\<lparr>c_recv := io'\<rparr>))"
    using ne unfolding read_conn_def prod.case read_room_def [symmetric] io(1) Let_def data_def [symmetric] io'_def [symmetric]
    by (simp add: same)
  moreover have "got = data @ drop (unat (io_size io - io_len io)) got" by (simp add: data_def)
  ultimately show thesis using that ne by blast
qed

text \<open>The socket: each number is the most that the next read gets of the bytes on the wire.\<close>

primrec pump :: "'s handler \<Rightarrow> nat list \<Rightarrow> ('s \<times> mg_connection) \<times> u8 list \<Rightarrow> (('s \<times> mg_connection) \<times> u8 list) option" where
  "pump fn [] x = Some x"
| "pump fn (k # ks) x =
     (case read_conn fn (take k (snd x)) False (fst x) of
        None \<Rightarrow> None | Some (rc, sc) \<Rightarrow> pump fn ks (sc, drop rc (snd x)))"

context ws_handler
begin

text \<open>
  Before the answer is complete nothing was delivered; after it the greeting is sent and the state is that of the messages that
  are no longer in the buffer or on the wire.
\<close>

definition greeted :: "mg_connection \<Rightarrow> mg_connection \<Rightarrow> bool" where
  "greeted c0 c \<longleftrightarrow> (\<exists>m. length m = 4 \<and>
     content (c_send c) = content (c_send c0) @ ws_frame (send_form (word_of_nat (length greeting))) 0x81 (Some m) greeting)"

definition shaking :: "mg_connection \<Rightarrow> 's \<Rightarrow> u8 list \<Rightarrow> u8 list \<Rightarrow> 's \<Rightarrow> mg_connection \<Rightarrow> u8 list \<Rightarrow> bool" where
  "shaking c0 s0 r bytes s c wire \<longleftrightarrow> \<not> c_is_websocket c \<and> c_is_client c \<and> s = s0 \<and> c_send c = c_send c0 \<and>
     length (content (c_recv c)) < length r \<and> content (c_recv c) @ wire = r @ bytes"

definition streaming :: "mg_connection \<Rightarrow> 's \<Rightarrow> message list \<Rightarrow> 's \<Rightarrow> mg_connection \<Rightarrow> u8 list \<Rightarrow> bool" where
  "streaming c0 s0 ms s c wire \<longleftrightarrow> c_is_websocket c \<and> greeted c0 c \<and>
     (\<exists>as bs. ms = as @ bs \<and> deliver as (on_open s0) = Some s \<and> arrives (content (c_recv c)) bs wire)"

definition receiving :: "mg_connection \<Rightarrow> bool" where
  "receiving c \<longleftrightarrow> iobuf_ok (c_recv c) \<and> c_allocs c = []"

lemma deliver_more:
  assumes "streaming c0 s0 ms s c wire" "receiving c" "\<forall>m \<in> set ms. message_ok m" "deliver ms (on_open s0) = Some sf"
    "iobuf_ok io" "content io @ wire' = content (c_recv c) @ wire"
  shows "\<exists>s' io'. ws_loop fn (s, c\<lparr>c_recv := io\<rparr>) = Some (s', c\<lparr>c_recv := io'\<rparr>) \<and> iobuf_ok io' \<and>
    streaming c0 s0 ms s' (c\<lparr>c_recv := io'\<rparr>) wire'"
proof -
  obtain as bs where ab: "ms = as @ bs" "deliver as (on_open s0) = Some s" "arrives (content (c_recv c)) bs wire"
    using assms(1) by (auto simp: streaming_def)
  have "content io @ wire' = concat (map message_bytes bs)" using ab(3) assms(6) by (simp add: arrives_def)
  then obtain ds es p where de: "bs = ds @ es" "content io = concat (map message_bytes ds) @ p" "arrives p es wire'"
    using split_arrived by blast
  obtain s' where s': "deliver ds s = Some s'"
    using assms(4) ab(2) by (auto simp: ab(1) de(1) deliver_append split: option.splits)
  have "partial_frame p" using cut_partial [OF de(3)] assms(3) by (simp add: ab(1) de(1))
  then obtain io' where io': "ws_loop fn (s, c\<lparr>c_recv := io\<rparr>) = Some (s', c\<lparr>c_recv := io'\<rparr>)" "iobuf_ok io'" "content io' = p"
    using loop_delivers [of "c\<lparr>c_recv := io\<rparr>" ds p s s'] assms(2,3,5) de(2) s' by (auto simp: receiving_def ab(1) de(1))
  have "deliver (as @ ds) (on_open s0) = Some s'" using ab(2) s' by (simp add: deliver_append)
  then have "streaming c0 s0 ms s' (c\<lparr>c_recv := io'\<rparr>) wire'"
    using assms(1) ab(1) de(1,3) io'(3) unfolding streaming_def greeted_def
    by (intro conjI exI [of _ "as @ ds"] exI [of _ es]) simp_all
  then show ?thesis using io'(1,2) by blast
qed

lemma open_websocket:
  assumes "shaking c0 s0 r (concat (map message_bytes ms)) s c wire" "receiving c" "answer_ok r" "\<forall>m \<in> set ms. message_ok m"
    "deliver ms (on_open s0) = Some sf" "can_send (length greeting + 14) c" "iobuf_ok io" "content io @ wire' = content (c_recv c) @ wire"
    "length r \<le> length (content io)"
  shows "\<exists>s' c'. mg_ws_cb fn MG_EV_READ (s, c\<lparr>c_recv := io\<rparr>) = Some (s', c') \<and> receiving c' \<and> streaming c0 s0 ms s' c' wire'"
proof -
  have op: "\<not> c_is_websocket c" "c_is_client c" "s = s0" "c_send c = c_send c0"
    and ct: "content io @ wire' = r @ concat (map message_bytes ms)"
    using assms(1,8) by (simp_all add: shaking_def)
  define x where "x = drop (length r) (content io)"
  have "take (length r) (content io @ wire') = r" unfolding ct by simp
  then have x: "content io = r @ x" using assms(9) append_take_drop_id [of "length r" "content io"] by (simp add: x_def)
  have l: "unat (io_len io) = length r + length x" using length_content [OF assms(7)] x by simp
  have at: "io_buf io ! j = r ! j" if "j < length r" for j
    using nth_content [OF assms(7)] l that x by (simp add: nth_append)
  have n: "mg_http_get_request_len (io_buf io) (io_len io) = int (length r)"
    using answer_length [OF assms(3), of "io_len io" "io_buf io"] at l by simp
  have r: "15 \<le> length r" "take 3 (drop 9 r) = [0x31, 0x30, 0x31]" using assms(3) by (simp_all add: answer_ok_def)
  have "io_buf io = r @ x @ drop (unat (io_len io)) (io_buf io)"
    using x by (metis append.assoc append_take_drop_id content_def)
  then have "take 3 (drop 9 (io_buf io)) = take 3 (drop 9 (r @ x @ drop (unat (io_len io)) (io_buf io)))" by simp
  also have "\<dots> = [0x31, 0x30, 0x31]" using r by simp
  finally have code: "take 3 (drop 9 (io_buf io)) = [0x31, 0x30, 0x31]" .
  have "can_send (length greeting + 14) (c\<lparr>c_recv := io, c_is_websocket := True\<rparr>)" using assms(6) by (simp add: can_send_def)
  then obtain c1 m where c1: "fn MG_EV_WS_OPEN (s, c\<lparr>c_recv := io, c_is_websocket := True\<rparr>) = Some (on_open s, c1)"
    "length m = 4" "has_sent (ws_frame (send_form (word_of_nat (length greeting))) 0x81 (Some m) greeting)
      (c\<lparr>c_recv := io, c_is_websocket := True\<rparr>) c1"
    using opened op(2) by fastforce
  define io1 where "io1 = snd (mg_iobuf_delete (c_recv c1) (word_of_int (int (length r))))"
  have rec: "c_recv c1 = io" "c_is_websocket c1" "c_allocs c1 = []" using c1(3) assms(2) by (simp_all add: has_sent_def same_input_def receiving_def)
  have lr: "unat (word_of_int (int (length r)) :: u32) = length r"
    using unat_of_nat_u32 [of "length r"] l unat_u32_less [of "io_len io"] by simp
  have io1: "iobuf_ok io1" "content io1 = x"
    using delete_spec [OF assms(7), of "word_of_int (int (length r))"] lr l x rec(1) by (simp_all add: io1_def word_le_nat_alt)
  have "x @ wire' = concat (map message_bytes ms)" using ct x by simp
  have "greeted c0 c1" unfolding greeted_def using c1(2,3) op(4) by (intro exI [of _ m]) (simp add: has_sent_def)
  define c2 where "c2 = c1\<lparr>c_recv := \<lparr>io_buf = [], io_size = 0, io_len = 0\<rparr>\<rparr>"
  have gr: "greeted c0 c2" using \<open>greeted c0 c1\<close> by (simp add: greeted_def c2_def)
  have "arrives [] ms (concat (map message_bytes ms))"
    by (cases "hd ms") (simp add: arrives_def ws_frame_def)
  then have "streaming c0 s0 ms (on_open s) c2 (concat (map message_bytes ms))"
    using rec(2) gr op(3) unfolding streaming_def
    by (intro conjI exI [of _ "[]"] exI [of _ ms]) (simp_all add: c2_def)
  from deliver_more [OF this _ assms(4,5) io1(1), of wire'] \<open>x @ wire' = _\<close> rec(3)
  obtain s' io' where d: "ws_loop fn (on_open s, c1\<lparr>c_recv := io1\<rparr>) = Some (s', c1\<lparr>c_recv := io'\<rparr>)" "iobuf_ok io'"
    "streaming c0 s0 ms s' (c1\<lparr>c_recv := io'\<rparr>) wire'"
    by (auto simp: c2_def receiving_def io1(2))
  have "r \<noteq> []" using r(1) by auto
  have "mg_ws_cb fn MG_EV_READ (s, c\<lparr>c_recv := io\<rparr>) = Some (s', c1\<lparr>c_recv := io'\<rparr>)"
    using op(1,2) n r(1) \<open>r \<noteq> []\<close> code c1(1) d(1) by (simp add: mg_ws_cb_def io1_def Let_def)
  then show ?thesis using d(2,3) rec(3) by (auto simp: receiving_def)
qed

definition progress :: "mg_connection \<Rightarrow> 's \<Rightarrow> u8 list \<Rightarrow> message list \<Rightarrow> 's \<Rightarrow> mg_connection \<Rightarrow> u8 list \<Rightarrow> bool" where
  "progress c0 s0 r ms s c wire \<longleftrightarrow> receiving c \<and>
     (shaking c0 s0 r (concat (map message_bytes ms)) s c wire \<or> streaming c0 s0 ms s c wire)"

lemma read_progress:
  assumes "progress c0 s0 r ms s c wire" "wire \<noteq> []" "0 < k" "answer_ok r" "length r < 2 ^ 21" "\<forall>m \<in> set ms. message_ok m"
    "deliver ms (on_open s0) = Some sf" "can_send (length greeting + 14) c0"
  shows "\<exists>rc s' c'. read_conn fn (take k wire) False (s, c) = Some (rc, (s', c')) \<and> 0 < rc \<and>
    progress c0 s0 r ms s' c' (drop rc wire)"
proof -
  have rv: "iobuf_ok (c_recv c)" "c_allocs c = []" using assms(1) by (simp_all add: progress_def receiving_def)
  have small: "length (content (c_recv c)) < 2 ^ 21"
    using assms(1,5,6) cut_small by (auto simp: progress_def shaking_def streaming_def)
  obtain io data rest where d: "take k wire = data @ rest" "data \<noteq> []" "iobuf_ok io" "content io = content (c_recv c) @ data"
    "read_conn fn (take k wire) False (s, c) = map_option (Pair (length data)) (mg_call fn MG_EV_READ (s, c\<lparr>c_recv := io\<rparr>))"
    by (rule read_conn_data [OF rv small, of "take k wire"]) (use assms(2,3) in auto)
  have "wire = data @ drop (length data) wire"
    using d(1) append_take_drop_id [of k wire] by (metis append.assoc append_eq_conv_conj)
  then have ct: "content io @ drop (length data) wire = content (c_recv c) @ wire" using d(4) by (metis append.assoc)
  have "\<exists>s' c'. mg_ws_cb fn MG_EV_READ (s, c\<lparr>c_recv := io\<rparr>) = Some (s', c') \<and> progress c0 s0 r ms s' c' (drop (length data) wire)"
  proof (cases "streaming c0 s0 ms s c wire")
    case True
    have "receiving c" using rv by (simp add: receiving_def)
    from deliver_more [OF True this assms(6,7) d(3) ct] obtain s' io' where
      "ws_loop fn (s, c\<lparr>c_recv := io\<rparr>) = Some (s', c\<lparr>c_recv := io'\<rparr>)" "iobuf_ok io'"
      "streaming c0 s0 ms s' (c\<lparr>c_recv := io'\<rparr>) (drop (length data) wire)" by blast
    then show ?thesis using True rv(2) by (auto simp: mg_ws_cb_def streaming_def progress_def receiving_def)
  next
    case False
    then have sh: "shaking c0 s0 r (concat (map message_bytes ms)) s c wire" using assms(1) by (simp add: progress_def)
    show ?thesis
    proof (cases "length r \<le> length (content io)")
      case True
      have "can_send (length greeting + 14) c" using assms(8) sh rv(2) by (simp add: can_send_def shaking_def)
      from open_websocket [OF sh _ assms(4,6,7) this d(3) ct True] show ?thesis
        using rv by (auto simp: receiving_def progress_def)
    next
      case False
      have at: "io_buf io ! j = r ! j" if "j < unat (io_len io)" "j < length r" for j
      proof -
        have "j < length (content io)" using that(1) length_content [OF d(3)] by simp
        then have "content io ! j = (r @ concat (map message_bytes ms)) ! j"
          using sh ct by (metis nth_append shaking_def)
        then show ?thesis using nth_content [OF d(3) that(1)] that(2) by (simp add: nth_append)
      qed
      have "mg_http_get_request_len (io_buf io) (io_len io) = 0"
        using answer_length [OF assms(4), of "io_len io" "io_buf io"] at False length_content [OF d(3)] by simp
      then show ?thesis using sh False d(3) ct rv(2)
        by (auto simp: mg_ws_cb_def shaking_def progress_def receiving_def)
    qed
  qed
  then show ?thesis using d(2,5) read by (auto simp: mg_call_def)
qed

lemma pump_delivers:
  assumes "progress c0 s0 r ms s c wire" "\<forall>k \<in> set ks. 0 < k" "length wire \<le> length ks" "answer_ok r" "length r < 2 ^ 21"
    "\<forall>m \<in> set ms. message_ok m" "deliver ms (on_open s0) = Some sf" "can_send (length greeting + 14) c0"
  shows "\<exists>c'. pump fn ks ((s, c), wire) = Some ((sf, c'), []) \<and> greeted c0 c' \<and> content (c_recv c') = []"
  using assms(1-3)
proof (induction ks arbitrary: s c wire)
  case Nil
  then have st: "streaming c0 s0 ms s c []" using assms(4) by (auto simp: progress_def shaking_def)
  then obtain as bs where ab: "ms = as @ bs" "deliver as (on_open s0) = Some s" "arrives (content (c_recv c)) bs []"
    by (auto simp: streaming_def)
  from cut_end [OF ab(3)] have "s = sf" "content (c_recv c) = []" using ab(1,2) assms(7) by simp_all
  then show ?case using Nil st by (auto simp: streaming_def)
next
  case (Cons k ks)
  show ?case
  proof (cases "wire = []")
    case False
    obtain rc s' c' where r: "read_conn fn (take k wire) False (s, c) = Some (rc, (s', c'))" "0 < rc"
      "progress c0 s0 r ms s' c' (drop rc wire)"
      using read_progress [OF Cons.prems(1) False _ assms(4-8), of k] Cons.prems(2) by auto
    have "length (drop rc wire) \<le> length ks" using Cons.prems(3) r(2) by simp
    then show ?thesis using Cons.IH [OF r(3)] Cons.prems(2) r(1) by auto
  next
    case True
    have rv: "iobuf_ok (c_recv c)" "c_allocs c = []" "streaming c0 s0 ms s c []"
      using Cons.prems(1) True assms(4) by (auto simp: progress_def receiving_def shaking_def)
    then have e: "length (content (c_recv c)) < 2 ^ 21" using cut_end by (fastforce simp: streaming_def)
    obtain io where io: "read_room c = (io, [])" "iobuf_ok io" "content io = content (c_recv c)"
      by (rule read_room_spec [OF rv(1,2) e])
    have "c\<lparr>c_recv := io, c_allocs := []\<rparr> = c\<lparr>c_recv := io\<rparr>" using rv(2) by (cases c) simp
    then have "read_conn fn (take k wire) False (s, c) = Some (0, (s, c\<lparr>c_recv := io\<rparr>))"
      unfolding read_conn_def prod.case read_room_def [symmetric] io(1) Let_def by (simp add: True)
    moreover have "progress c0 s0 r ms s (c\<lparr>c_recv := io\<rparr>) []"
      using rv io by (auto simp: progress_def receiving_def streaming_def greeted_def)
    ultimately show ?thesis using Cons.IH [of s "c\<lparr>c_recv := io\<rparr>" "[]"] Cons.prems(2) by (simp add: True)
  qed
qed

end

section \<open>The stream's handler\<close>

text \<open>
  \<open>coinbase_cb\<close> on a connection: a message is copied from the receive buffer into a block of one byte more, whose allocation
  may fail; the subscription goes out through \<open>mg_ws_send\<close>. The state is the stream's and the host's. \<open>None\<close>: undefined.
\<close>

definition copied_event :: "mg_event \<Rightarrow> mg_connection \<Rightarrow> (stream_event \<times> mg_connection) option" where
  "copied_event ev c =
     (case ev of
        MG_EV_CONNECT \<Rightarrow> Some (StConnect, c)
      | MG_EV_WS_OPEN \<Rightarrow> Some (StOpen, c)
      | MG_EV_WS_MSG off len flags \<Rightarrow>
          (case malloc (len + 1) (c_allocs c) of
             (None, h) \<Rightarrow> Some (StMsg [] False, c\<lparr>c_allocs := h\<rparr>)
           | (Some tmp, h) \<Rightarrow>
               if off + unat len \<le> length (io_buf (c_recv c)) \<and> unat len < length tmp
               then Some (StMsg (text_of (take (unat len) (drop off (io_buf (c_recv c))))) True, c\<lparr>c_allocs := h\<rparr>)
               else None)
      | MG_EV_ERROR t \<Rightarrow> Some (StError (Some t), c)
      | MG_EV_CLOSE \<Rightarrow> Some (StClose, c)
      | _ \<Rightarrow> Some (StOther, c))"

definition coinbase_handler :: "'d bus \<Rightarrow> (stream \<times> 'd host) handler" where
  "coinbase_handler io ev = (\<lambda>((s, h), c).
     case copied_event ev c of
       None \<Rightarrow> None
     | Some (e, c1) \<Rightarrow>
         (case run_state (coinbase_cb io s e) h of
            (None, h') \<Rightarrow> None
          | (Some (s', None), h') \<Rightarrow> Some ((s', h'), c1)
          | (Some (s', Some t), h') \<Rightarrow>
              map_option (\<lambda>(_, c2). ((s', h'), c2)) (mg_ws_send c1 (bytes_of t) (of_nat (length t)) WEBSOCKET_OP_TEXT)))"

definition coinbase_msg :: "'d bus \<Rightarrow> u8 list \<Rightarrow> stream \<times> 'd host \<Rightarrow> (stream \<times> 'd host) option" where
  "coinbase_msg io data sh =
     (case run_state (coinbase_cb io (fst sh) (StMsg (text_of data) True)) (snd sh) of
        (None, h') \<Rightarrow> None | (Some (s', _), h') \<Rightarrow> Some (s', h'))"

definition coinbase_open :: "'d bus \<Rightarrow> stream \<times> 'd host \<Rightarrow> stream \<times> 'd host" where
  "coinbase_open io sh =
     (case run_state (coinbase_cb io (fst sh) StOpen) (snd sh) of
        (Some (s', _), h') \<Rightarrow> (s', h') | (None, h') \<Rightarrow> (fst sh, h'))"

lemma message_sends_nothing:
  "run_state (coinbase_cb io s (StMsg data ok)) h = (Some (s', t), h') \<Longrightarrow> t = None"
  by (auto simp: Let_def split: if_splits option.splits prod.splits)

interpretation coinbase: ws_handler "coinbase_handler io" "coinbase_msg io" "coinbase_open io" "bytes_of s_sub_msg" for io
proof
  fix off and c :: mg_connection and s :: "stream \<times> 'a host" and flags and len :: u32
  assume a: "off + unat len \<le> length (io_buf (c_recv c))" "unat len < 2 ^ 20" "c_allocs c = []"
  have "unat (len + 1) = unat len + 1" using a(2) by (subst unat_add_lem [THEN iffD1]) simp_all
  moreover have "c\<lparr>c_allocs := []\<rparr> = c" using a(3) by (cases c) simp
  ultimately show "coinbase_handler io (MG_EV_WS_MSG off len flags) (s, c) =
      map_option (\<lambda>s'. (s', c)) (coinbase_msg io (take (unat len) (drop off (io_buf (c_recv c)))) s)"
    using a by (cases s) (auto simp: coinbase_handler_def coinbase_msg_def copied_event_def simp del: coinbase_cb.simps
        dest: message_sends_nothing split: option.splits prod.splits)
next
  fix c :: mg_connection and s :: "stream \<times> 'a host"
  assume a: "can_send (length (bytes_of s_sub_msg) + 14) c" "c_is_client c"
  define len where "len = (of_nat (length s_sub_msg) :: u32)"
  have len: "length (bytes_of s_sub_msg) = unat len" "unat len < 2 ^ 31"
    by (simp_all add: len_def bytes_of_def s_sub_msg_def json_pattern_def unat_of_nat_u32)
  obtain mk c' where m: "frame_ok (send_form len) mk (bytes_of s_sub_msg)" "mk \<noteq> None \<longleftrightarrow> c_is_client c"
    "has_sent (ws_frame (send_form len) (WEBSOCKET_OP_TEXT OR WEBSOCKET_FLAGS_MASK_FIN) mk (bytes_of s_sub_msg)) c c'"
    "mg_ws_send c (bytes_of s_sub_msg) len WEBSOCKET_OP_TEXT =
       Some (word_of_nat (length (ws_frame (send_form len) (WEBSOCKET_OP_TEXT OR WEBSOCKET_FLAGS_MASK_FIN) mk (bytes_of s_sub_msg))), c')"
    by (rule mg_ws_send_sent [of len c "bytes_of s_sub_msg" WEBSOCKET_OP_TEXT]) (use a len in simp_all)
  obtain k where k: "mk = Some k" "length k = 4" using m(1,2) a(2) by (auto simp: frame_ok_def)
  show "\<exists>c' m. coinbase_handler io MG_EV_WS_OPEN (s, c) = Some (coinbase_open io s, c') \<and> length m = 4 \<and>
      has_sent (ws_frame (send_form (word_of_nat (length (bytes_of s_sub_msg)))) 0x81 (Some m) (bytes_of s_sub_msg)) c c'"
  proof (intro exI conjI)
    show "coinbase_handler io MG_EV_WS_OPEN (s, c) = Some (coinbase_open io s, c')"
      using m(4) by (cases s) (simp add: coinbase_handler_def copied_event_def coinbase_open_def printf_def len_def)
    show "length k = 4" by (rule k(2))
    show "has_sent (ws_frame (send_form (word_of_nat (length (bytes_of s_sub_msg)))) 0x81 (Some k) (bytes_of s_sub_msg)) c c'"
      using m(3) k(1) len(1) by simp
  qed
next
  fix s :: "stream \<times> 'a host" and c :: mg_connection
  show "coinbase_handler io MG_EV_READ (s, c) = Some (s, c)"
    by (cases s) (simp add: coinbase_handler_def copied_event_def)
qed

lemma coinbase_deliver:
  "coinbase.deliver io ms (s, h) =
     (case run_state (stream_loop io s sent0 (map (\<lambda>m. StMsg (text_of (snd (snd m))) True) ms)) h of
        (StreamRuns s' _, h') \<Rightarrow> Some (s', h') | _ \<Rightarrow> None)"
proof (induction ms arbitrary: s h sent0)
  case (Cons m ms)
  obtain r h1 where r: "run_state (coinbase_cb io s (StMsg (text_of (snd (snd m))) True)) h = (r, h1)" by (rule prod.exhaust)
  show ?case
  proof (cases r)
    case None
    then have "coinbase_msg io (snd (snd m)) (s, h) = None" using r by (simp add: coinbase_msg_def del: coinbase_cb.simps)
    then show ?thesis using r None by (simp del: coinbase_cb.simps)
  next
    case (Some st)
    obtain s1 t where st: "st = (s1, t)" by (rule prod.exhaust)
    then have t: "t = None" using message_sends_nothing r Some by blast
    have "coinbase_msg io (snd (snd m)) (s, h) = Some (s1, h1)" using r Some st by (simp add: coinbase_msg_def del: coinbase_cb.simps)
    then show ?thesis using r Some st t Cons.IH [of s1 h1 sent0] by (simp del: coinbase_cb.simps)
  qed
qed simp

lemma messages_send_nothing:
  "run_state (stream_loop io s sent0 (map (\<lambda>m. StMsg (text_of (snd (snd m))) True) ms)) h = (StreamRuns s' sent, h') \<Longrightarrow> sent = sent0"
proof (induction ms arbitrary: s h)
  case (Cons m ms)
  obtain r h1 where r: "run_state (coinbase_cb io s (StMsg (text_of (snd (snd m))) True)) h = (r, h1)" by (rule prod.exhaust)
  then obtain s1 t where st: "r = Some (s1, t)"
    using Cons.prems by (cases r) (auto simp del: coinbase_cb.simps)
  then have "t = None" using message_sends_nothing r by blast
  then show ?case using Cons.prems Cons.IH [of s1 h1] r st by (simp del: coinbase_cb.simps)
qed simp

section \<open>The messages arrive as sent\<close>

text \<open>
  C27. The stream does not depend on how the network cuts the bytes: the answer of the server to the upgrade request and its
  messages, in any form of their lengths, arrive in reads of any sizes, also byte by byte. When as many reads have been made
  as there are bytes, everything is consumed, the state is the one of \<open>MarketStream.c\<close>'s event loop on the messages, each
  whole and in order, and exactly the subscription was sent, in a masked frame.
\<close>

theorem stream_survives_segmentation:
  assumes "answer_ok r" "length r < 2 ^ 21" "\<forall>m \<in> set ms. message_ok m"
    "iobuf_ok (c_recv c)" "content (c_recv c) = []" "\<not> c_is_websocket c" "c_is_client c" "can_send (length s_sub_msg + 14) c"
    "\<forall>k \<in> set ks. 0 < k" "length (r @ concat (map message_bytes ms)) \<le> length ks"
    "run_state (stream_loop io s [] (StOpen # map (\<lambda>m. StMsg (text_of (snd (snd m))) True) ms)) h = (StreamRuns s' sent, h')"
  shows "\<exists>c' m. pump (coinbase_handler io) ks (((s, h), c), r @ concat (map message_bytes ms)) = Some (((s', h'), c'), []) \<and>
    sent = [s_sub_msg] \<and> length m = 4 \<and>
    content (c_send c') = content (c_send c) @ ws_frame (send_form (word_of_nat (length s_sub_msg))) 0x81 (Some m) (bytes_of s_sub_msg)"
proof -
  have len: "length (bytes_of s_sub_msg) = length s_sub_msg" by (simp add: bytes_of_def)
  obtain s1 h1 where o: "run_state (coinbase_cb io s StOpen) h = (Some (s1, Some s_sub_msg), h1)" by (simp add: printf_def)
  have run: "run_state (stream_loop io s1 [s_sub_msg] (map (\<lambda>m. StMsg (text_of (snd (snd m))) True) ms)) h1 = (StreamRuns s' sent, h')"
    using assms(11) o by (simp del: coinbase_cb.simps)
  have sent: "sent = [s_sub_msg]" by (rule messages_send_nothing [OF run])
  have op: "coinbase_open io (s, h) = (s1, h1)" using o by (simp add: coinbase_open_def del: coinbase_cb.simps)
  have dl: "coinbase.deliver io ms (coinbase_open io (s, h)) = Some (s', h')"
    unfolding op coinbase_deliver [of io ms s1 h1 "[s_sub_msg]"] by (simp add: run)
  have rl: "0 < length r" using assms(1) by (auto simp: answer_ok_def)
  have "coinbase.progress io c (s, h) r ms (s, h) c (r @ concat (map message_bytes ms))"
    using assms(4-8) rl by (simp add: coinbase.progress_def coinbase.receiving_def coinbase.shaking_def can_send_def)
  from coinbase.pump_delivers [where io = io, OF this assms(9,10,1-3) dl] assms(8)
  obtain c' where c': "pump (coinbase_handler io) ks (((s, h), c), r @ concat (map message_bytes ms)) = Some (((s', h'), c'), [])"
    "coinbase.greeted c c'" by (auto simp: len)
  then show ?thesis using sent by (auto simp: coinbase.greeted_def len)
qed

text \<open>The witness: one message, byte by byte, on a device that answers zero.\<close>

definition still_bus :: "unit bus" where
  "still_bus = \<lparr>bus_read = (\<lambda>w d. (0, d)), bus_write = (\<lambda>w v d. d), bus_sleep = (\<lambda>us d. d), bus_clock = (\<lambda>d. (0, d))\<rparr>"

definition short_answer :: "u8 list" where
  "short_answer = bytes_of (''HTTP/1.1 101 OK'' @ crlf @ crlf)"

definition one_message :: message where
  "one_message = (Short, 0x81, bytes_of ''{}'')"

theorem stream_survives_segmentation_witness:
  "\<exists>c' s' h'. pump (coinbase_handler still_bus) (replicate 23 1)
     (((stream_init, \<lparr>h_dev = (), h_f = None, h_out = [], h_err = []\<rparr>), idle_client), short_answer @ message_bytes one_message) =
     Some (((s', h'), c'), [])"
proof -
  have r: "answer_ok short_answer" "length short_answer = 19"
    by code_simp+
  have m: "\<forall>m \<in> set [one_message]. message_ok m" by (simp add: one_message_def frame_ok_def bytes_of_def)
  have l: "length (message_bytes one_message) = 4"
    by (simp add: one_message_def bytes_of_def frame_length frame_ok_def mask_len_def)
  have t: "text_of (snd (snd one_message)) = ''{}''" by code_simp
  obtain s' h' sent where run: "run_state (stream_loop still_bus stream_init []
      (StOpen # map (\<lambda>m. StMsg (text_of (snd (snd m))) True) [one_message])) \<lparr>h_dev = (), h_f = None, h_out = [], h_err = []\<rparr> =
      (StreamRuns s' sent, h')"
    by (simp add: printf_def t)
  have c: "iobuf_ok (c_recv idle_client)" "content (c_recv idle_client) = []" "\<not> c_is_websocket idle_client"
    "c_is_client idle_client" "can_send (length s_sub_msg + 14) idle_client"
    by (simp_all add: idle_client_def can_send_def s_sub_msg_def json_pattern_def)
  show ?thesis
    using stream_survives_segmentation [OF r(1) _ m c, of "replicate 23 1", OF _ _ _ run] r(2) l by auto
qed

section \<open>A hostile length\<close>

text \<open>
  The one hypothesis on the peer that matters is that its lengths are honest: ten bytes on an open websocket lead the handler
  to copy 4 GB out of a block of 512 bytes into a block of size 0, which is undefined.
\<close>

lemma hostile_length:
  fixes io :: "'d bus"
  shows "read_conn (coinbase_handler io) [0x81, 127, 0, 0, 0, 0, 0xff, 0xff, 0xff, 0xff] False
     ((s, h), idle_client\<lparr>c_is_websocket := True\<rparr>) = None"
proof -
  define frame where "frame = [0x81, 127, 0, 0, 0, 0, 0xff, 0xff, 0xff, 0xff :: u8]"
  define b where "b = frame @ replicate 502 0"
  define c where "c = idle_client\<lparr>c_is_websocket := True, c_recv := \<lparr>io_buf = b, io_size = 512, io_len = 10\<rparr>\<rparr>"
  have p: "ws_process b 10 = Some (9, \<lparr>ws_flags = 0x81, ws_header_len = 10, ws_data_len = 0xffffffff\<rparr>, b)"
    by (simp add: b_def frame_def ws_process_def ws_lengths_def ws_msg_zero_def read32_def mg_ntohl_def le32_def s32_def)
  have "coinbase_handler io (MG_EV_WS_MSG 10 0xffffffff 0x81) ((s, h), c) = None"
    by (simp add: coinbase_handler_def copied_event_def c_def idle_client_def)
  then have "ws_step (coinbase_handler io) ((s, h), c) = None"
    using p by (simp add: ws_step_def c_def idle_client_def)
  then have "ws_loop (coinbase_handler io) ((s, h), c) = None" by (subst ws_loop.simps) simp
  then have "mg_call (coinbase_handler io) MG_EV_READ ((s, h), c) = None"
    by (simp add: mg_call_def mg_ws_cb_def c_def)
  moreover have "read_room (idle_client\<lparr>c_is_websocket := True\<rparr>) = (\<lparr>io_buf = replicate 512 0, io_size = 512, io_len = 0\<rparr>, [])"
    by (simp add: read_room_def mg_iobuf_resize_def idle_client_def store_def)
  moreover have "store 0 frame (replicate 512 0) = b" by (simp add: store_def b_def frame_def)
  ultimately show ?thesis unfolding read_conn_def prod.case read_room_def [symmetric] frame_def [symmetric]
    by (simp add: c_def frame_def idle_client_def)
qed

end
