(* ===== verification/Fmma_Http.thy ===== *)
theory Fmma_Http
  imports Fmma_Ws
begin

text \<open>
  HTTP in \<open>NewArch/In-Memory v2/mongoose.c\<close> (\<open>str.c\<close>, \<open>http.c\<close> of it): the header parser and the loop that hands the
  responses in a receive buffer to the user's handler. Positions are offsets into the buffer; \<open>size_t\<close> has 32 bits.
\<close>

section \<open>Comparing and reading\<close>

text \<open>A byte at an offset; behind the text stands a NUL.\<close>

definition b_at :: "u8 list \<Rightarrow> nat \<Rightarrow> u8" where
  "b_at s i = (if i < length s then s ! i else 0)"

definition mg_lower :: "u8 \<Rightarrow> int" where
  "mg_lower b = uint (if 65 \<le> b \<and> b \<le> 90 then b + 32 else b)"

fun mg_ncasecmp :: "u8 list \<Rightarrow> u8 list \<Rightarrow> nat \<Rightarrow> int" where
  "mg_ncasecmp s1 s2 0 = 0"
| "mg_ncasecmp s1 s2 (Suc len) =
     (let diff = mg_lower (b_at s1 0) - mg_lower (b_at s2 0)
      in if diff = 0 \<and> b_at s1 0 \<noteq> 0 \<and> len > 0 then mg_ncasecmp (drop 1 s1) (drop 1 s2) len else diff)"

text \<open>A string with a length against a C string.\<close>

definition mg_vcasecmp :: "u8 list \<Rightarrow> u8 list \<Rightarrow> int" where
  "mg_vcasecmp str1 s2 =
     (let n2 = length s2; n1 = length str1; r = mg_ncasecmp str1 s2 (if n1 < n2 then n1 else n2)
      in if r = 0 then int n1 - int n2 else r)"

definition is_space_b :: "u8 \<Rightarrow> bool" where
  "is_space_b b \<longleftrightarrow> b = 32 \<or> 9 \<le> b \<and> b \<le> 13"

definition is_digit_b :: "u8 \<Rightarrow> bool" where
  "is_digit_b b \<longleftrightarrow> 48 \<le> b \<and> b \<le> 57"

text \<open>Decimal digits at the start of a text, wrapping in \<open>int64_t\<close>.\<close>

fun to64_digits :: "int \<Rightarrow> u8 list \<Rightarrow> int" where
  "to64_digits result [] = result"
| "to64_digits result (b # s) = (if is_digit_b b then to64_digits (s64 (s64 (result * 10) + (uint b - 48))) s else result)"

definition mg_to64 :: "u8 list \<Rightarrow> int" where
  "mg_to64 s =
     (let s = dropWhile is_space_b s;
          (neg, s) = (if b_at s 0 = 45 then (- 1, drop 1 s) else (1, s))
      in s64 (to64_digits 0 s * neg))"

section \<open>Messages\<close>

text \<open>A string inside the message: offset and length.\<close>

record mg_str =
  st_ptr :: nat
  st_len :: nat

definition no_str :: mg_str where
  "no_str = \<lparr>st_ptr = 0, st_len = 0\<rparr>"

definition str_of :: "u8 list \<Rightarrow> mg_str \<Rightarrow> u8 list" where
  "str_of buf v = take (st_len v) (drop (st_ptr v) buf)"

abbreviation MG_MAX_HTTP_HEADERS :: nat where "MG_MAX_HTTP_HEADERS \<equiv> 40"

record mg_http_message =
  hm_method :: mg_str
  hm_uri :: mg_str
  hm_query :: mg_str
  hm_proto :: mg_str
  hm_headers :: "(mg_str \<times> mg_str) list"
  hm_body_ptr :: nat
  hm_body_len :: u32
  hm_message_len :: u32

definition hm_zero :: mg_http_message where
  "hm_zero = \<lparr>hm_method = no_str, hm_uri = no_str, hm_query = no_str, hm_proto = no_str,
     hm_headers = replicate MG_MAX_HTTP_HEADERS (no_str, no_str), hm_body_ptr = 0, hm_body_len = 0, hm_message_len = 0\<rparr>"

text \<open>\<open>strchr\<close> finds the terminator too: a NUL is a delimiter.\<close>

definition is_delim :: "u8 list \<Rightarrow> u8 \<Rightarrow> bool" where
  "is_delim delims b \<longleftrightarrow> b \<in> set delims \<or> b = 0"

fun scan :: "(u8 \<Rightarrow> bool) \<Rightarrow> u8 list \<Rightarrow> nat \<Rightarrow> nat \<Rightarrow> nat" where
  "scan P buf s 0 = s"
| "scan P buf s (Suc left) = (if P (b_at buf s) then scan P buf (Suc s) left else s)"

definition skip :: "u8 list \<Rightarrow> nat \<Rightarrow> nat \<Rightarrow> u8 list \<Rightarrow> mg_str \<times> nat" where
  "skip buf s e delims =
     (let t = scan (\<lambda>b. \<not> is_delim delims b) buf s (e - s)
      in (\<lparr>st_ptr = s, st_len = t - s\<rparr>, scan (is_delim delims) buf t (e - t)))"

definition mg_http_get_header :: "u8 list \<Rightarrow> mg_http_message \<Rightarrow> u8 list \<Rightarrow> mg_str option" where
  "mg_http_get_header buf h name =
     map_option snd (find (\<lambda>(k, v). length name = st_len k \<and> mg_ncasecmp (drop (st_ptr k) buf) name (length name) = 0)
       (takeWhile (\<lambda>(k, v). st_len k > 0) (hm_headers h)))"

text \<open>Spaces before the end are cut off.\<close>

fun trim_len :: "u8 list \<Rightarrow> nat \<Rightarrow> nat \<Rightarrow> nat" where
  "trim_len buf p 0 = 0"
| "trim_len buf p (Suc n) = (if b_at buf (p + n) = 32 then trim_len buf p n else Suc n)"

text \<open>One line for each of the remaining slots; a line without a name ends the loop, one of only a name is passed over.\<close>

fun mg_http_parse_headers :: "u8 list \<Rightarrow> nat \<Rightarrow> nat \<Rightarrow> (mg_str \<times> mg_str) list \<Rightarrow> nat \<Rightarrow> nat \<Rightarrow> (mg_str \<times> mg_str) list" where
  "mg_http_parse_headers buf s e h i 0 = h"
| "mg_http_parse_headers buf s e h i (Suc left) =
     (let (tmp, he) = skip buf s e [10];
          (k, s) = skip buf s he [58, 32, 13, 10];
          (v, s) = skip buf s he [13, 10]
      in if st_len k = st_len tmp then mg_http_parse_headers buf s e h (Suc i) left
         else
           let v = v\<lparr>st_len := trim_len buf (st_ptr v) (st_len v)\<rparr>
           in if st_len k = 0 then h
              else mg_http_parse_headers buf s e (h[i := (k, v)]) (Suc i) left)"

definition content_length_name :: "u8 list" where
  "content_length_name = [67, 111, 110, 116, 101, 110, 116, 45, 76, 101, 110, 103, 116, 104]"

text \<open>The query string of the URI, if it has one.\<close>

definition split_query :: "u8 list \<Rightarrow> mg_http_message \<Rightarrow> mg_http_message" where
  "split_query buf hm =
     (let u = hm_uri hm;
          q = scan (\<lambda>b. b \<noteq> 63) buf (st_ptr u) (st_len u)
      in if q < st_ptr u + st_len u
         then hm\<lparr>hm_query := \<lparr>st_ptr = q + 1, st_len = st_ptr u + st_len u - (q + 1)\<rparr>, hm_uri := u\<lparr>st_len := q - st_ptr u\<rparr>\<rparr>
         else hm)"

definition mg_http_parse :: "u8 list \<Rightarrow> u32 \<Rightarrow> int \<times> mg_http_message" where
  "mg_http_parse buf len =
     (let req_len = mg_http_get_request_len buf len
      in if req_len \<le> 0 then (req_len, hm_zero)
         else
           let e = nat req_len;
               (meth, s) = skip buf 0 e [32];
               (uri, s) = skip buf s e [32];
               (proto, s) = skip buf s e [13, 10];
               hm = hm_zero\<lparr>hm_method := meth, hm_uri := uri, hm_proto := proto, hm_body_ptr := e, hm_body_len := - 1,
                            hm_message_len := - 1\<rparr>
           in if st_ptr uri \<le> st_ptr meth \<or> st_ptr proto \<le> st_ptr uri then (- 1, hm)
              else
                let hm = split_query buf hm;
                    hm = hm\<lparr>hm_headers := mg_http_parse_headers buf s e (hm_headers hm) 0 MG_MAX_HTTP_HEADERS\<rparr>;
                    hm = (case mg_http_get_header buf hm content_length_name of
                            None \<Rightarrow> hm
                          | Some cl \<Rightarrow>
                              let n = word_of_int (mg_to64 (drop (st_ptr cl) buf)) :: u32
                              in hm\<lparr>hm_body_len := n, hm_message_len := word_of_int req_len + n\<rparr>);
                    is_response = mg_ncasecmp (drop (st_ptr meth) buf) [72, 84, 84, 80, 47] 5 = 0
                in (req_len,
                    if hm_body_len hm = - 1 \<and> \<not> is_response \<and> mg_vcasecmp (str_of buf meth) [80, 85, 84] \<noteq> 0 \<and>
                       mg_vcasecmp (str_of buf meth) [80, 79, 83, 84] \<noteq> 0
                    then hm\<lparr>hm_body_len := 0, hm_message_len := word_of_int req_len\<rparr> else hm))"

section \<open>The protocol handler\<close>

text \<open>The user's handler gets the message, whose strings are places in the receive buffer.\<close>

type_synonym 's http_handler = "mg_http_message \<Rightarrow> 's \<times> mg_connection \<Rightarrow> 's \<times> mg_connection"

definition http_step :: "'s http_handler \<Rightarrow> bool \<Rightarrow> 's \<times> mg_connection \<Rightarrow> bool \<times> 's \<times> mg_connection" where
  "http_step fn closed sc =
     (let c = snd sc;
          (n, hm) = mg_http_parse (io_buf (c_recv c)) (io_len (c_recv c));
          hm = (if closed then hm\<lparr>hm_message_len := io_len (c_recv c), hm_body_len := io_len (c_recv c) - word_of_nat (hm_body_ptr hm)\<rparr>
                else hm)
      in if n < 0 \<and> \<not> closed then (False, fst sc, c\<lparr>c_is_closing := True\<rparr>)
         else if n > 0 \<and> hm_message_len hm \<le> io_len (c_recv c) then
           (case fn hm sc of (s', c') \<Rightarrow> (True, s', c'\<lparr>c_recv := snd (mg_iobuf_delete (c_recv c') (hm_message_len hm))\<rparr>))
         else (False, sc))"

text \<open>\<open>http_cb\<close> on a read, or on the close of the connection; \<open>None\<close>: it does not return.\<close>

partial_function (option) http_cb :: "'s http_handler \<Rightarrow> bool \<Rightarrow> 's \<times> mg_connection \<Rightarrow> ('s \<times> mg_connection) option" where
  "http_cb fn closed sc = (case http_step fn closed sc of (go, sc') \<Rightarrow> if go then http_cb fn closed sc' else Some sc')"

section \<open>The parser stays inside the request\<close>

lemma scan_bounds: "s \<le> scan P buf s k" "scan P buf s k \<le> s + k"
  by (induction P buf s k rule: scan.induct) auto

lemma skip_bounds:
  assumes "skip buf s e delims = (v, t)" "s \<le> e"
  shows "st_ptr v = s" "st_ptr v + st_len v \<le> t" "s \<le> t" "t \<le> e"
proof -
  define m where "m = scan (\<lambda>b. \<not> is_delim delims b) buf s (e - s)"
  have m: "s \<le> m" "m \<le> e" using scan_bounds [where s = s and P = "\<lambda>b. \<not> is_delim delims b" and buf = buf and k = "e - s"] assms(2) by (simp_all add: m_def)
  have t: "v = \<lparr>st_ptr = s, st_len = m - s\<rparr>" "t = scan (is_delim delims) buf m (e - m)"
    using assms(1) by (simp_all add: skip_def Let_def m_def)
  have "m \<le> t" "t \<le> e" using scan_bounds [where s = m and P = "is_delim delims" and buf = buf and k = "e - m"] m(2) by (simp_all add: t(2))
  then show "st_ptr v = s" "st_ptr v + st_len v \<le> t" "s \<le> t" "t \<le> e" using m by (simp_all add: t(1))
qed

lemma trim_bounds: "trim_len buf p n \<le> n"
  by (induction buf p n rule: trim_len.induct) auto

definition inside :: "nat \<Rightarrow> mg_str \<Rightarrow> bool" where
  "inside n v \<longleftrightarrow> st_ptr v + st_len v \<le> n"

lemma parse_headers_inside:
  assumes "\<forall>(k, v) \<in> set h. inside e k \<and> inside e v" "s \<le> e"
  shows "\<forall>(k, v) \<in> set (mg_http_parse_headers buf s e h i left). inside e k \<and> inside e v"
  using assms
proof (induction left arbitrary: s h i)
  case (Suc left)
  obtain tmp he where t: "skip buf s e [10] = (tmp, he)" by (rule prod.exhaust)
  obtain k s1 where k: "skip buf s he [58, 32, 13, 10] = (k, s1)" by (rule prod.exhaust)
  obtain v s2 where v: "skip buf s1 he [13, 10] = (v, s2)" by (rule prod.exhaust)
  note tb = skip_bounds [OF t Suc.prems(2)]
  note kb = skip_bounds [OF k tb(3)]
  note vb = skip_bounds [OF v kb(4)]
  define v' where "v' = v\<lparr>st_len := trim_len buf (st_ptr v) (st_len v)\<rparr>"
  have b: "inside e k" "inside e v'" "s2 \<le> e"
    using kb(2,4) vb(2,4) tb(4) trim_bounds [of buf "st_ptr v" "st_len v"] by (auto simp: inside_def v'_def)
  have u: "\<forall>(k, v) \<in> set (h[i := (k, v')]). inside e k \<and> inside e v"
    using Suc.prems(1) b(1,2) set_update_subset_insert [of h i "(k, v')"] by auto
  show ?case
    using Suc.IH [OF Suc.prems(1) b(3), of "Suc i"] Suc.IH [OF u b(3), of "Suc i"] Suc.prems(1)
    by (simp add: t k v Let_def v'_def)
qed simp

lemma request_len_bound: "request_len_from buf n i \<le> int (i + n)"
  by (induction buf n i rule: request_len_from.induct) auto

text \<open>
  C29. Whatever the bytes: when the parser accepts a request or response, its length is at most the length of the data, the
  body begins where it ends, and the method, the URI, the query, the protocol and the name and value of every header lie
  inside it.
\<close>

theorem http_strings_in_bounds:
  assumes "mg_http_parse buf len = (n, hm)" "0 < n"
  shows "n \<le> int (unat len) \<and> hm_body_ptr hm = nat n \<and>
    (\<forall>v \<in> {hm_method hm, hm_uri hm, hm_query hm, hm_proto hm} \<union> fst ` set (hm_headers hm) \<union> snd ` set (hm_headers hm).
       st_ptr v + st_len v \<le> nat n)"
proof -
  define req where "req = mg_http_get_request_len buf len"
  define e where "e = nat req"
  have le: "req \<le> int (unat len)" using request_len_bound [of buf "unat len" 0] by (simp add: req_def mg_http_get_request_len_def)
  obtain me s1 where m: "skip buf 0 e [32] = (me, s1)" by (rule prod.exhaust)
  obtain u s2 where u: "skip buf s1 e [32] = (u, s2)" by (rule prod.exhaust)
  obtain pr s3 where p: "skip buf s2 e [13, 10] = (pr, s3)" by (rule prod.exhaust)
  note mb = skip_bounds [OF m le0]
  note ub = skip_bounds [OF u mb(4)]
  note pb = skip_bounds [OF p ub(4)]
  have ins: "inside e me" "inside e u" "inside e pr" using mb ub pb by (simp_all add: inside_def)
  define h0 where "h0 = split_query buf (hm_zero\<lparr>hm_method := me, hm_uri := u, hm_proto := pr, hm_body_ptr := e, hm_body_len := - 1,
    hm_message_len := - 1\<rparr>)"
  have h0: "hm_method h0 = me" "hm_proto h0 = pr" "inside e (hm_uri h0)" "inside e (hm_query h0)" "hm_body_ptr h0 = e"
    "hm_headers h0 = replicate MG_MAX_HTTP_HEADERS (no_str, no_str)"
    using ins scan_bounds [where s = "st_ptr u" and P = "\<lambda>b. b \<noteq> 63" and buf = buf and k = "st_len u"]
    by (auto simp: h0_def split_query_def hm_zero_def Let_def inside_def no_str_def)
  have hs: "\<forall>(k, v) \<in> set (mg_http_parse_headers buf s3 e (hm_headers h0) 0 MG_MAX_HTTP_HEADERS). inside e k \<and> inside e v"
    using pb(4) by (intro parse_headers_inside) (auto simp: h0(6) inside_def no_str_def)
  have n: "n = req" and
    f: "hm_method hm = me" "hm_uri hm = hm_uri h0" "hm_query hm = hm_query h0" "hm_proto hm = pr" "hm_body_ptr hm = e"
    "hm_headers hm = mg_http_parse_headers buf s3 e (hm_headers h0) 0 MG_MAX_HTTP_HEADERS"
    using assms h0 by (auto simp: mg_http_parse_def req_def [symmetric] e_def [symmetric] m u p h0_def [symmetric] Let_def
        split: if_splits option.splits)
  have "\<forall>v \<in> fst ` set (hm_headers hm) \<union> snd ` set (hm_headers hm). inside e v" using hs by (auto simp: f(6))
  then show ?thesis using le ins h0(3,4) f(1-5) unfolding n e_def [symmetric] by (auto simp: inside_def)
qed

text \<open>A status line, \<open>Content-Length:2\<close>, an empty line and the body \<open>{}\<close>.\<close>

definition ok_response :: "u8 list" where
  "ok_response =
    [72, 84, 84, 80, 47, 49, 32, 50, 32, 51, 10, 67, 111, 110, 116, 101, 110, 116, 45, 76, 101, 110, 103, 116,
     104, 58, 50, 10, 10, 123, 125]"

lemma ok_parse: "map_prod id (\<lambda>hm. (hm_body_len hm, hm_message_len hm)) (mg_http_parse ok_response 31) = (29, 2, 31)"
  by code_simp

theorem http_strings_in_bounds_witness:
  "\<exists>hm. mg_http_parse ok_response 31 = (29, hm) \<and> hm_body_ptr hm = nat 29 \<and> hm_body_len hm = 2 \<and> hm_message_len hm = 31 \<and>
     st_ptr (hm_uri hm) + st_len (hm_uri hm) \<le> nat 29"
proof -
  obtain hm where hm: "mg_http_parse ok_response 31 = (29, hm)" "hm_body_len hm = 2" "hm_message_len hm = 31"
    using ok_parse by (cases "mg_http_parse ok_response 31") auto
  from http_strings_in_bounds [OF hm(1)] hm show ?thesis by auto
qed

section \<open>Lengths the sender chooses\<close>

text \<open>
  A negative \<open>Content-Length\<close> equal to the length of the header makes the length of the message wrap to 0: the handler is
  called, nothing is removed from the buffer, and the loop never returns. The example has 31 bytes and the length -31.
\<close>

definition hanging_response :: "u8 list" where
  "hanging_response =
    [72, 84, 84, 80, 47, 49, 32, 50, 32, 51, 10, 67, 111, 110, 116, 101, 110, 116, 45, 76, 101, 110, 103, 116,
     104, 58, 45, 51, 49, 10, 10]"

lemma hanging_parse: "map_prod id hm_message_len (mg_http_parse hanging_response 31) = (31, 0)"
  by code_simp

lemma http_negative_length_hangs:
  assumes keep: "\<And>hm s c. c_recv (snd (fn hm (s, c))) = c_recv c"
    and c: "c_recv c = \<lparr>io_buf = hanging_response, io_size = 31, io_len = 31\<rparr>"
  shows "http_cb fn False (s, c) = None"
proof (rule ccontr)
  assume "http_cb fn False (s, c) \<noteq> None"
  then obtain r where ret: "http_cb fn False (s, c) = Some r" by blast
  have len: "length hanging_response = 31" by (simp add: hanging_response_def)
  obtain hm where hm: "mg_http_parse hanging_response 31 = (31, hm)" "hm_message_len hm = 0"
    using hanging_parse by (cases "mg_http_parse hanging_response 31") auto
  let ?bad = "\<lambda>c. c_recv c = \<lparr>io_buf = hanging_response, io_size = 31, io_len = 31\<rparr>"
  have step: "\<exists>s' c'. http_step fn False (s, c) = (True, s', c') \<and> ?bad c'" if "?bad c" for s c
  proof -
    obtain s' c' where f: "fn hm (s, c) = (s', c')" by (rule prod.exhaust)
    then have "c_recv c' = c_recv c" using keep [of hm s c] by simp
    then show ?thesis using that hm f len by (simp add: http_step_def mg_iobuf_delete_def store_def)
  qed
  have "fn = fn \<and> \<not> False \<longrightarrow> \<not> ?bad (snd (s, c))"
  proof (rule http_cb.raw_induct [where P = "\<lambda>g cl sc r. g = fn \<and> \<not> cl \<longrightarrow> \<not> ?bad (snd sc)", OF _ ret])
    fix f g cl sc r
    assume IH: "\<And>g cl sc r. f g cl sc = Some r \<Longrightarrow> g = fn \<and> \<not> cl \<longrightarrow> \<not> ?bad (snd sc)"
      and eq: "(case http_step g cl sc of (go, sc') \<Rightarrow> if go then f g cl sc' else Some sc') = Some r"
    show "g = fn \<and> \<not> cl \<longrightarrow> \<not> ?bad (snd sc)"
    proof (intro impI notI)
      assume g: "g = fn \<and> \<not> cl" and bad: "?bad (snd sc)"
      obtain s' c' where "http_step fn False sc = (True, s', c')" "?bad c'" using step [of "snd sc" "fst sc"] bad by auto
      then have "f fn False (s', c') = Some r" using eq g by simp
      from IH [OF this] \<open>?bad c'\<close> show False by simp
    qed
  qed
  then show False using c by simp
qed

text \<open>A \<open>Content-Length\<close> of \<open>2 ^ 32 - 1\<close> wraps too: the handler is given a body of 4 GB that is not there.\<close>

lemma http_huge_length:
  "map_prod id (\<lambda>hm. (hm_body_len hm, hm_message_len hm)) (mg_http_parse
    [72, 84, 84, 80, 47, 49, 32, 50, 32, 51, 10, 67, 111, 110, 116, 101, 110, 116, 45, 76, 101, 110, 103, 116,
     104, 58, 52, 50, 57, 52, 57, 54, 55, 50, 57, 53, 10, 10] 38) =
     (38, 4294967295, 37)"
  by code_simp

end
