(* ===== verification/Fmma_Connect.thy ===== *)
theory Fmma_Connect
  imports Fmma_Ws Fmma_Stream
begin

text \<open>
  Opening a websocket in \<open>NewArch/In-Memory v2/mongoose.c\<close>: Base64 (\<open>base64.c\<close>), the parts of a URL (\<open>url.c\<close>) and the
  upgrade request with the authors' TLS set-up (\<open>ws.c\<close>).
\<close>

section \<open>Base64\<close>

definition mg_b64idx :: "int \<Rightarrow> u8" where
  "mg_b64idx c =
     word_of_int (if c < 26 then c + 65 else if c < 52 then c - 26 + 97 else if c < 62 then c - 52 + 48
                  else if c = 62 then 43 else 47)"

definition mg_b64rev :: "u8 \<Rightarrow> int" where
  "mg_b64rev b =
     (let c = uint b
      in if 65 \<le> c \<and> c \<le> 90 then c - 65
         else if 97 \<le> c \<and> c \<le> 122 then c + 26 - 97
         else if 48 \<le> c \<and> c \<le> 57 then c + 52 - 48
         else if c = 43 then 62 else if c = 47 then 63 else if c = 61 then 64 else - 1)"

text \<open>The bits carried over to the next character wait in \<open>to[n]\<close>.\<close>

definition mg_base64_update :: "u8 \<Rightarrow> u8 list \<Rightarrow> nat \<Rightarrow> u8 list \<times> nat" where
  "mg_base64_update ch to n =
     (let rem = n mod 4 mod 3
      in if rem = 0 then (to[n := mg_b64idx (uint (drop_bit 2 ch)), n + 1 := push_bit 4 (ch AND 3)], n + 1)
         else if rem = 1 then (to[n := mg_b64idx (uint (to ! n OR drop_bit 4 ch)), n + 1 := push_bit 2 (ch AND 15)], n + 1)
         else (to[n := mg_b64idx (uint (to ! n OR drop_bit 6 ch)), n + 1 := mg_b64idx (uint (ch AND 63))], n + 2))"

fun b64_pad :: "u8 list \<Rightarrow> nat \<Rightarrow> nat \<Rightarrow> u8 list \<times> nat" where
  "b64_pad to n 0 = (to, n)"
| "b64_pad to n (Suc left) = (if n mod 4 \<noteq> 0 then b64_pad (to[n := 61]) (n + 1) left else (to, n))"

text \<open>At most three characters are padded.\<close>

definition mg_base64_final :: "u8 list \<Rightarrow> nat \<Rightarrow> u8 list \<times> nat" where
  "mg_base64_final to n =
     (let saved = n;
          (to, n) = (if n mod 4 \<noteq> 0 then mg_base64_update 0 to n else (to, n));
          n = (if saved mod 4 = 2 then n - 1 else n);
          (to, n) = b64_pad to n 3
      in (to[n := 0], n))"

fun b64_updates :: "u8 list \<Rightarrow> u8 list \<Rightarrow> nat \<Rightarrow> u8 list \<times> nat" where
  "b64_updates [] to len = (to, len)"
| "b64_updates (x # p) to len = (case mg_base64_update x to len of (to', len') \<Rightarrow> b64_updates p to' len')"

definition mg_base64_encode :: "u8 list \<Rightarrow> u8 list \<Rightarrow> u8 list \<times> nat" where
  "mg_base64_encode p to = (case b64_updates p to 0 of (to', len) \<Rightarrow> mg_base64_final to' len)"

text \<open>The decoded bytes, none when a character is not in the alphabet; what was written before is then left behind.\<close>

fun b64_decode_from :: "u8 list \<Rightarrow> u8 list \<Rightarrow> u8 list option" where
  "b64_decode_from (w # x # y # z # src) dst =
     (let a = mg_b64rev w; b = mg_b64rev x; c = mg_b64rev y; d = mg_b64rev z
      in if a = 64 \<or> a < 0 \<or> b = 64 \<or> b < 0 \<or> c < 0 \<or> d < 0 then None
         else
           let dst = dst @ [word_of_int (push_bit 2 a OR drop_bit 4 b)];
               dst = (if y \<noteq> 61 then
                        dst @ [word_of_int (push_bit 4 b OR drop_bit 2 c)] @
                        (if z \<noteq> 61 then [word_of_int (push_bit 6 c OR d)] else [])
                      else dst)
           in b64_decode_from src dst)"
| "b64_decode_from _ dst = Some dst"

definition mg_base64_decode :: "u8 list \<Rightarrow> u8 list" where
  "mg_base64_decode src = (case b64_decode_from src [] of None \<Rightarrow> [] | Some dst \<Rightarrow> dst)"

subsection \<open>Round trip\<close>

text \<open>The groups of four characters.\<close>

abbreviation b64_1 :: "u8 \<Rightarrow> u8" where "b64_1 x \<equiv> drop_bit 2 x"
abbreviation b64_2 :: "u8 \<Rightarrow> u8 \<Rightarrow> u8" where "b64_2 x y \<equiv> push_bit 4 (x AND 3) OR drop_bit 4 y"
abbreviation b64_3 :: "u8 \<Rightarrow> u8 \<Rightarrow> u8" where "b64_3 y z \<equiv> push_bit 2 (y AND 15) OR drop_bit 6 z"
abbreviation b64_4 :: "u8 \<Rightarrow> u8" where "b64_4 z \<equiv> z AND 63"

fun b64 :: "u8 list \<Rightarrow> u8 list" where
  "b64 [] = []"
| "b64 [x] = [mg_b64idx (uint (b64_1 x)), mg_b64idx (uint (b64_2 x 0)), 61, 61]"
| "b64 [x, y] = [mg_b64idx (uint (b64_1 x)), mg_b64idx (uint (b64_2 x y)), mg_b64idx (uint (b64_3 y 0)), 61]"
| "b64 (x # y # z # p) =
     [mg_b64idx (uint (b64_1 x)), mg_b64idx (uint (b64_2 x y)), mg_b64idx (uint (b64_3 y z)), mg_b64idx (uint (b64_4 z))] @ b64 p"

lemma five: "4 < length r \<Longrightarrow> \<exists>a b c d e r1. r = a # b # c # d # e # r1"
  by (cases r; cases "tl r"; cases "tl (tl r)"; cases "tl (tl (tl r))"; cases "tl (tl (tl (tl r)))") auto

lemma mod4:
  assumes "n mod 4 = (0::nat)"
  shows "(n + 1) mod 4 = 1" "(n + 2) mod 4 = 2" "(n + 3) mod 4 = 3"
  using assms by presburger+

text \<open>What each of the three updates of a group does, at a place \<open>pre\<close> characters into the text.\<close>

lemma update_group:
  assumes "length pre mod 4 = 0"
  shows "mg_base64_update x (pre @ a # b # r) (length pre) =
      (pre @ mg_b64idx (uint (b64_1 x)) # push_bit 4 (x AND 3) # r, length pre + 1)"
    "mg_base64_update y (pre @ c # b # d # r) (length pre + 1) =
      (pre @ c # mg_b64idx (uint (b OR drop_bit 4 y)) # push_bit 2 (y AND 15) # r, length pre + 2)"
    "mg_base64_update z (pre @ c # c1 # b # d # r) (length pre + 2) =
      (pre @ c # c1 # mg_b64idx (uint (b OR drop_bit 6 z)) # mg_b64idx (uint (b64_4 z)) # r, length pre + 4)"
proof -
  have m: "length pre mod 4 mod 3 = 0" "(length pre + 1) mod 4 mod 3 = 1" "(length pre + 2) mod 4 mod 3 = 2"
    unfolding mod4 [OF assms] assms by simp_all
  show "mg_base64_update x (pre @ a # b # r) (length pre) =
      (pre @ mg_b64idx (uint (b64_1 x)) # push_bit 4 (x AND 3) # r, length pre + 1)"
    unfolding mg_base64_update_def m by (simp add: list_update_append)
  show "mg_base64_update y (pre @ c # b # d # r) (length pre + 1) =
      (pre @ c # mg_b64idx (uint (b OR drop_bit 4 y)) # push_bit 2 (y AND 15) # r, length pre + 2)"
    unfolding mg_base64_update_def m by (simp add: list_update_append nth_append)
  show "mg_base64_update z (pre @ c # c1 # b # d # r) (length pre + 2) =
      (pre @ c # c1 # mg_b64idx (uint (b OR drop_bit 6 z)) # mg_b64idx (uint (b64_4 z)) # r, length pre + 4)"
    unfolding mg_base64_update_def m by (simp add: list_update_append nth_append)
qed

lemma pad_steps:
  "n mod 4 = 0 \<Longrightarrow> b64_pad to n 3 = (to, n)"
  "n mod 4 = 2 \<Longrightarrow> b64_pad to n 3 = (to[n := 61, n + 1 := 61], n + 2)"
  "n mod 4 = 3 \<Longrightarrow> b64_pad to n 3 = (to[n := 61], n + 1)"
proof -
  have three: "(3 :: nat) = Suc (Suc (Suc 0))" by simp
  show "n mod 4 = 0 \<Longrightarrow> b64_pad to n 3 = (to, n)" unfolding three b64_pad.simps by simp
  assume n: "n mod 4 = 2"
  then have "(n mod 4 \<noteq> 0) = True" "((n + 1) mod 4 \<noteq> 0) = True" "((n + 1 + 1) mod 4 \<noteq> 0) = False" by presburger+
  then show "b64_pad to n 3 = (to[n := 61, n + 1 := 61], n + 2)"
    unfolding three b64_pad.simps by (simp only: if_True if_False) simp
next
  have three: "(3 :: nat) = Suc (Suc (Suc 0))" by simp
  assume n: "n mod 4 = 3"
  then have "(n mod 4 \<noteq> 0) = True" "((n + 1) mod 4 \<noteq> 0) = False" by presburger+
  then show "b64_pad to n 3 = (to[n := 61], n + 1)"
    unfolding three b64_pad.simps by (simp only: if_True if_False)
qed

lemma encode_groups:
  assumes "length pre mod 4 = 0" "length (b64 p) < length r"
  shows "(case b64_updates p (pre @ r) (length pre) of (to, n) \<Rightarrow> mg_base64_final to n) =
    (pre @ b64 p @ 0 # drop (length (b64 p) + 1) r, length pre + length (b64 p))"
  using assms
proof (induction p arbitrary: pre r rule: b64.induct)
  case 1
  then obtain r0 r1 where "r = r0 # r1" by (cases r) auto
  then show ?case using 1 pad_steps(1) [OF 1(1)] by (simp add: mg_base64_final_def)
next
  case (2 x)
  then obtain a b c d e r1 where r: "r = a # b # c # d # e # r1" using five [of r] by auto
  note n = mod4 [OF 2(1)]
  have u: "b64_updates [x] (pre @ r) (length pre) =
      (pre @ mg_b64idx (uint (b64_1 x)) # push_bit 4 (x AND 3) # c # d # e # r1, length pre + 1)"
    unfolding b64_updates.simps r update_group(1) [OF 2(1)] prod.case ..
  have f: "mg_base64_final (pre @ mg_b64idx (uint (b64_1 x)) # push_bit 4 (x AND 3) # c # d # e # r1) (length pre + 1) =
      (pre @ b64 [x] @ 0 # r1, length pre + 4)"
    unfolding mg_base64_final_def Let_def n update_group(2) [OF 2(1)]
    by (simp add: pad_steps(2) [OF n(2), simplified] list_update_append)
  show ?case unfolding u prod.case f unfolding r by simp
next
  case (3 x y)
  then obtain a b c d e r1 where r: "r = a # b # c # d # e # r1" using five [of r] by auto
  note n = mod4 [OF 3(1)]
  have u: "b64_updates [x, y] (pre @ r) (length pre) =
      (pre @ mg_b64idx (uint (b64_1 x)) # mg_b64idx (uint (b64_2 x y)) # push_bit 2 (y AND 15) # d # e # r1, length pre + 2)"
    unfolding b64_updates.simps r update_group [OF 3(1)] prod.case ..
  have three: "length pre + 4 - 1 = length pre + 3" by simp
  have f: "mg_base64_final (pre @ mg_b64idx (uint (b64_1 x)) # mg_b64idx (uint (b64_2 x y)) # push_bit 2 (y AND 15) # d # e # r1)
      (length pre + 2) = (pre @ b64 [x, y] @ 0 # r1, length pre + 4)"
    unfolding mg_base64_final_def Let_def n update_group(3) [OF 3(1)]
    by (simp add: three pad_steps(3) [OF n(3), unfolded add.commute [of _ 3]] list_update_append)
  show ?case unfolding u prod.case f unfolding r by simp
next
  case (4 x y z p)
  then obtain a b c d e r1 where r: "r = a # b # c # d # e # r1" using five [of r] by auto
  let ?q = "[mg_b64idx (uint (b64_1 x)), mg_b64idx (uint (b64_2 x y)), mg_b64idx (uint (b64_3 y z)), mg_b64idx (uint (b64_4 z))]"
  have l: "length (pre @ ?q) = length pre + 4" by simp
  have "b64_updates (x # y # z # p) (pre @ r) (length pre) = b64_updates p ((pre @ ?q) @ e # r1) (length (pre @ ?q))"
    unfolding b64_updates.simps r update_group [OF 4(2)] prod.case l by simp
  moreover have "length (pre @ ?q) mod 4 = 0" using 4(2) by simp
  moreover have "length (b64 p) < length (e # r1)" using 4(3) r by simp
  ultimately have "(case b64_updates (x # y # z # p) (pre @ r) (length pre) of (to, n) \<Rightarrow> mg_base64_final to n) =
      ((pre @ ?q) @ b64 p @ 0 # drop (length (b64 p) + 1) (e # r1), length (pre @ ?q) + length (b64 p))"
    using 4(1) [of "pre @ ?q" "e # r1"] by simp
  then show ?case unfolding l r by (simp add: ac_simps)
qed

lemma six_bits: "(\<And>n. bit (w :: u8) n \<Longrightarrow> n < 6) \<Longrightarrow> uint w < 64"
proof -
  assume "\<And>n. bit w n \<Longrightarrow> n < 6"
  then have "take_bit 6 w = w" by (intro bit_word_eqI) (auto simp: bit_take_bit_iff)
  then have "uint w = take_bit 6 (uint w)" by (metis unsigned_take_bit_eq)
  then show ?thesis using take_bit_int_less_exp [of 6 "uint w"] by simp
qed

lemma alphabet: "0 \<le> v \<Longrightarrow> v < 64 \<Longrightarrow> mg_b64rev (mg_b64idx v) = v \<and> mg_b64idx v \<noteq> 61"
proof -
  assume v: "0 \<le> v" "v < 64"
  have "list_all (\<lambda>v. mg_b64rev (mg_b64idx v) = v \<and> mg_b64idx v \<noteq> 61) [0..63]" by code_simp
  then show ?thesis using v by (simp add: list_all_iff)
qed

lemma masks: "(x :: u8) AND 3 = take_bit 2 x" "x AND 15 = take_bit 4 x" "x AND 63 = take_bit 6 x"
  by (simp_all add: take_bit_eq_mask mask_eq_exp_minus_1)

lemma group_bounds: "uint (b64_1 x) < 64" "uint (b64_2 x y) < 64" "uint (b64_3 y z) < 64" "uint (b64_4 z) < 64"
  unfolding masks by (rule six_bits; auto simp: bit_simps dest: bit_imp_le_length)+

lemmas group_chars = alphabet [OF uint_ge_0 group_bounds(1)] alphabet [OF uint_ge_0 group_bounds(2)]
  alphabet [OF uint_ge_0 group_bounds(3)] alphabet [OF uint_ge_0 group_bounds(4)]

lemma high_bit: "8 \<le> n \<Longrightarrow> \<not> bit (w :: u8) n"
  using bit_imp_le_length [of w n] by auto

lemma byte_eqI:
  assumes "bit v 0 = bit w 0" "bit v 1 = bit w 1" "bit v 2 = bit w 2" "bit v 3 = bit w 3"
    "bit v 4 = bit w 4" "bit v 5 = bit w 5" "bit v 6 = bit w 6" "bit v 7 = bit (w :: u8) 7"
  shows "v = w"
proof (rule bit_word_eqI)
  fix n :: nat
  assume "n < LENGTH(8)"
  then have "n \<in> {0, 1, 2, 3, 4, 5, 6, 7}" by auto
  then show "bit v n = bit w n" using assms by blast
qed

lemma group_bytes:
  "(word_of_int (push_bit 2 (uint (b64_1 x)) OR drop_bit 4 (uint (b64_2 x y))) :: u8) = x"
  "(word_of_int (push_bit 4 (uint (b64_2 x y)) OR drop_bit 2 (uint (b64_3 y z))) :: u8) = y"
  "(word_of_int (push_bit 6 (uint (b64_3 y z)) OR uint (b64_4 z)) :: u8) = z"
  unfolding masks by (rule byte_eqI; simp add: bit_simps high_bit)+

lemma group_values:
  "uint (b64_1 x) \<noteq> 64" "uint (b64_2 x y) \<noteq> 64" "mg_b64rev 61 = 64"
  using group_bounds(1) [of x] group_bounds(2) [of x y] by (auto simp: mg_b64rev_def)

lemmas group_decoding = group_chars [THEN conjunct1] group_chars [THEN conjunct2] group_values

lemma decode_b64: "b64_decode_from (b64 p) dst = Some (dst @ p)"
proof (induction p arbitrary: dst rule: b64.induct)
  case 1
  show ?case by simp
next
  case (2 x)
  show ?case
    using group_bounds(1) [of x] group_bounds(2) [of x 0]
    unfolding b64.simps b64_decode_from.simps Let_def group_decoding group_bytes by simp
next
  case (3 x y)
  show ?case
    using group_bounds(1) [of x] group_bounds(2) [of x y] group_chars(3) [of y 0, THEN conjunct2]
    unfolding b64.simps b64_decode_from.simps Let_def group_decoding group_bytes by simp
next
  case (4 x y z p)
  show ?case
    using group_bounds(1) [of x] group_bounds(2) [of x y] group_chars(3) [of y z, THEN conjunct2] group_chars(4) [of z, THEN conjunct2]
    unfolding b64.simps append.simps b64_decode_from.simps Let_def group_decoding group_bytes 4
    by simp
qed

lemma length_b64: "length (b64 p) = 4 * ((length p + 2) div 3)"
proof (induction p rule: b64.induct)
  case (4 x y z p)
  have "(length (x # y # z # p) + 2) div 3 = (length p + 2) div 3 + 1" by (simp add: div_nat_eqI)
  then show ?case using 4 by simp
qed auto

lemma encode_b64:
  "length (b64 p) < length to \<Longrightarrow>
    mg_base64_encode p to = (b64 p @ 0 # drop (length (b64 p) + 1) to, length (b64 p))"
  using encode_groups [of "[]" p to] by (simp add: mg_base64_encode_def)

lemma idx_not_null: "mg_b64idx (uint (b64_1 x)) \<noteq> 0" "mg_b64idx (uint (b64_2 x y)) \<noteq> 0"
  "mg_b64idx (uint (b64_3 y z)) \<noteq> 0" "mg_b64idx (uint (b64_4 z)) \<noteq> 0"
proof -
  have "list_all (\<lambda>v. mg_b64idx v \<noteq> 0) [0..63]" by code_simp
  then have "\<And>v. 0 \<le> v \<Longrightarrow> v < 64 \<Longrightarrow> mg_b64idx v \<noteq> 0" by (simp add: list_all_iff)
  then show "mg_b64idx (uint (b64_1 x)) \<noteq> 0" "mg_b64idx (uint (b64_2 x y)) \<noteq> 0"
    "mg_b64idx (uint (b64_3 y z)) \<noteq> 0" "mg_b64idx (uint (b64_4 z)) \<noteq> 0"
    using group_bounds uint_ge_0 by blast+
qed

lemma b64_no_null: "list_all (\<lambda>v. v \<noteq> 0) (b64 p)"
proof (induction p rule: b64.induct)
  case 1
  show ?case by simp
next
  case (2 x)
  show ?case unfolding b64.simps list.pred_inject using idx_not_null(1) [of x] idx_not_null(2) [of x 0] by (intro conjI) simp_all
next
  case (3 x y)
  show ?case unfolding b64.simps list.pred_inject
    using idx_not_null(1) [of x] idx_not_null(2) [of x y] idx_not_null(3) [of y 0] by (intro conjI) simp_all
next
  case (4 x y z p)
  show ?case unfolding b64.simps append.simps list.pred_inject using 4
      idx_not_null(1) [of x] idx_not_null(2) [of x y] idx_not_null(3) [of y z] idx_not_null(4) [of z] by (intro conjI)
qed

text \<open>Base64: encoding any bytes into a buffer large enough for the text and its terminator writes nothing beyond them, the
returned length is four characters for every three bytes begun, and decoding that many characters gives the bytes back.\<close>

theorem base64_roundtrip:
  assumes "4 * ((length p + 2) div 3) < length to"
  shows "case mg_base64_encode p to of (to', n) \<Rightarrow>
    n = 4 * ((length p + 2) div 3) \<and> to' ! n = 0 \<and> length to' = length to \<and>
    drop (n + 1) to' = drop (n + 1) to \<and> mg_base64_decode (take n to') = p"
  using assms unfolding length_b64 [symmetric] by (simp add: encode_b64 mg_base64_decode_def decode_b64 nth_append)

lemma base64_roundtrip_witness:
  "mg_base64_encode [0x4D, 0x61] (replicate 6 1) = ([0x54, 0x57, 0x45, 0x3D, 0, 1], 4) \<and>
   mg_base64_decode [0x54, 0x57, 0x45, 0x3D] = [0x4D, 0x61]"
proof -
  have e: "mg_base64_encode [0x4D, 0x61] (replicate 6 1) = ([0x54, 0x57, 0x45, 0x3D, 0, 1], 4)" by code_simp
  show ?thesis using base64_roundtrip [of "[0x4D, 0x61]" "replicate 6 1"] unfolding e by simp
qed

section \<open>URLs\<close>

text \<open>\<open>atoi\<close>, which reads as \<open>strtol\<close> does.\<close>

definition atoi :: "string \<Rightarrow> int" where
  "atoi s =
     (case strto_sign s of (neg, t) \<Rightarrow>
        let v = (if neg then - int (scan_base 10 t 0) else int (scan_base 10 t 0)) in max (- (2 ^ 31)) (min (2 ^ 31 - 1) v))"

record url =
  u_user :: int
  u_pass :: int
  u_host :: int
  u_port :: int
  u_uri :: int
  u_end :: int

fun urlparse_from :: "string \<Rightarrow> char \<Rightarrow> int \<Rightarrow> url \<Rightarrow> url" where
  "urlparse_from [] prev i u = u\<lparr>u_end := i\<rparr>"
| "urlparse_from (c # s) prev i u =
     urlparse_from s c (i + 1)
       (if i > 0 \<and> prev = CHR ''/'' \<and> c = CHR ''/'' then u\<lparr>u_host := i + 1, u_port := 0\<rparr>
        else if c = CHR '':'' then u\<lparr>u_port := i + 1\<rparr>
        else if c = CHR ''@'' then u\<lparr>u_user := u_host u, u_pass := u_port u, u_host := i + 1, u_port := 0\<rparr>
        else if u_host u \<noteq> 0 \<and> u_uri u = 0 \<and> c = CHR ''/'' then u\<lparr>u_uri := i\<rparr>
        else u)"

definition urlparse :: "string \<Rightarrow> url" where
  "urlparse url = urlparse_from url (CHR 0x00) 0
     \<lparr>u_user = 0, u_pass = 0, u_host = 0, u_port = 0, u_uri = 0, u_end = 0\<rparr>"

text \<open>Offset and length of the host; the length is converted to \<open>size_t\<close>.\<close>

definition mg_url_host :: "string \<Rightarrow> nat \<times> u32" where
  "mg_url_host url =
     (let u = urlparse url;
          n = (if u_port u \<noteq> 0 then u_port u - u_host u - 1
               else if u_uri u \<noteq> 0 then u_uri u - u_host u else u_end u - u_host u)
      in (nat (u_host u), word_of_int n))"

definition mg_url_uri :: "string \<Rightarrow> string" where
  "mg_url_uri url = (let u = urlparse url in if u_uri u \<noteq> 0 then drop (nat (u_uri u)) url else ''/'')"

definition mg_url_port :: "string \<Rightarrow> u16" where
  "mg_url_port url =
     (let u = urlparse url;
          port = 0;
          port = (if starts_with ''http:'' url then 80 else port);
          port = (if starts_with ''wss:'' url \<or> starts_with ''https:'' url then 443 else port);
          port = (if starts_with ''mqtt:'' url then 1883 else port);
          port = (if starts_with ''mqtts:'' url then 8883 else port)
      in if u_port u \<noteq> 0 then word_of_int (atoi (drop (nat (u_port u)) url)) else port)"

definition mg_url_is_ssl :: "string \<Rightarrow> bool" where
  "mg_url_is_ssl url \<longleftrightarrow> starts_with ''wss:'' url \<or> starts_with ''https:'' url \<or> starts_with ''mqtts:'' url \<or>
     starts_with ''ssl:'' url \<or> starts_with ''tls:'' url"

section \<open>The upgrade request\<close>

text \<open>
  \<open>mg_error\<close>: the handler is told, the connection will be closed. \<open>mg_tls_init\<close> as it is compiled when neither
  \<open>MG_ENABLE_MBEDTLS\<close> nor \<open>MG_ENABLE_OPENSSL\<close> is set.
\<close>

definition mg_error :: "'s handler \<Rightarrow> string \<Rightarrow> 's \<times> mg_connection \<Rightarrow> ('s \<times> mg_connection) option" where
  "mg_error fn t sc = map_option (\<lambda>(s, c). (s, c\<lparr>c_is_closing := True\<rparr>)) (mg_call fn (MG_EV_ERROR t) sc)"

definition mg_tls_init :: "'s handler \<Rightarrow> string \<Rightarrow> 's \<times> mg_connection \<Rightarrow> (bool \<times> 's \<times> mg_connection) option" where
  "mg_tls_init fn srvname sc = map_option (Pair False) (mg_error fn ''TLS is not enabled'' sc)"

text \<open>
  \<open>mg_vasprintf\<close> on a C library that returns the length: the text when it fits the buffer of \<open>size\<close> bytes or a larger one
  could be allocated, and its length or -1.
\<close>

definition mg_vasprintf :: "nat \<Rightarrow> string \<Rightarrow> allocs \<Rightarrow> string option \<times> int \<times> allocs" where
  "mg_vasprintf sz t h =
     (if length t < sz then (Some t, int (length t), h)
      else (case malloc (word_of_nat (length t) + 1) h of
              (None, h') \<Rightarrow> (None, - 1, h')
            | (Some b, h') \<Rightarrow> (Some t, int (length t), h')))"

definition upgrade_text :: "string \<Rightarrow> string \<Rightarrow> string \<Rightarrow> string \<Rightarrow> string" where
  "upgrade_text uri host headers key =
     ''GET '' @ uri @ '' HTTP/1.1'' @ crlf @
     ''Upgrade: websocket'' @ crlf @
     ''Host: '' @ host @ crlf @
     ''Connection: Upgrade'' @ crlf @
     headers @
     ''Sec-WebSocket-Version: 13'' @ crlf @
     ''Sec-WebSocket-Key: '' @ key @ crlf @ crlf"

text \<open>
  What \<open>mg_ws_connect\<close> does after the TLS set-up, with the formatted extra headers (none for a null format). \<open>None\<close>: a null
  pointer is printed.
\<close>

definition ws_request :: "string \<Rightarrow> string option \<Rightarrow> mg_connection \<Rightarrow> mg_connection option" where
  "ws_request url headers c =
     (let (off, len) = mg_url_host url;
          host = (if sint len < 0 then drop off url else take (unat len) (drop off url));
          (buf1, n1, h) = (case headers of None \<Rightarrow> (Some [], 0, c_allocs c) | Some t \<Rightarrow> mg_vasprintf 128 t (c_allocs c))
      in case buf1 of
           None \<Rightarrow> None
         | Some t1 \<Rightarrow>
             let (nonce, c) = mg_random 16 (c\<lparr>c_allocs := h\<rparr>);
                 key = fst (mg_base64_encode nonce (replicate 30 0));
                 (buf2, n2, h) = mg_vasprintf 256 (upgrade_text (mg_url_uri url) host t1 (c_string key)) (c_allocs c);
                 (n, io, h) = mg_iobuf_append (c_send c) (map_option bytes_of buf2) (word_of_int n2) MG_IO_SIZE h
             in Some (c\<lparr>c_send := io, c_allocs := h\<rparr>))"

text \<open>
  The connection comes from \<open>mg_connect\<close>. The boolean of the result: the websocket protocol was installed. The TLS set-up
  is given the host's name.
\<close>

definition mg_ws_connect ::
  "(string \<Rightarrow> 's \<times> mg_connection \<Rightarrow> (bool \<times> 's \<times> mg_connection) option) \<Rightarrow> string \<Rightarrow> string option \<Rightarrow>
   ('s \<times> mg_connection) option \<Rightarrow> (bool \<times> 's \<times> mg_connection) option option" where
  "mg_ws_connect tls url headers conn =
     (case conn of
        None \<Rightarrow> Some None
      | Some (s, c) \<Rightarrow>
          let (off, len) = mg_url_host url;
              upgrade = (\<lambda>s c. map_option (\<lambda>c'. Some (True, s, c')) (ws_request url headers c))
          in if take 6 url = ''wss://'' then
               if 256 \<le> len then Some (Some (False, s, c\<lparr>c_is_closing := True\<rparr>))
               else if off + unat len > length url + 1 then None
               else (case tls (take (unat len) (drop off url)) (s, c) of
                       None \<Rightarrow> None
                     | Some (False, s', c') \<Rightarrow> Some (Some (False, s', c'\<lparr>c_is_closing := True\<rparr>))
                     | Some (True, s', c') \<Rightarrow> upgrade s' c')
             else upgrade s c)"

definition s_coinbase_url :: string where
  "s_coinbase_url = ''wss://ws-feed.exchange.coinbase.com''"

lemma coinbase_address:
  "mg_url_host s_coinbase_url = (6, 29)" "mg_url_uri s_coinbase_url = ''/''" "mg_url_port s_coinbase_url = 443"
  "mg_url_is_ssl s_coinbase_url"
  by code_simp+

subsection \<open>Connecting to the exchange\<close>

text \<open>Without TLS compiled in, the handler is told and the connection closed; nothing is sent.\<close>

lemma no_tls_no_stream:
  "mg_ws_connect (mg_tls_init fn) s_coinbase_url headers (Some (s, c)) =
    (case fn (MG_EV_ERROR ''TLS is not enabled'') (s, c) of
       None \<Rightarrow> None
     | Some (s', c') \<Rightarrow> Some (Some (False, s', c'\<lparr>c_is_closing := True\<rparr>)))"
proof -
  have "take 6 s_coinbase_url = ''wss://''" "length s_coinbase_url = 35" by code_simp+
  then show ?thesis
    by (simp add: mg_ws_connect_def coinbase_address mg_tls_init_def mg_error_def mg_call_def mg_ws_cb_def
        split: option.splits)
qed

lemma bytes_of_text: "bytes_of (text_of b) = b"
proof -
  have "unat x mod 256 = unat x" for x :: u8 using unsigned_less [of x, where ?'a = nat] by simp
  then show ?thesis by (simp add: bytes_of_def text_of_def o_def)
qed

lemma c_string_b64: "length (b64 p) < length to \<Longrightarrow> c_string (fst (mg_base64_encode p to)) = text_of (b64 p)"
  using b64_no_null [of p] by (simp add: c_string_def encode_b64 list_all_iff)

lemma request_sent:
  assumes "t = upgrade_text (mg_url_uri url) (take (unat len) (drop off url)) [] (text_of (b64 (map (c_random c) [0..<16])))"
    "mg_url_host url = (off, len)" "0 \<le> sint len" "can_send 256 c" "length t < 256"
  shows "\<exists>c'. ws_request url None c = Some c' \<and> has_sent (bytes_of t) c c'"
proof -
  obtain m c1 where r: "mg_random 16 c = (m, c1)" by (rule prod.exhaust)
  then have m: "m = map (c_random c) [0..<16]" by (simp add: mg_random_def)
  have s1: "has_sent [] c c1" "can_send 256 c1" using mg_random_sent [OF r assms(4)] sent_can_send [of "[]" c c1 256] assms(4) by auto
  have w: "unat (word_of_nat (length t) :: u32) = length t" using assms(5) by (simp add: unat_of_nat)
  have s2: "has_sent (bytes_of t) c1 (snd (mg_send c1 (bytes_of t) (word_of_nat (length t))))"
    by (rule mg_send_sent) (use s1(2) assms(5) w in \<open>auto simp: can_send_def bytes_of_def\<close>)
  have "ws_request url None c = Some (snd (mg_send c1 (bytes_of t) (word_of_nat (length t))))"
    using assms(3,5) r assms(1) [symmetric] unfolding ws_request_def assms(2)
    by (simp add: mg_vasprintf_def c_string_b64 length_b64 m mg_send_def split: prod.splits)
  then show ?thesis using sent_trans [OF s1(1) s2] by auto
qed

text \<open>C30. Opening the stream: when the TLS set-up for \<open>ws-feed.exchange.coinbase.com\<close> succeeds and the request can be
buffered, \<open>mg_ws_connect\<close> installs the websocket protocol and queues exactly one upgrade request for \<open>/\<close> at that host, whose key is
the Base64 text, 24 characters, of the 16 random bytes drawn.\<close>

theorem coinbase_upgrade:
  assumes "tls ''ws-feed.exchange.coinbase.com'' (s, c) = Some (True, s', c1)" "can_send 256 c1"
  shows "\<exists>c2 key. mg_ws_connect tls s_coinbase_url None (Some (s, c)) = Some (Some (True, s', c2)) \<and>
    length key = 24 \<and> mg_base64_decode (bytes_of key) = map (c_random c1) [0..<16] \<and>
    has_sent (bytes_of (upgrade_text ''/'' ''ws-feed.exchange.coinbase.com'' [] key)) c1 c2"
proof -
  define key where "key = text_of (b64 (map (c_random c1) [0..<16]))"
  have key: "length key = 24" "bytes_of key = b64 (map (c_random c1) [0..<16])"
    by (simp_all add: key_def bytes_of_text) (simp add: text_of_def length_b64)
  have u: "take 6 s_coinbase_url = ''wss://''" "length s_coinbase_url = 35"
    "take 29 (drop 6 s_coinbase_url) = ''ws-feed.exchange.coinbase.com''" by code_simp+
  have "length (upgrade_text ''/'' ''ws-feed.exchange.coinbase.com'' [] key) < 256" by (simp add: upgrade_text_def key)
  then obtain c2 where c2: "ws_request s_coinbase_url None c1 = Some c2"
      "has_sent (bytes_of (upgrade_text ''/'' ''ws-feed.exchange.coinbase.com'' [] key)) c1 c2"
    using request_sent [OF refl coinbase_address(1) _ assms(2)] u(3) by (auto simp: coinbase_address key_def)
  have "mg_ws_connect tls s_coinbase_url None (Some (s, c)) = Some (Some (True, s', c2))"
    using assms(1) u by (simp add: mg_ws_connect_def coinbase_address c2(1))
  moreover have "mg_base64_decode (bytes_of key) = map (c_random c1) [0..<16]"
    by (simp add: key mg_base64_decode_def decode_b64)
  ultimately show ?thesis using key(1) c2(2) by blast
qed

lemma coinbase_upgrade_witness:
  "\<exists>c2 key. mg_ws_connect (\<lambda>host sc. Some (host = ''ws-feed.exchange.coinbase.com'', sc)) s_coinbase_url None (Some ((), idle_client)) =
      Some (Some (True, (), c2)) \<and>
    length key = 24 \<and> mg_base64_decode (bytes_of key) = map (c_random idle_client) [0..<16] \<and>
    has_sent (bytes_of (upgrade_text ''/'' ''ws-feed.exchange.coinbase.com'' [] key)) idle_client c2"
proof -
  have "can_send 256 idle_client" by (simp add: can_send_def idle_client_def)
  then show ?thesis
    using coinbase_upgrade [of "\<lambda>host sc. Some (host = ''ws-feed.exchange.coinbase.com'', sc)" "()" idle_client "()" idle_client]
    by simp
qed

end
