(* ===== verification/Fmma_Dns.thy ===== *)
theory Fmma_Dns
  imports Fmma_Ws Fmma_Cstd
begin

text \<open>
  The resolver of \<open>NewArch/In-Memory v2/mongoose.c\<close> (\<open>dns.c\<close>): queries, answers and the connections that wait for one.
  A packet is the bytes received; an index counts from its first byte, so the code's offsets, which count from the end of the header,
  are 12 less. \<open>None\<close> is a read outside the packet.
\<close>

section \<open>Answers\<close>

definition rd_byte :: "u8 list \<Rightarrow> nat \<Rightarrow> u8 option" where
  "rd_byte p k = (if k < length p then Some (p ! k) else None)"

definition rd_bytes :: "u8 list \<Rightarrow> nat \<Rightarrow> nat \<Rightarrow> u8 list option" where
  "rd_bytes p k n = (if k + n \<le> length p then Some (take n (drop k p)) else None)"

text \<open>The writes after the loop; the number of bytes read is returned.\<close>

definition name_end :: "nat \<Rightarrow> nat \<Rightarrow> u8 list \<Rightarrow> nat \<times> u8 list" where
  "name_end i j to = (i, (if j < length to then to[j := 0] else to)[length to - 1 := 0])"

definition name_ptr :: "u8 \<Rightarrow> u8 \<Rightarrow> nat" where
  "name_ptr hi lo = unat (hi AND 0x3f) * 256 + unat lo"

text \<open>A label of \<open>n\<close> bytes appended to the name, after a dot when it is not the first.\<close>

definition put_label :: "nat \<Rightarrow> u8 list \<Rightarrow> u8 list \<Rightarrow> nat \<times> u8 list" where
  "put_label j bytes to =
     (let (j, to) = (if 0 < j \<and> j < length to then (j + 1, to[j := 46]) else (j, to))
      in (j + length bytes, if j + length bytes < length to then store j bytes to else to))"

text \<open>The loop of \<open>mg_dns_parse_name\<close>; a compressed name is read at the offset it points to, five levels deep at most.\<close>

function name_from :: "nat \<Rightarrow> u8 list \<Rightarrow> nat \<Rightarrow> nat \<Rightarrow> nat \<Rightarrow> u8 list \<Rightarrow> (nat \<times> u8 list) option" where
  "name_from depth p off i j to =
     (if \<not> off + i + 1 < length p then Some (name_end i j to)
      else (case rd_byte p (off + i) of
              None \<Rightarrow> None
            | Some b \<Rightarrow>
                if b = 0 then Some (name_end i j to)
                else if b AND 0xc0 \<noteq> 0 then
                  (case rd_byte p (off + i + 1) of
                     None \<Rightarrow> None
                   | Some lo \<Rightarrow>
                       if name_ptr b lo + 1 < length p then
                         (case rd_byte p (name_ptr b lo) of
                            None \<Rightarrow> None
                          | Some q \<Rightarrow>
                              if q AND 0xc0 \<noteq> 0 then Some (name_end (i + 1) j to)
                              else if 5 < depth + 1 then Some (name_end (i + 1) 0 to)
                              else (case name_from (depth + 1) p (name_ptr b lo) 0 0 to of
                                      None \<Rightarrow> None
                                    | Some (j', to') \<Rightarrow> Some (name_end (i + 1) j' to')))
                       else Some (name_end (i + 1) j to))
                else if length p \<le> off + i + unat b + 1 then Some (name_end i j to)
                else (case rd_bytes p (off + i + 1) (unat b) of
                        None \<Rightarrow> None
                      | Some bytes \<Rightarrow>
                          name_from depth p off (i + unat b + 1) (fst (put_label j bytes to)) (snd (put_label j bytes to)))))"
  by pat_completeness auto

termination
  by (relation "measures [\<lambda>(depth, p, off, i, j, to). 5 - depth, \<lambda>(depth, p, off, i, j, to). length p - (off + i)]") auto

declare name_from.simps [simp del]

definition mg_dns_parse_name :: "u8 list \<Rightarrow> nat \<Rightarrow> u8 list \<Rightarrow> (nat \<times> u8 list) option" where
  "mg_dns_parse_name p off to = name_from 0 p off 0 0 to"

fun skip_questions :: "nat \<Rightarrow> u8 list \<Rightarrow> nat \<Rightarrow> u8 list \<Rightarrow> (nat \<times> u8 list) option" where
  "skip_questions 0 p j to = Some (j, to)"
| "skip_questions (Suc k) p j to =
     (case mg_dns_parse_name p j to of None \<Rightarrow> None | Some (i, to') \<Rightarrow> skip_questions k p (j + i + 5) to')"

text \<open>The first record whose data has four bytes; its type is not looked at.\<close>

fun find_answer :: "nat \<Rightarrow> u8 list \<Rightarrow> nat \<Rightarrow> u8 list \<Rightarrow> (u8 list option \<times> u8 list) option" where
  "find_answer 0 p j to = Some (None, to)"
| "find_answer (Suc k) p j to =
     (case mg_dns_parse_name p j to of
        None \<Rightarrow> None
      | Some (i, to1) \<Rightarrow>
          let j = j + i + 9
          in if length p < j + 2 then Some (None, to1)
             else (case rd_bytes p j 2 of
                     None \<Rightarrow> None
                   | Some b \<Rightarrow>
                       let n = unat (b ! 0) * 256 + unat (b ! 1)
                       in if length p < j + 2 + n then Some (None, to1)
                          else if n = 4 then map_option (\<lambda>ip. (Some ip, to1)) (rd_bytes p (j + 2) 4)
                          else find_answer k p (j + 2 + n) to1))"

record mg_dns_message =
  dm_txnid :: u16
  dm_ipaddr :: "u8 list"
  dm_name :: "u8 list"

text \<open>The inner option: whether an address was found. The name starts with what was on the stack.\<close>

definition mg_dns_parse :: "u8 list \<Rightarrow> u8 list \<Rightarrow> mg_dns_message option option" where
  "mg_dns_parse p to =
     (if length p < 12 then Some None
      else (case skip_questions (unat (mg_ntohs (read16 p 4))) p 12 to of
              None \<Rightarrow> None
            | Some (j, to1) \<Rightarrow>
                (case find_answer (unat (mg_ntohs (read16 p 6))) p j to1 of
                   None \<Rightarrow> None
                 | Some (None, _) \<Rightarrow> Some None
                 | Some (Some ip, to2) \<Rightarrow>
                     Some (Some \<lparr>dm_txnid = mg_ntohs (read16 p 0), dm_ipaddr = ip, dm_name = to2\<rparr>))))"

subsection \<open>No packet makes it read or write outside\<close>

lemma length_name_end [simp]: "length (snd (name_end i j to)) = length to"
  by (simp add: name_end_def)

lemma length_put_label [simp]: "length (snd (put_label j bytes to)) = length to"
  by (auto simp: put_label_def Let_def)

lemma name_end_null: "0 < length to \<Longrightarrow> snd (name_end i j to) ! (length to - 1) = 0"
  by (simp add: name_end_def)

definition name_ok :: "nat \<Rightarrow> (nat \<times> u8 list) option \<Rightarrow> bool" where
  "name_ok n r \<longleftrightarrow> (\<exists>i to. r = Some (i, to) \<and> length to = n \<and> (0 < n \<longrightarrow> to ! (n - 1) = 0))"

lemma name_ok_end: "length t = n \<Longrightarrow> name_ok n (Some (name_end i j t))"
  using length_name_end [of i j t] name_end_null [of t i j] by (cases "name_end i j t") (auto simp: name_ok_def)

lemma name_ok_nested:
  "name_ok n r \<Longrightarrow> name_ok n (case r of None \<Rightarrow> None | Some (j', to') \<Rightarrow> Some (name_end i j' to'))"
  by (auto simp: name_ok_def [of n r] intro!: name_ok_end)

lemma name_from_safe: "name_ok (length to) (name_from depth p off i j to)"
proof (induction depth p off i j to rule: name_from.induct)
  case (1 depth p off i j to)
  show ?case
  proof (cases "off + i + 1 < length p")
    case False
    then show ?thesis by (simp add: name_from.simps [of depth] name_ok_end)
  next
    case True
    then have b: "rd_byte p (off + i) = Some (p ! (off + i))" "rd_byte p (off + i + 1) = Some (p ! (off + i + 1))"
      by (simp_all add: rd_byte_def)
    let ?n = "name_ptr (p ! (off + i)) (p ! (off + i + 1))"
    have nested: "name_ok (length to) (case name_from (depth + 1) p ?n 0 0 to of None \<Rightarrow> None
        | Some (j', to') \<Rightarrow> Some (name_end (i + 1) j' to'))"
      if "p ! (off + i) AND 0xc0 \<noteq> 0" "p ! (off + i) \<noteq> 0" "?n + 1 < length p" "rd_byte p ?n = Some q" "q AND 0xc0 = 0"
        "\<not> 5 < depth + 1" for q
      using that True b by (intro name_ok_nested 1(1)) auto
    have next_label: "name_ok (length to) (name_from depth p off (i + unat (p ! (off + i)) + 1)
        (fst (put_label j bytes to)) (snd (put_label j bytes to)))"
      if "p ! (off + i) AND 0xc0 = 0" "p ! (off + i) \<noteq> 0" "\<not> length p \<le> off + i + unat (p ! (off + i)) + 1"
        "rd_bytes p (off + i + 1) (unat (p ! (off + i))) = Some bytes" for bytes
      using 1(2) [OF _ b(1) that(2) _ that(3,4)] True that by simp
    show ?thesis
      using True b nested next_label
      by (subst name_from.simps) (auto simp: name_ok_end rd_byte_def rd_bytes_def)
  qed
qed

lemma parse_name_safe:
  "\<exists>i to'. mg_dns_parse_name p off to = Some (i, to') \<and> length to' = length to \<and>
    (0 < length to \<longrightarrow> to' ! (length to - 1) = 0)"
  using name_from_safe [of to 0 p off 0 0] by (auto simp: name_ok_def mg_dns_parse_name_def)

lemma skip_questions_safe:
  "\<exists>j' to'. skip_questions k p j to = Some (j', to') \<and> length to' = length to \<and>
    (0 < length to \<and> to ! (length to - 1) = 0 \<longrightarrow> to' ! (length to - 1) = 0)"
proof (induction k arbitrary: j to)
  case (Suc k)
  obtain i t where t: "mg_dns_parse_name p j to = Some (i, t)" "length t = length to" "0 < length to \<Longrightarrow> t ! (length to - 1) = 0"
    using parse_name_safe [of p j to] by auto
  then show ?case using Suc.IH [of "j + i + 5" t] by auto
qed simp

lemma find_answer_safe:
  "\<exists>r to'. find_answer k p j to = Some (r, to') \<and> length to' = length to \<and>
    (\<forall>ip. r = Some ip \<longrightarrow> (\<exists>m. m + 4 \<le> length p \<and> ip = take 4 (drop m p)) \<and> (0 < length to \<longrightarrow> to' ! (length to - 1) = 0))"
proof (induction k arbitrary: j to)
  case (Suc k)
  obtain i t where t: "mg_dns_parse_name p j to = Some (i, t)" "length t = length to" "0 < length to \<Longrightarrow> t ! (length to - 1) = 0"
    using parse_name_safe [of p j to] by auto
  define m where "m = j + i + 9"
  show ?case
  proof (cases "length p < m + 2")
    case True
    then show ?thesis using t by (simp add: m_def)
  next
    case False
    then obtain b where b: "rd_bytes p m 2 = Some b" by (simp add: rd_bytes_def)
    define n where "n = unat (b ! 0) * 256 + unat (b ! 1)"
    have step: "find_answer (Suc k) p j to =
        (if length p < m + 2 + n then Some (None, t)
         else if n = 4 then map_option (\<lambda>ip. (Some ip, t)) (rd_bytes p (m + 2) 4) else find_answer k p (m + 2 + n) t)"
      using False b unfolding find_answer.simps t(1) option.case prod.case Let_def m_def [symmetric]
      by (simp add: n_def)
    show ?thesis
    proof (cases "length p < m + 2 + n \<or> n = 4")
      case True
      then show ?thesis using t unfolding step
        by (auto simp: rd_bytes_def intro!: exI [of _ "m + 2"])
    next
      case no: False
      then show ?thesis using Suc.IH [of "m + 2 + n" t] t(2) unfolding step by simp
    qed
  qed
qed simp

section \<open>Queries\<close>

text \<open>The name is the text its pointer points to, which may go on after \<open>len\<close> characters.\<close>

fun dns_labels :: "string \<Rightarrow> nat \<Rightarrow> nat \<Rightarrow> nat \<Rightarrow> u8 list \<Rightarrow> nat \<Rightarrow> u8 list \<times> nat" where
  "dns_labels name len i 0 data n = (data, n)"
| "dns_labels name len i (Suc left) data n =
     (let (data, n) = (if c_at name i = CHR ''.'' \<or> len \<le> i
                       then (store (n + 1) (bytes_of (take (i - n) (drop n name))) (data[n := word_of_nat (i - n)]), i + 1)
                       else (data, n))
      in if len \<le> i then (data, n) else dns_labels name len (i + 1) left data n)"

definition dns_header :: "u16 \<Rightarrow> u8 list" where
  "dns_header txnid = le16 (mg_ntohs txnid) @ le16 (mg_ntohs 0x100) @ le16 (mg_ntohs 1) @ replicate 6 0"

definition mg_dns_send :: "string \<Rightarrow> nat \<Rightarrow> u16 \<Rightarrow> u8 list" where
  "mg_dns_send name len txnid =
     (let (data, n) = dns_labels name len 0 251 (replicate 256 0) 0;
          data = store n [0, 0, 1, 0, 1] data
      in dns_header txnid @ take (n + 5) data)"

subsection \<open>A name asked for is the name answered\<close>

fun host_of :: "string list \<Rightarrow> string" where
  "host_of [] = []"
| "host_of [l] = l"
| "host_of (l # ls) = l @ CHR ''.'' # host_of ls"

definition label_bytes :: "string \<Rightarrow> u8 list" where
  "label_bytes l = word_of_nat (length l) # bytes_of l"

definition qname :: "string list \<Rightarrow> u8 list" where
  "qname ls = concat (map label_bytes ls)"

definition label_ok :: "string \<Rightarrow> bool" where
  "label_ok l \<longleftrightarrow> l \<noteq> [] \<and> length l < 64 \<and> CHR ''.'' \<notin> set l \<and> CHR 0x00 \<notin> set l"

lemma length_bytes_of [simp]: "length (bytes_of t) = length t"
  by (simp add: bytes_of_def)

lemma length_qname: "ls \<noteq> [] \<Longrightarrow> length (qname ls) = length (host_of ls) + 1"
  by (induction ls rule: host_of.induct) (auto simp: qname_def label_bytes_def)

lemma store_label:
  assumes "length t < length r"
  shows "store (length pre + 1) (bytes_of t) ((pre @ r)[length pre := v]) = pre @ v # bytes_of t @ drop (length t + 1) r"
  using assms by (cases r) (auto simp: store_def list_update_append)

lemma dns_labels_scan:
  "(\<And>k. k < m \<Longrightarrow> i + k < len \<and> c_at name (i + k) \<noteq> CHR ''.'') \<Longrightarrow> m \<le> left \<Longrightarrow>
    dns_labels name len i left data n = dns_labels name len (i + m) (left - m) data n"
proof (induction m arbitrary: i left)
  case (Suc m)
  obtain l where l: "left = Suc l" using Suc.prems(2) by (cases left) auto
  have "c_at name i \<noteq> CHR ''.''" "i < len" using Suc.prems(1) [of 0] by auto
  moreover have "dns_labels name len (i + 1) l data n = dns_labels name len (i + 1 + m) (l - m) data n"
  proof (rule Suc.IH)
    fix k assume "k < m"
    then show "i + 1 + k < len \<and> c_at name (i + 1 + k) \<noteq> CHR ''.''" using Suc.prems(1) [of "Suc k"] by simp
  qed (use Suc.prems(2) l in simp)
  ultimately show ?case using l by simp
qed simp

lemma label_chars: "label_ok l \<Longrightarrow> k < length l \<Longrightarrow> c_at (done @ l @ rest) (length done + k) \<noteq> CHR ''.''"
  by (simp add: label_ok_def c_at_def nth_append) (metis nth_mem)

text \<open>One label, from its first character to the dot or the end.\<close>

lemma dns_labels_one:
  assumes "label_ok l" "name = done @ l @ rest" "length pre = length done" "length l < length r" "length l < left"
    "length done + length l \<le> len" "len = length done + length l \<or> rest \<noteq> [] \<and> hd rest = CHR ''.''"
  shows "dns_labels name len (length done) left (pre @ r) (length done) =
    (if len = length done + length l then (pre @ label_bytes l @ drop (length l + 1) r, length done + length l + 1)
     else dns_labels name len (length done + length l + 1) (left - length l - 1)
       (pre @ label_bytes l @ drop (length l + 1) r) (length done + length l + 1))"
proof -
  let ?i = "length done + length l"
  obtain m where m: "left - length l = Suc m" using assms(5) by (cases "left - length l") auto
  have "dns_labels name len (length done) left (pre @ r) (length done) =
      dns_labels name len ?i (left - length l) (pre @ r) (length done)"
    by (rule dns_labels_scan) (use assms label_chars [OF assms(1)] in auto)
  moreover have "c_at name ?i = CHR ''.'' \<or> len \<le> ?i"
    using assms(2,7) by (auto simp: c_at_def nth_append hd_conv_nth)
  moreover have "store (length done + 1) (bytes_of (take (?i - length done) (drop (length done) name)))
      ((pre @ r)[length done := word_of_nat (?i - length done)]) = pre @ label_bytes l @ drop (length l + 1) r"
    using store_label [OF assms(4), of pre "word_of_nat (length l)"] assms(2,3) by (simp add: label_bytes_def)
  ultimately show ?thesis using assms(6) by (simp add: m Let_def)
qed

lemma dns_labels_spec:
  assumes "ls \<noteq> []" "\<And>l. l \<in> set ls \<Longrightarrow> label_ok l" "name = done @ host_of ls @ rest" "length pre = length done"
    "len = length done + length (host_of ls)" "length (host_of ls) < length r" "length (host_of ls) < left"
  shows "dns_labels name len (length done) left (pre @ r) (length done) =
    (pre @ qname ls @ drop (length (qname ls)) r, length done + length (qname ls))"
  using assms
proof (induction ls arbitrary: "done" pre r left rule: host_of.induct)
  case 1
  then show ?case by simp
next
  case (2 l)
  then show ?case using dns_labels_one [of l name "done" rest pre r left len] by (simp add: qname_def label_bytes_def)
next
  case (3 l l' ls)
  let ?d = "done @ l @ ''.''" and ?p = "pre @ label_bytes l"
  have len: "length ?d = length done + length l + 1" "length ?p = length ?d" using 3(5) by (simp_all add: label_bytes_def)
  have "dns_labels name len (length done) left (pre @ r) (length done) =
      dns_labels name len (length ?d) (left - length l - 1) (?p @ drop (length l + 1) r) (length ?d)"
    using dns_labels_one [of l name "done" "CHR ''.'' # host_of (l' # ls) @ rest" pre r left len] 3(3-8) len by simp
  also have "\<dots> = (?p @ qname (l' # ls) @ drop (length (qname (l' # ls))) (drop (length l + 1) r),
      length ?d + length (qname (l' # ls)))"
    by (rule 3(1)) (use 3(3-8) len in auto)
  finally show ?case by (simp add: qname_def label_bytes_def ac_simps)
qed

text \<open>The text a name's labels add to what was read before.\<close>

fun joined :: "u8 list \<Rightarrow> string list \<Rightarrow> u8 list" where
  "joined w [] = w"
| "joined w (l # ls) = joined ((if w = [] then [] else w @ [46]) @ bytes_of l) ls"

lemma joined_more: "w \<noteq> [] \<Longrightarrow> joined w ls = w @ concat (map (\<lambda>l. 46 # bytes_of l) ls)"
  by (induction ls arbitrary: w) auto

lemma bytes_host: "(\<And>l. l \<in> set ls \<Longrightarrow> label_ok l) \<Longrightarrow> joined [] ls = bytes_of (host_of ls)"
proof (induction ls rule: host_of.induct)
  case (3 l l' ls)
  then have l: "bytes_of l \<noteq> []" "bytes_of l' \<noteq> []" by (auto simp: bytes_of_def label_ok_def)
  have "joined [] (l' # ls) = bytes_of (host_of (l' # ls))" using 3 by simp
  then have "bytes_of l' @ concat (map (\<lambda>l. 46 # bytes_of l) ls) = bytes_of (host_of (l' # ls))"
    using l by (simp add: joined_more)
  then show ?case using l by (simp add: joined_more bytes_of_def)
qed (simp_all add: bytes_of_def)

lemma joined_grows: "length w \<le> length (joined w ls)"
  by (cases "w = []") (simp_all add: joined_more)

lemma put_label_joined:
  assumes "length ((if w = [] then [] else w @ [46]) @ bytes) < length (w @ r)"
  shows "put_label (length w) bytes (w @ r) =
    (length ((if w = [] then [] else w @ [46]) @ bytes),
     ((if w = [] then [] else w @ [46]) @ bytes) @ drop (length ((if w = [] then [] else w @ [46]) @ bytes)) (w @ r))"
  using assms by (cases r) (auto simp: put_label_def store_def list_update_append split: if_splits)

lemma drop_past: "length a \<le> n \<Longrightarrow> drop n (a @ drop (length a) x) = drop n x"
  by simp

lemma low_label:
  assumes "label_ok l"
  shows "(word_of_nat (length l) :: u8) \<noteq> 0" "(word_of_nat (length l) :: u8) AND 0xc0 = 0"
    "unat (word_of_nat (length l) :: u8) = length l"
proof -
  have "list_all (\<lambda>n. (word_of_nat n :: u8) \<noteq> 0 \<and> (word_of_nat n :: u8) AND 0xc0 = 0 \<and> unat (word_of_nat n :: u8) = n) [1..<64]"
    by code_simp
  moreover have "1 \<le> length l" "length l < 64" using assms by (auto simp: label_ok_def Suc_le_eq)
  ultimately show "(word_of_nat (length l) :: u8) \<noteq> 0" "(word_of_nat (length l) :: u8) AND 0xc0 = 0"
    "unat (word_of_nat (length l) :: u8) = length l"
    by (simp_all add: list_all_iff)
qed

lemma name_from_labels:
  assumes "\<And>l. l \<in> set ls \<Longrightarrow> label_ok l" "p = front @ qname ls @ 0 # post" "post \<noteq> []" "length front = off + i"
    "length (joined w ls) < length (w @ r)"
  shows "name_from depth p off i (length w) (w @ r) =
    Some (name_end (i + length (qname ls)) (length (joined w ls)) (joined w ls @ drop (length (joined w ls)) (w @ r)))"
  using assms
proof (induction ls arbitrary: front i w r)
  case Nil
  then show ?case by (subst name_from.simps) (simp add: rd_byte_def qname_def nth_append)
next
  case (Cons l ls)
  define w1 where "w1 = (if w = [] then [] else w @ [46]) @ bytes_of l"
  define r1 where "r1 = drop (length w1) (w @ r)"
  have ok: "label_ok l" using Cons.prems(1) by simp
  note b = low_label [OF ok]
  have j: "joined w (l # ls) = joined w1 ls" by (simp add: w1_def)
  have room: "length w1 < length (w @ r)" using Cons.prems(5) joined_grows [of w1 ls] unfolding j by simp
  have p: "p = front @ (word_of_nat (length l) # bytes_of l) @ qname ls @ 0 # post"
    using Cons.prems(2) by (simp add: qname_def label_bytes_def)
  have k: "off + i = length front" using Cons.prems(4) by simp
  have byte: "rd_byte p (off + i) = Some (word_of_nat (length l))" unfolding k by (simp add: p rd_byte_def nth_append)
  have chars: "rd_bytes p (off + i + 1) (length l) = Some (bytes_of l)" unfolding k by (simp add: p rd_bytes_def)
  have inside: "off + i + 1 < length p" "\<not> length p \<le> off + i + length l + 1"
    unfolding k using Cons.prems(3) by (simp_all add: p)
  have put: "put_label (length w) (bytes_of l) (w @ r) = (length w1, w1 @ r1)"
    using put_label_joined [of w "bytes_of l" r] room by (simp add: w1_def r1_def)
  have "name_from depth p off i (length w) (w @ r) = name_from depth p off (i + length l + 1) (length w1) (w1 @ r1)"
    by (subst name_from.simps) (use inside byte chars b put in simp)
  also have "\<dots> = Some (name_end (i + length l + 1 + length (qname ls)) (length (joined w1 ls))
      (joined w1 ls @ drop (length (joined w1 ls)) (w1 @ r1)))"
  proof (rule Cons.IH)
    show "p = (front @ label_bytes l) @ qname ls @ 0 # post" by (simp add: p label_bytes_def)
    show "length (front @ label_bytes l) = off + (i + length l + 1)" using k by (simp add: label_bytes_def)
    show "length (joined w1 ls) < length (w1 @ r1)" using Cons.prems(5) room unfolding j r1_def by simp
  qed (use Cons.prems in auto)
  also have "drop (length (joined w1 ls)) (w1 @ r1) = drop (length (joined w1 ls)) (w @ r)"
    unfolding r1_def using joined_grows [of w1 ls] by (rule drop_past)
  finally show ?case unfolding j by (simp add: qname_def label_bytes_def ac_simps)
qed

text \<open>The server's reply to a query: its identifier and question, and one address record that points back to the question.\<close>

definition reply :: "u8 list \<Rightarrow> u8 list \<Rightarrow> u8 list \<Rightarrow> u8 list \<Rightarrow> u8 list" where
  "reply query flags ttl ip =
     take 2 query @ flags @ [0, 1, 0, 1, 0, 0, 0, 0] @ drop 12 query @ [0xc0, 12, 0, 1, 0, 1] @ ttl @ [0, 4] @ ip"

lemma query_bytes:
  assumes "ls \<noteq> []" "\<And>l. l \<in> set ls \<Longrightarrow> label_ok l" "length (host_of ls) \<le> 250"
  shows "mg_dns_send (host_of ls @ rest) (length (host_of ls)) txnid = dns_header txnid @ qname ls @ [0, 0, 1, 0, 1]"
proof -
  have "dns_labels (host_of ls @ rest) (length (host_of ls)) (length ([] :: string)) 251 ([] @ replicate 256 0) (length ([] :: string)) =
      ([] @ qname ls @ drop (length (qname ls)) (replicate 256 0), length ([] :: string) + length (qname ls))"
    by (rule dns_labels_spec) (use assms in auto)
  then show ?thesis using length_qname [OF assms(1)] assms(3) by (simp add: mg_dns_send_def store_def)
qed

lemma host_no_null: "(\<And>l. l \<in> set ls \<Longrightarrow> label_ok l) \<Longrightarrow> 0 \<notin> set (bytes_of (host_of ls))"
proof -
  have chars: "(\<And>l. l \<in> set ls \<Longrightarrow> label_ok l) \<Longrightarrow> CHR 0x00 \<notin> set (host_of ls)"
    by (induction ls rule: host_of.induct) (auto simp: label_ok_def)
  have "c = CHR 0x00" if "(word_of_nat (of_char c) :: u8) = 0" for c
  proof -
    have "char_of (unat (word_of_nat (of_char c) :: u8)) = c" by (simp add: unat_of_nat)
    then show ?thesis unfolding that by (simp add: char_of_def)
  qed
  then show "(\<And>l. l \<in> set ls \<Longrightarrow> label_ok l) \<Longrightarrow> 0 \<notin> set (bytes_of (host_of ls))"
    using chars by (auto simp: bytes_of_def)
qed

lemma takeWhile_to_null:
  assumes "take n x = t" "n < length x" "x ! n = 0" "0 \<notin> set t"
  shows "takeWhile (\<lambda>b. b \<noteq> (0 :: u8)) x = t"
proof -
  have "x = t @ 0 # drop (n + 1) x" using assms(1-3) by (metis id_take_nth_drop Suc_eq_plus1)
  then show ?thesis using assms(4) by (metis (mono_tags, lifting) takeWhile_append2 takeWhile.simps(2) append_Nil2)
qed

text \<open>A question's name, then the same name through a pointer back to it.\<close>

lemma read_question:
  assumes "\<And>l. l \<in> set ls \<Longrightarrow> label_ok l" "p = h @ qname ls @ 0 # post" "post \<noteq> []" "length (bytes_of (host_of ls)) < length to"
  shows "name_from depth p (length h) 0 0 to =
    Some (name_end (length (qname ls)) (length (host_of ls)) (bytes_of (host_of ls) @ drop (length (host_of ls)) to))"
  using name_from_labels [of ls p h post "length h" 0 "[]" to depth] assms bytes_host [of ls] by simp

lemma read_pointer:
  assumes "p ! off = 0xc0" "p ! (off + 1) = 12" "off + 1 < length p" "12 + 1 < length p" "p ! 12 AND 0xc0 = 0"
    "name_from 1 p 12 0 0 to = Some (j, to')"
  shows "mg_dns_parse_name p off to = Some (name_end 1 j to')"
proof -
  have "name_ptr 0xc0 12 = 12" by (simp add: name_ptr_def)
  then show ?thesis
    unfolding mg_dns_parse_name_def by (subst name_from.simps) (use assms in \<open>simp add: rd_byte_def\<close>)
qed

lemma first_answer:
  assumes "mg_dns_parse_name p j to = Some (i, t)" "rd_bytes p (j + i + 9) 2 = Some [0, 4]" "rd_bytes p (j + i + 11) 4 = Some ip"
  shows "find_answer (Suc 0) p j to = Some (Some ip, t)"
proof -
  have inside: "\<not> length p < j + i + 9 + 2" "\<not> length p < j + i + 9 + 2 + 4"
    using assms(2,3) by (auto simp: rd_bytes_def split: if_splits)
  have n: "unat ([0, 4 :: u8] ! 0) * 256 + unat ([0, 4 :: u8] ! 1) = 4" by simp
  have k: "j + i + 9 + 2 = j + i + 11" by simp
  show ?thesis
    using inside assms(3) unfolding find_answer.simps assms(1) option.case prod.case Let_def assms(2) n
    by (simp only: if_False if_True k option.map simp_thms)
qed

lemma name_kept:
  assumes "length t < 255" "0 \<notin> set t" "length t < k" "length to = 256"
  shows "takeWhile (\<lambda>b. b \<noteq> (0 :: u8)) (snd (name_end i k (snd (name_end i' (length t) (t @ drop (length t) to))))) = t"
proof (rule takeWhile_to_null [of "length t"])
  let ?x = "snd (name_end i k (snd (name_end i' (length t) (t @ drop (length t) to))))"
  show "take (length t) ?x = t" using assms by (simp add: name_end_def)
  show "?x ! length t = 0" using assms by (simp add: name_end_def nth_list_update)
qed (use assms in \<open>simp_all add: name_end_def\<close>)

lemma dns_answer_matches_query:
  assumes "ls \<noteq> []" "\<And>l. l \<in> set ls \<Longrightarrow> label_ok l" "length (host_of ls) \<le> 250"
    "length flags = 2" "length ttl = 4" "length ip = 4" "length to = 256"
  shows "\<exists>dm. mg_dns_parse (reply (mg_dns_send (host_of ls @ rest) (length (host_of ls)) txnid) flags ttl ip) to = Some (Some dm) \<and>
    dm_txnid dm = txnid \<and> dm_ipaddr dm = ip \<and> takeWhile (\<lambda>b. b \<noteq> 0) (dm_name dm) = bytes_of (host_of ls)"
proof -
  let ?t = "bytes_of (host_of ls)" and ?q = "qname ls"
  define h where "h = le16 (mg_ntohs txnid) @ flags @ [0, 1, 0, 1, 0, 0, 0, 0]"
  define p where "p = h @ ?q @ 0 # [0, 1, 0, 1] @ [0xc0, 12, 0, 1, 0, 1] @ ttl @ [0, 4] @ ip"
  have p: "reply (mg_dns_send (host_of ls @ rest) (length (host_of ls)) txnid) flags ttl ip = p"
    by (simp add: query_bytes [OF assms(1-3)] reply_def p_def h_def dns_header_def)
  have q: "length ?q = length ?t + 1" "length h = 12" "length p = length ?q + 33"
    using length_qname [OF assms(1)] assms(4-6) by (simp_all add: h_def p_def)
  have words: "mg_ntohs (read16 p 0) = txnid" "mg_ntohs (read16 p 4) = 1" "mg_ntohs (read16 p 6) = 1"
  proof -
    have "read16 p 0 = mg_ntohs txnid"
      using read16_le16 [of "[]" "mg_ntohs txnid"] by (simp add: p_def h_def)
    then show "mg_ntohs (read16 p 0) = txnid" by simp
    have bytes: "p ! 4 = 0" "p ! 5 = 1" "p ! 6 = 0" "p ! 7 = 1"
      using assms(4) by (simp_all add: p_def h_def nth_append)
    have "mg_ntohs (push_bit 8 1) = 1" by code_simp
    then show "mg_ntohs (read16 p 4) = 1" "mg_ntohs (read16 p 6) = 1" by (simp_all add: read16_def bytes)
  qed
  define to1 where "to1 = snd (name_end (length ?q) (length ?t) (?t @ drop (length ?t) to))"
  have first: "mg_dns_parse_name p 12 to = Some (length ?q, to1)" "length to1 = 256"
    using read_question [OF assms(2) p_def, of to 0] q assms(3,7)
    by (simp_all add: mg_dns_parse_name_def to1_def name_end_def)
  define to2 where "to2 = snd (name_end (length ?q) (length ?t) (?t @ drop (length ?t) to1))"
  define to3 where "to3 = snd (name_end 1 (length ?q) to2)"
  define J where "J = length ?q + 17"
  have at: "p ! J = 0xc0" "p ! (J + 1) = 12" "rd_bytes p (J + 10) 2 = Some [0, 4]" "rd_bytes p (J + 12) 4 = Some ip"
    "p ! 12 = ?q ! 0"
  proof -
    define f where "f = h @ ?q @ [0, 0, 1, 0, 1]"
    have f: "p = f @ [0xc0, 12, 0, 1, 0, 1] @ ttl @ [0, 4] @ ip" "length f = J" using q(2) by (simp_all add: p_def f_def J_def)
    show "p ! J = 0xc0" "p ! (J + 1) = 12" unfolding f(1) by (simp_all add: nth_append f(2) [symmetric])
    show "rd_bytes p (J + 10) 2 = Some [0, 4]" "rd_bytes p (J + 12) 4 = Some ip"
      unfolding f(1) using assms(5,6) by (simp_all add: rd_bytes_def f(2) [symmetric])
    have "?q \<noteq> []" using q(1) by auto
    then show "p ! 12 = ?q ! 0" using q(2) by (simp add: p_def nth_append)
  qed
  have "name_from 1 p 12 0 0 to1 = Some (length ?q, to2)"
    using read_question [OF assms(2) p_def, of to1 1] q assms(3) first(2)
    by (simp add: to2_def name_end_def)
  moreover have "?q ! 0 AND 0xc0 = 0"
    using assms(1) low_label(2) [OF assms(2) [of "hd ls"]] by (cases ls) (simp_all add: qname_def label_bytes_def)
  ultimately have second: "mg_dns_parse_name p J to1 = Some (1, to3)"
    using read_pointer [of p J to1 "length ?q" to2] at q by (simp add: J_def to3_def name_end_def)
  have "mg_dns_parse p to = Some (Some \<lparr>dm_txnid = txnid, dm_ipaddr = ip, dm_name = to3\<rparr>)"
  proof -
    have "skip_questions 1 p 12 to = Some (J, to1)" using first(1) by (simp add: J_def)
    moreover have "find_answer (Suc 0) p J to1 = Some (Some ip, to3)"
      using first_answer [OF second] at(3,4) by (simp add: ac_simps)
    ultimately show ?thesis using q unfolding mg_dns_parse_def words unsigned_1 by simp
  qed
  moreover have "takeWhile (\<lambda>b. b \<noteq> 0) to3 = ?t"
    using name_kept [of ?t "length ?q" to1 1 "length ?q"] host_no_null [OF assms(2)] q(1) assms(3) first(2)
    by (simp add: to3_def to2_def)
  ultimately show ?thesis unfolding p by auto
qed

section \<open>The connections that wait\<close>

record dns_data =
  d_conn :: nat
  d_expire :: u32
  d_txnid :: u16

text \<open>Whether \<open>mgr->dnsc\<close> exists, and the list it keeps, the last query first.\<close>

record resolver =
  r_open :: bool
  r_pending :: "dns_data list"

text \<open>\<open>sscanf\<close> of \<open>%hhu.%hhu.%hhu.%hhu\<close>; the address is kept in network order, byte by byte.\<close>

definition scan_hhu :: "string \<Rightarrow> (u8 \<times> string) option" where
  "scan_hhu s =
     (case strto_sign s of (neg, t) \<Rightarrow>
        let ds = takeWhile is_digit t; v = word_of_int (min (2 ^ 32 - 1) (int (scan_base 10 ds 0))) :: u8
        in if ds = [] then None else Some (if neg then - v else v, drop (length ds) t))"

fun scan_dotted :: "nat \<Rightarrow> string \<Rightarrow> u8 list option" where
  "scan_dotted 0 s = Some []"
| "scan_dotted (Suc k) s =
     (case scan_hhu s of
        None \<Rightarrow> None
      | Some (b, t) \<Rightarrow> if k = 0 then Some [b]
          else if t \<noteq> [] \<and> hd t = CHR ''.'' then map_option ((#) b) (scan_dotted k (tl t)) else None)"

definition mg_aton :: "string \<Rightarrow> u8 list option" where
  "mg_aton s = scan_dotted 4 s"

definition mg_vcmp_eq :: "string \<Rightarrow> nat \<Rightarrow> string \<Rightarrow> bool" where
  "mg_vcmp_eq ptr len s2 \<longleftrightarrow> take (min len (length s2)) ptr = take (min len (length s2)) s2 \<and> len = length s2"

datatype resolution = Resolved_to "u8 list" | Resolve_error string | Query_sent "u8 list"

definition mg_resolve :: "bool \<Rightarrow> bool \<Rightarrow> u32 \<Rightarrow> resolver \<Rightarrow> nat \<Rightarrow> string \<Rightarrow> nat \<Rightarrow> int \<Rightarrow> resolver \<times> resolution" where
  "mg_resolve conn_ok alloc_ok now r c name len ms =
     (case (if mg_vcmp_eq name len ''localhost'' then Some (le32 (mg_ntohl 0x7f000001)) else mg_aton name) of
        Some ip \<Rightarrow> (r, Resolved_to ip)
      | None \<Rightarrow>
          let r = (if r_open r then r else \<lparr>r_open = conn_ok, r_pending = []\<rparr>)
          in if \<not> r_open r then (r, Resolve_error ''resolver'')
             else if \<not> alloc_ok then (r, Resolve_error ''resolve OOM'')
             else
               let txnid = (case r_pending r of [] \<Rightarrow> 1 | d # _ \<Rightarrow> d_txnid d + 1);
                   d = \<lparr>d_conn = c, d_expire = now + word_of_int ms, d_txnid = txnid\<rparr>
               in (r\<lparr>r_pending := d # r_pending r\<rparr>, Query_sent (mg_dns_send name len txnid)))"

definition mg_resolve_cancel :: "nat \<Rightarrow> dns_data list \<Rightarrow> dns_data list" where
  "mg_resolve_cancel c ds = filter (\<lambda>d. d_conn d \<noteq> c) ds"

text \<open>\<open>dns_cb\<close>: at a poll, the connections told of a timeout; at a packet, what stays in the list and the connections that get an address.\<close>

definition dns_timeouts :: "u32 \<Rightarrow> dns_data list \<Rightarrow> nat list" where
  "dns_timeouts now ds = map d_conn (filter (\<lambda>d. now > d_expire d) ds)"

fun deliver :: "u16 \<Rightarrow> (nat \<Rightarrow> bool) \<Rightarrow> dns_data list \<Rightarrow> dns_data list \<times> nat list" where
  "deliver txnid resolving [] = ([], [])"
| "deliver txnid resolving (d # ds) =
     (if d_txnid d = txnid \<and> resolving (d_conn d)
      then (case deliver txnid (resolving(d_conn d := False)) ds of (ds', cs) \<Rightarrow> (ds', d_conn d # cs))
      else (case deliver txnid resolving ds of (ds', cs) \<Rightarrow> (d # ds', cs)))"

definition dns_read :: "(nat \<Rightarrow> bool) \<Rightarrow> u8 list \<Rightarrow> u8 list \<Rightarrow> dns_data list \<Rightarrow> (dns_data list \<times> (nat \<times> u8 list) list) option" where
  "dns_read resolving packet stack ds =
     (case mg_dns_parse packet stack of
        None \<Rightarrow> None
      | Some None \<Rightarrow> Some (ds, [])
      | Some (Some dm) \<Rightarrow>
          (case deliver (dm_txnid dm) resolving ds of (ds', cs) \<Rightarrow> Some (ds', map (\<lambda>c. (c, dm_ipaddr dm)) cs)))"

lemma deliver_other: "\<forall>d \<in> set ds. d_txnid d \<noteq> txnid \<Longrightarrow> deliver txnid resolving ds = (ds, [])"
  by (induction ds) auto

text \<open>Identifiers in the list decrease, so none is used twice, as long as the newest has not reached the largest.\<close>

definition ids_decrease :: "dns_data list \<Rightarrow> bool" where
  "ids_decrease ds \<longleftrightarrow> sorted_wrt (\<lambda>a b. d_txnid b < d_txnid a) ds"

definition room_for_id :: "dns_data list \<Rightarrow> bool" where
  "room_for_id ds \<longleftrightarrow> (ds \<noteq> [] \<longrightarrow> d_txnid (hd ds) < - 1)"

lemma next_id:
  "ids_decrease (d # ds) \<Longrightarrow> d_txnid d < - 1 \<Longrightarrow> \<forall>e \<in> set (d # ds). d_txnid e < d_txnid d + 1"
proof -
  assume "ids_decrease (d # ds)" "d_txnid d < - 1"
  moreover from this have "d_txnid d < d_txnid d + 1"
    by uint_arith
  ultimately show ?thesis by (auto simp: ids_decrease_def)
qed


definition feed_labels :: "string list" where
  "feed_labels = [''ws-feed'', ''exchange'', ''coinbase'', ''com'']"

lemma feed_host:
  "host_of feed_labels = ''ws-feed.exchange.coinbase.com''" "length (host_of feed_labels) = 29" "feed_labels \<noteq> []"
  "list_all label_ok feed_labels" "\<not> mg_vcmp_eq ''ws-feed.exchange.coinbase.com'' 29 ''localhost''"
  "mg_aton ''ws-feed.exchange.coinbase.com'' = None"
proof -
  show "host_of feed_labels = ''ws-feed.exchange.coinbase.com''" "length (host_of feed_labels) = 29" "feed_labels \<noteq> []"
    "list_all label_ok feed_labels" "mg_aton ''ws-feed.exchange.coinbase.com'' = None"
    by code_simp+
  show "\<not> mg_vcmp_eq ''ws-feed.exchange.coinbase.com'' 29 ''localhost''" by (simp add: mg_vcmp_eq_def)
qed

lemma feed_query: "mg_dns_send ''ws-feed.exchange.coinbase.com'' 29 txnid = dns_header txnid @ qname feed_labels @ [0, 0, 1, 0, 1]"
proof -
  have l: "length ''ws-feed.exchange.coinbase.com'' = 29" by simp
  have "length (host_of feed_labels) \<le> 250" unfolding feed_host(2) by simp
  then have "mg_dns_send (host_of feed_labels @ []) (length (host_of feed_labels)) txnid =
      dns_header txnid @ qname feed_labels @ [0, 0, 1, 0, 1]"
    using feed_host(3,4) by (intro query_bytes) (auto simp: list_all_iff)
  then show ?thesis by (simp only: feed_host(1) l append_Nil2)
qed


text \<open>C33. Any packet: parsing a received packet returns, reads only received bytes, leaves the name a string of its 256 bytes, and an
address it reports is four consecutive bytes of the packet.\<close>

theorem dns_parse_safe:
  assumes "length stack = 256"
  shows "\<exists>r. mg_dns_parse p stack = Some r \<and> (case r of None \<Rightarrow> True | Some dm \<Rightarrow>
    length (dm_name dm) = 256 \<and> dm_name dm ! 255 = 0 \<and> (\<exists>m. m + 4 \<le> length p \<and> dm_ipaddr dm = take 4 (drop m p)))"
proof (cases "length p < 12")
  case False
  obtain j to1 where q: "skip_questions (unat (mg_ntohs (read16 p 4))) p 12 stack = Some (j, to1)" "length to1 = 256"
    using skip_questions_safe [of "unat (mg_ntohs (read16 p 4))" p 12 stack] assms by auto
  obtain a to2 where a: "find_answer (unat (mg_ntohs (read16 p 6))) p j to1 = Some (a, to2)" "length to2 = 256"
    "\<forall>ip. a = Some ip \<longrightarrow> (\<exists>m. m + 4 \<le> length p \<and> ip = take 4 (drop m p)) \<and> to2 ! 255 = 0"
    using find_answer_safe [of "unat (mg_ntohs (read16 p 6))" p j to1] q(2) by auto
  then show ?thesis using False q(1) by (auto simp: mg_dns_parse_def split: option.splits)
qed (simp add: mg_dns_parse_def)

subsection \<open>What is not checked\<close>

text \<open>Two labels and a pointer: the name read is the one pointed to.\<close>

lemma dns_prefix_lost:
  "map_option (map_prod id c_string) (mg_dns_parse_name
    (replicate 12 0 @ [3, 0x63, 0x6F, 0x6D, 0, 3, 0x77, 0x77, 0x77, 0xc0, 12, 0]) 17 (replicate 256 1)) = Some (5, ''com'')"
  by code_simp

text \<open>A record of another type, here an alias (type 5) that is one letter and a pointer, is taken for an address.\<close>

lemma dns_alias_is_address:
  "map_option (map_option dm_ipaddr) (mg_dns_parse
    ([0, 1, 0x81, 0x80, 0, 1, 0, 1, 0, 0, 0, 0, 1, 0x61, 0, 0, 1, 0, 1,
      0xc0, 12, 0, 5, 0, 1, 0, 0, 0, 60, 0, 4, 1, 0x62, 0xc0, 12]) (replicate 256 0)) = Some (Some [1, 0x62, 0xc0, 12])"
  by code_simp

lemma dns_parse_safe_witness:
  "\<exists>dm. mg_dns_parse ([0, 1, 0x81, 0x80, 0, 1, 0, 1, 0, 0, 0, 0, 1, 0x61, 0, 0, 1, 0, 1,
      0xc0, 12, 0, 1, 0, 1, 0, 0, 0, 60, 0, 4, 9, 8, 7, 6]) (replicate 256 0) = Some (Some dm) \<and>
    dm_ipaddr dm = [9, 8, 7, 6] \<and> length (dm_name dm) = 256 \<and> dm_name dm ! 255 = 0"
proof -
  let ?p = "[0, 1, 0x81, 0x80, 0, 1, 0, 1, 0, 0, 0, 0, 1, 0x61, 0, 0, 1, 0, 1,
      0xc0, 12, 0, 1, 0, 1, 0, 0, 0, 60, 0, 4, 9, 8, 7, 6 :: u8]"
  have "map_option (map_option dm_ipaddr) (mg_dns_parse ?p (replicate 256 0)) = Some (Some [9, 8, 7, 6])" by code_simp
  then show ?thesis using dns_parse_safe [of "replicate 256 0" ?p] by (auto split: option.splits)
qed

end
