(* ===== verification/Fmma_Poll.thy ===== *)
theory Fmma_Poll
  imports Fmma_Connect Fmma_Dns
begin

text \<open>
  The life of a client connection in \<open>NewArch/In-Memory v2/mongoose.c\<close>: one turn of \<open>mg_mgr_poll\<close> for it, with the OpenSSL
  handshake, and the answers of the resolver in between (\<open>sock.c\<close>, \<open>tls.c\<close>, \<open>dns.c\<close>). What the system and the TLS library
  return is an argument of each turn.
\<close>

section \<open>One turn\<close>

text \<open>The flags of \<open>struct mg_connection\<close> that only the library uses.\<close>

record link =
  l_resolving :: bool
  l_connecting :: bool
  l_tls :: bool
  l_tls_hs :: bool
  l_draining :: bool
  l_readable :: bool
  l_writable :: bool

text \<open>
  What a turn meets: the answer of \<open>select\<close>, the pending error of the socket (none when it cannot be asked), the
  results of \<open>SSL_connect\<close> and \<open>SSL_get_error\<close>, of reading and of writing, and the text of the peer's address.
\<close>

record turn_io =
  t_rset :: bool
  t_wset :: bool
  t_so_error :: "int option"
  t_hs :: "int \<times> int"
  t_recv :: "u8 list \<times> bool"
  t_sent :: "int \<times> bool"
  t_peer :: string

abbreviation EINTR :: int where "EINTR \<equiv> 4"
abbreviation EAGAIN :: int where "EAGAIN \<equiv> 11"
abbreviation EINPROGRESS :: int where "EINPROGRESS \<equiv> 115"
abbreviation SSL_ERROR_WANT_READ :: int where "SSL_ERROR_WANT_READ \<equiv> 2"
abbreviation SSL_ERROR_WANT_WRITE :: int where "SSL_ERROR_WANT_WRITE \<equiv> 3"

definition mg_sock_failed :: "int \<Rightarrow> bool" where
  "mg_sock_failed err \<longleftrightarrow> err \<noteq> EINPROGRESS \<and> err \<noteq> EAGAIN \<and> err \<noteq> EINTR"

definition mg_tls_err :: "int \<Rightarrow> int" where
  "mg_tls_err err = (if err = SSL_ERROR_WANT_READ then 0 else if err = SSL_ERROR_WANT_WRITE then 0 else err)"

text \<open>\<open>mg_connect_resolved\<close> on a stream socket: \<open>connect\<close> returns \<open>rc\<close> and leaves \<open>err\<close>.\<close>

definition mg_connect_resolved ::
  "'s handler \<Rightarrow> int \<Rightarrow> int \<Rightarrow> link \<times> 's \<times> mg_connection \<Rightarrow> (link \<times> 's \<times> mg_connection) option" where
  "mg_connect_resolved fn rc err lsc =
     (case mg_call fn MG_EV_RESOLVE (snd lsc) of
        None \<Rightarrow> None
      | Some sc \<Rightarrow>
          map_option (Pair (if rc < 0 then (fst lsc)\<lparr>l_connecting := True\<rparr> else fst lsc))
            (if rc < 0 \<and> mg_sock_failed err then mg_error fn (''connect: '' @ fmt_int err) sc else Some sc))"

text \<open>The part of \<open>mg_iotest\<close> for one connection.\<close>

definition mg_iotest :: "turn_io \<Rightarrow> mg_connection \<Rightarrow> link \<Rightarrow> link" where
  "mg_iotest t c l =
     (let asked = \<not> c_is_closing c \<and> \<not> l_resolving l;
          asked_w = asked \<and> (l_connecting l \<or> io_len (c_send c) > 0 \<and> \<not> l_tls_hs l)
      in l\<lparr>l_readable := l_tls l \<and> l_readable l \<or> asked \<and> t_rset t, l_writable := asked_w \<and> t_wset t\<rparr>)"

definition mg_tls_handshake :: "'s handler \<Rightarrow> int \<times> int \<Rightarrow> 's \<times> mg_connection \<Rightarrow> (bool \<times> 's \<times> mg_connection) option" where
  "mg_tls_handshake fn hs sc =
     (case hs of (rc, err) \<Rightarrow>
        if rc = 1 then Some (True, sc)
        else
          let code = mg_tls_err err
          in if code \<noteq> 0
             then map_option (Pair False) (mg_error fn (''tls hs: rc '' @ fmt_int rc @ '', err '' @ fmt_int code) sc)
             else Some (False, sc))"

definition shaken :: "'s handler \<Rightarrow> int \<times> int \<Rightarrow> link \<times> 's \<times> mg_connection \<Rightarrow> (link \<times> 's \<times> mg_connection) option" where
  "shaken fn hs lsc =
     (case mg_tls_handshake fn hs (snd lsc) of
        None \<Rightarrow> None
      | Some (False, sc) \<Rightarrow> Some (fst lsc, sc)
      | Some (True, sc) \<Rightarrow> map_option (Pair ((fst lsc)\<lparr>l_tls_hs := False\<rparr>)) (mg_call fn MG_EV_CONNECT sc))"

definition connect_conn :: "'s handler \<Rightarrow> turn_io \<Rightarrow> link \<times> 's \<times> mg_connection \<Rightarrow> (link \<times> 's \<times> mg_connection) option" where
  "connect_conn fn t lsc =
     (let rc = (case t_so_error t of None \<Rightarrow> 1 | Some e \<Rightarrow> e);
          rc = (if rc = EAGAIN then 0 else rc);
          l = (fst lsc)\<lparr>l_connecting := False\<rparr>
      in if rc \<noteq> 0 then map_option (Pair l) (mg_error fn (''error connecting to '' @ t_peer t) (snd lsc))
         else
           (case (if l_tls_hs l then shaken fn (t_hs t) (l, snd lsc) else Some (l, snd lsc)) of
              None \<Rightarrow> None
            | Some (l, sc) \<Rightarrow>
                if \<not> l_tls l then map_option (Pair l) (mg_call fn MG_EV_CONNECT sc) else Some (l, sc)))"

definition transfer :: "'s handler \<Rightarrow> turn_io \<Rightarrow> link \<times> 's \<times> mg_connection \<Rightarrow> (link \<times> 's \<times> mg_connection) option" where
  "transfer fn t lsc =
     (case (if l_readable (fst lsc) then map_option snd (read_conn fn (fst (t_recv t)) (snd (t_recv t)) (snd lsc)) else Some (snd lsc)) of
        None \<Rightarrow> None
      | Some sc \<Rightarrow>
          map_option (Pair (fst lsc))
            (if l_writable (fst lsc) then write_conn fn (fst (t_sent t)) (snd (t_sent t)) sc else Some sc))"

text \<open>A connection after a turn: closed and freed, or not.\<close>

datatype 's after = Gone 's | Alive link 's mg_connection

definition close_conn :: "'s handler \<Rightarrow> 's \<times> mg_connection \<Rightarrow> 's after option" where
  "close_conn fn sc = map_option (\<lambda>(s, c). Gone s) (mg_call fn MG_EV_CLOSE sc)"

definition mg_mgr_poll :: "'s handler \<Rightarrow> turn_io \<Rightarrow> link \<times> 's \<times> mg_connection \<Rightarrow> 's after option" where
  "mg_mgr_poll fn t lsc =
     (let l = mg_iotest t (snd (snd lsc)) (fst lsc)
      in case mg_call fn MG_EV_POLL (snd lsc) of
           None \<Rightarrow> None
         | Some (s, c) \<Rightarrow>
             (case (if l_resolving l \<or> c_is_closing c then Some (l, s, c)
                    else if l_connecting l then
                      if l_readable l \<or> l_writable l then connect_conn fn t (l, s, c) else Some (l, s, c)
                    else if l_tls_hs l then
                      if l_readable l \<or> l_writable l then shaken fn (t_hs t) (l, s, c) else Some (l, s, c)
                    else transfer fn t (l, s, c)) of
                None \<Rightarrow> None
              | Some (l, s, c) \<Rightarrow>
                  let c = (if l_draining l \<and> io_len (c_send c) = 0 then c\<lparr>c_is_closing := True\<rparr> else c)
                  in if c_is_closing c then close_conn fn (s, c) else Some (Alive l s c)))"

section \<open>The life of a connection\<close>

text \<open>
  Turns, and between them what the resolver's connection does to a connection that waits for an address: it gives
  one, or tells it of the timeout.
\<close>

inductive life :: "'s handler \<Rightarrow> 's after \<Rightarrow> 's after \<Rightarrow> bool" for fn a where
  life_start: "life fn a a"
| life_turn: "life fn a (Alive l s c) \<Longrightarrow> mg_mgr_poll fn t (l, s, c) = Some b \<Longrightarrow> life fn a b"
| life_resolved: "life fn a (Alive l s c) \<Longrightarrow> l_resolving l \<Longrightarrow>
    mg_connect_resolved fn rc err (l\<lparr>l_resolving := False\<rparr>, s, c) = Some (l', s', c') \<Longrightarrow> life fn a (Alive l' s' c')"
| life_timeout: "life fn a (Alive l s c) \<Longrightarrow> l_resolving l \<Longrightarrow>
    mg_error fn ''DNS timeout'' (s, c) = Some (s', c') \<Longrightarrow> life fn a (Alive l s' c')"

text \<open>A handler that also keeps the events it got.\<close>

definition recording :: "'s handler \<Rightarrow> ('s \<times> mg_event list) handler" where
  "recording fn ev sc =
     (case sc of ((s, evs), c) \<Rightarrow> map_option (\<lambda>(s', c'). ((s', evs @ [ev]), c')) (fn ev (s, c)))"

datatype phase = Ph_resolving | Ph_connecting | Ph_open | Ph_closed

fun next_phase :: "phase \<Rightarrow> mg_event \<Rightarrow> phase option" where
  "next_phase Ph_closed ev = None"
| "next_phase p MG_EV_POLL = Some p"
| "next_phase p (MG_EV_ERROR t) = Some p"
| "next_phase p MG_EV_CLOSE = Some Ph_closed"
| "next_phase Ph_resolving MG_EV_RESOLVE = Some Ph_connecting"
| "next_phase Ph_connecting MG_EV_CONNECT = Some Ph_open"
| "next_phase Ph_open MG_EV_READ = Some Ph_open"
| "next_phase Ph_open MG_EV_WRITE = Some Ph_open"
| "next_phase Ph_open MG_EV_WS_OPEN = Some Ph_open"
| "next_phase Ph_open (MG_EV_WS_MSG off n fl) = Some Ph_open"
| "next_phase p ev = None"

definition phase_of :: "mg_event list \<Rightarrow> phase option" where
  "phase_of evs = foldl (\<lambda>p ev. Option.bind p (\<lambda>q. next_phase q ev)) (Some Ph_resolving) evs"

lemma phase_snoc: "phase_of (evs @ [ev]) = Option.bind (phase_of evs) (\<lambda>q. next_phase q ev)"
  by (simp add: phase_of_def)

lemma phase_snoc2: "phase_of (evs @ [a, b]) = Option.bind (Option.bind (phase_of evs) (\<lambda>q. next_phase q a)) (\<lambda>q. next_phase q b)"
  by (simp add: phase_of_def)

subsection \<open>What a call of the handlers logs\<close>

definition ws_event :: "mg_event \<Rightarrow> bool" where
  "ws_event ev \<longleftrightarrow> (case ev of MG_EV_WS_OPEN \<Rightarrow> True | MG_EV_WS_MSG off n fl \<Rightarrow> True | _ \<Rightarrow> False)"

lemma open_ws: "phase_of evs = Some Ph_open \<Longrightarrow> list_all ws_event new \<Longrightarrow> phase_of (evs @ new) = Some Ph_open"
proof (induction new arbitrary: evs)
  case (Cons ev new)
  have "phase_of (evs @ [ev]) = Some Ph_open"
    using Cons.prems by (cases ev) (simp_all add: phase_snoc ws_event_def)
  then show ?case using Cons.IH [of "evs @ [ev]"] Cons.prems(2) by simp
qed simp

lemma logged_some: "recording fn ev ((s, evs), c) = Some ((s', evs'), c') \<Longrightarrow> evs' = evs @ [ev]"
  by (auto simp: recording_def)

lemma ws_step_logged:
  "ws_step (recording fn) ((s, evs), c) = Some (go, (s', evs'), c') \<Longrightarrow>
    evs' = evs \<or> (\<exists>off n fl. evs' = evs @ [MG_EV_WS_MSG off n fl])"
  by (auto simp: ws_step_def Let_def recording_def ws_finish_def split: option.splits if_splits prod.splits)

lemma ws_loop_invariant:
  assumes "ws_loop fn sc = Some r" "P sc" "\<And>sc go sc'. P sc \<Longrightarrow> ws_step fn sc = Some (go, sc') \<Longrightarrow> P sc'"
  shows "P r"
proof -
  have "fn = fn \<longrightarrow> P sc \<longrightarrow> P r"
  proof (rule ws_loop.raw_induct [where P = "\<lambda>g sc r. g = fn \<longrightarrow> P sc \<longrightarrow> P r", OF _ assms(1)])
    fix loop g sc r
    assume IH: "\<And>g sc r. loop g sc = Some r \<Longrightarrow> g = fn \<longrightarrow> P sc \<longrightarrow> P r"
      and r: "(case ws_step g sc of None \<Rightarrow> None | Some (go, sc') \<Rightarrow> if go then loop g sc' else Some sc') = Some r"
    show "g = fn \<longrightarrow> P sc \<longrightarrow> P r"
      using r by (auto split: option.splits if_splits dest!: IH intro: assms(3))
  qed
  then show ?thesis using assms(2) by simp
qed

lemma ws_loop_logged:
  assumes "ws_loop (recording fn) ((s, evs), c) = Some ((s', evs'), c')"
  shows "\<exists>new. evs' = evs @ new \<and> list_all ws_event new"
proof -
  let ?P = "\<lambda>((s', evs'), c'). \<exists>new. evs' = evs @ new \<and> list_all ws_event new"
  have "?P ((s', evs'), c')"
  proof (rule ws_loop_invariant [OF assms])
    show "?P ((s, evs), c)" by simp
    fix sc go sc'
    assume "?P sc" "ws_step (recording fn) sc = Some (go, sc')"
    then show "?P sc'"
      using ws_step_logged [of fn "fst (fst sc)" "snd (fst sc)" "snd sc" go "fst (fst sc')" "snd (fst sc')" "snd sc'"]
      by (auto simp: ws_event_def case_prod_unfold)
  qed
  then show ?thesis by simp
qed

lemma call_logged:
  assumes "mg_call (recording fn) ev ((s, evs), c) = Some ((s', evs'), c')"
  shows "\<exists>new. evs' = evs @ new @ [ev] \<and> list_all ws_event new \<and> (ev \<noteq> MG_EV_READ \<longrightarrow> new = [])"
proof -
  obtain s1 e1 c1 where cb: "mg_ws_cb (recording fn) ev ((s, evs), c) = Some ((s1, e1), c1)" "evs' = e1 @ [ev]"
    using assms by (auto simp: mg_call_def dest: logged_some split: option.splits)
  have "\<exists>new. e1 = evs @ new \<and> list_all ws_event new" if "ev = MG_EV_READ"
    using cb(1) that
    by (auto simp: mg_ws_cb_def Let_def ws_event_def split: if_splits option.splits dest!: ws_loop_logged logged_some)
  then show ?thesis using cb by (cases "ev = MG_EV_READ") (auto simp: mg_ws_cb_def)
qed

lemma call_plain:
  assumes "mg_call (recording fn) ev ((s, evs), c) = Some ((s', evs'), c')" "ev \<noteq> MG_EV_READ"
  shows "evs' = evs @ [ev]"
  using call_logged [OF assms(1)] assms(2) by auto

lemma error_logged:
  "mg_error (recording fn) t ((s, evs), c) = Some ((s', evs'), c') \<Longrightarrow> evs' = evs @ [MG_EV_ERROR t] \<and> c_is_closing c'"
  by (auto simp: mg_error_def dest: call_plain)

subsection \<open>Events come in order\<close>

definition link_phase :: "link \<Rightarrow> phase" where
  "link_phase l = (if l_resolving l then Ph_resolving else if l_tls_hs l then Ph_connecting else Ph_open)"

text \<open>A TLS connection is not read before its handshake is done, nor connected before it is resolved.\<close>

definition in_order :: "('s \<times> mg_event list) after \<Rightarrow> bool" where
  "in_order a =
     (case a of
        Gone (s, evs) \<Rightarrow> phase_of evs = Some Ph_closed
      | Alive l (s, evs) c \<Rightarrow> l_tls l \<and> (l_resolving l \<or> l_connecting l \<longrightarrow> l_tls_hs l) \<and> phase_of evs = Some (link_phase l))"

lemma connect_resolved_order:
  assumes "in_order (Alive l (s, evs) c)" "l_resolving l"
    "mg_connect_resolved (recording fn) rc err (l\<lparr>l_resolving := False\<rparr>, (s, evs), c) = Some (l', (s', evs'), c')"
  shows "in_order (Alive l' (s', evs') c')"
  using assms
  by (auto simp: mg_connect_resolved_def in_order_def link_phase_def phase_snoc phase_snoc2 dest!: error_logged call_plain
      split: option.splits if_splits)

lemma shaken_order:
  assumes "in_order (Alive l (s, evs) c)" "\<not> l_resolving l" "\<not> l_connecting l" "l_tls_hs l"
    "shaken (recording fn) hs (l, (s, evs), c) = Some (l', (s', evs'), c')"
  shows "in_order (Alive l' (s', evs') c')"
  using assms
  by (auto simp: shaken_def mg_tls_handshake_def Let_def in_order_def link_phase_def phase_snoc
      dest!: error_logged call_plain split: option.splits if_splits prod.splits bool.splits)

lemma connect_order:
  assumes "in_order (Alive l (s, evs) c)" "\<not> l_resolving l" "l_connecting l"
    "connect_conn (recording fn) t (l, (s, evs), c) = Some (l', (s', evs'), c')"
  shows "in_order (Alive l' (s', evs') c')"
proof -
  let ?l = "l\<lparr>l_connecting := False\<rparr>"
  have o: "in_order (Alive ?l (s, evs) c)" "l_tls_hs ?l" "l_tls ?l" "\<not> l_resolving ?l" "\<not> l_connecting ?l"
    using assms(1-3) by (auto simp: in_order_def link_phase_def)
  consider t where "mg_error (recording fn) t ((s, evs), c) = Some ((s', evs'), c')" "l' = ?l"
    | l1 sc where "shaken (recording fn) (t_hs t) (?l, (s, evs), c) = Some (l1, sc)"
      "(if \<not> l_tls l1 then map_option (Pair l1) (mg_call (recording fn) MG_EV_CONNECT sc) else Some (l1, sc)) = Some (l', (s', evs'), c')"
    using assms(4) o(2) by (auto simp: connect_conn_def Let_def split: if_splits option.splits prod.splits)
  then show ?thesis
  proof cases
    case 1
    then show ?thesis using o by (auto simp: in_order_def link_phase_def phase_snoc dest!: error_logged)
  next
    case 2
    obtain s1 e1 c1 where sc: "sc = ((s1, e1), c1)" by (metis prod.exhaust)
    have "in_order (Alive l1 (s1, e1) c1)" using shaken_order [OF o(1,4,5,2)] 2(1) by (simp add: sc)
    then show ?thesis using 2(2) by (auto simp: in_order_def sc)
  qed
qed

lemma read_logged:
  assumes "read_conn (recording fn) got fail ((s, evs), c) = Some (n, (s', evs'), c')"
  shows "evs' = evs \<or> (\<exists>new. evs' = evs @ new @ [MG_EV_READ] \<and> list_all ws_event new)"
  using assms by (auto simp: read_conn_def Let_def dest!: call_logged split: if_splits prod.splits)

lemma write_logged:
  assumes "write_conn (recording fn) rc fail ((s, evs), c) = Some ((s', evs'), c')"
  shows "evs' = evs \<or> evs' = evs @ [MG_EV_WRITE]"
  using assms by (auto simp: write_conn_def Let_def dest!: call_plain split: if_splits prod.splits)

lemma transfer_order:
  assumes "in_order (Alive l (s, evs) c)" "\<not> l_resolving l" "\<not> l_connecting l" "\<not> l_tls_hs l"
    "transfer (recording fn) t (l, (s, evs), c) = Some (l', (s', evs'), c')"
  shows "in_order (Alive l' (s', evs') c')"
proof -
  have p: "phase_of evs = Some Ph_open" using assms(1-4) by (simp add: in_order_def link_phase_def)
  obtain s1 e1 c1 where
    r: "(if l_readable l then map_option snd (read_conn (recording fn) (fst (t_recv t)) (snd (t_recv t)) ((s, evs), c)) else Some ((s, evs), c)) =
      Some ((s1, e1), c1)"
    and w: "map_option (Pair l) (if l_writable l then write_conn (recording fn) (fst (t_sent t)) (snd (t_sent t)) ((s1, e1), c1)
      else Some ((s1, e1), c1)) = Some (l', (s', evs'), c')"
    using assms(5) unfolding transfer_def fst_conv snd_conv by (auto split: option.splits)
  have w': "evs' = e1 \<or> evs' = e1 @ [MG_EV_WRITE]" "l' = l"
    using w write_logged [of fn "fst (t_sent t)" "snd (t_sent t)" s1 e1 c1 s' evs' c'] by (auto split: if_splits)
  have r': "evs = e1 \<or> (\<exists>new. e1 = evs @ new @ [MG_EV_READ] \<and> list_all ws_event new)"
    using r read_logged [of fn "fst (t_recv t)" "snd (t_recv t)" s evs c _ s1 e1 c1] by (auto split: if_splits)
  have "phase_of e1 = Some Ph_open"
  proof (cases "evs = e1")
    case False
    then obtain new where "e1 = (evs @ new) @ [MG_EV_READ]" "list_all ws_event new" using r' by auto
    then show ?thesis using open_ws [OF p] phase_snoc [of "evs @ new" MG_EV_READ] by simp
  qed (use p in simp)
  then have "phase_of evs' = Some Ph_open" using w'(1) by (auto simp: phase_snoc)
  then show ?thesis using assms(1-4) w'(2) by (simp add: in_order_def link_phase_def)
qed

lemma turn_order:
  assumes "in_order (Alive l (s, evs) c)" "mg_mgr_poll (recording fn) t (l, (s, evs), c) = Some a"
  shows "in_order a"
proof -
  define l1 where "l1 = mg_iotest t c l"
  have flags: "l_resolving l1 = l_resolving l" "l_connecting l1 = l_connecting l" "l_tls l1 = l_tls l" "l_tls_hs l1 = l_tls_hs l"
    by (simp_all add: l1_def mg_iotest_def Let_def)
  obtain s1 e1 c1 where poll: "mg_call (recording fn) MG_EV_POLL ((s, evs), c) = Some ((s1, e1), c1)"
    using assms(2) unfolding mg_mgr_poll_def snd_conv by (auto simp: Let_def split: option.splits)
  have e1: "e1 = evs @ [MG_EV_POLL]" using call_plain [OF poll] by simp
  have o1: "in_order (Alive l1 (s1, e1) c1)"
    using assms(1) flags by (simp add: in_order_def link_phase_def e1 phase_snoc)
  define body where "body = (if l_resolving l1 \<or> c_is_closing c1 then Some (l1, (s1, e1), c1)
                    else if l_connecting l1 then
                      if l_readable l1 \<or> l_writable l1 then connect_conn (recording fn) t (l1, (s1, e1), c1) else Some (l1, (s1, e1), c1)
                    else if l_tls_hs l1 then
                      if l_readable l1 \<or> l_writable l1 then shaken (recording fn) (t_hs t) (l1, (s1, e1), c1) else Some (l1, (s1, e1), c1)
                    else transfer (recording fn) t (l1, (s1, e1), c1))"
  obtain l2 s2 e2 c2 where b: "body = Some (l2, (s2, e2), c2)"
    and a: "(let c = (if l_draining l2 \<and> io_len (c_send c2) = 0 then c2\<lparr>c_is_closing := True\<rparr> else c2)
       in if c_is_closing c then close_conn (recording fn) ((s2, e2), c) else Some (Alive l2 (s2, e2) c)) = Some a"
    using assms(2) unfolding mg_mgr_poll_def snd_conv fst_conv l1_def [symmetric] Let_def poll option.case prod.case
      body_def [symmetric]
    by (auto split: option.splits)
  have o2: "in_order (Alive l2 (s2, e2) c2)"
  proof (cases "body = Some (l1, (s1, e1), c1)")
    case True
    then show ?thesis using b o1 by simp
  next
    case busy: False
    then have r: "\<not> l_resolving l1" by (simp add: body_def split: if_splits)
    consider (connecting) "l_connecting l1" "body = connect_conn (recording fn) t (l1, (s1, e1), c1)"
      | (shaking) "\<not> l_connecting l1" "l_tls_hs l1" "body = shaken (recording fn) (t_hs t) (l1, (s1, e1), c1)"
      | (opened) "\<not> l_connecting l1" "\<not> l_tls_hs l1" "body = transfer (recording fn) t (l1, (s1, e1), c1)"
      using busy by (simp add: body_def split: if_splits)
    then show ?thesis
    proof cases
      case connecting
      show ?thesis by (rule connect_order [OF o1 r connecting(1)]) (use b connecting(2) in simp)
    next
      case shaking
      show ?thesis by (rule shaken_order [OF o1 r shaking(1,2)]) (use b shaking(3) in simp)
    next
      case opened
      show ?thesis by (rule transfer_order [OF o1 r opened(1,2)]) (use b opened(3) in simp)
    qed
  qed
  define c3 where "c3 = (if l_draining l2 \<and> io_len (c_send c2) = 0 then c2\<lparr>c_is_closing := True\<rparr> else c2)"
  have o3: "in_order (Alive l2 (s2, e2) c3)" using o2 by (simp add: in_order_def)
  then show ?thesis
    using a unfolding c3_def [symmetric] Let_def
    by (auto simp: close_conn_def in_order_def phase_snoc link_phase_def dest!: call_plain split: if_splits)
qed

lemma life_order:
  assumes "life (recording fn) a b" "in_order a"
  shows "in_order b"
  using assms
proof induction
  case (life_turn l s c t b)
  then show ?case using turn_order [of l "fst s" "snd s" c fn t b] by simp
next
  case (life_resolved l s c rc err l' s' c')
  then show ?case using connect_resolved_order [of l "fst s" "snd s" c fn rc err l' "fst s'" "snd s'" c'] by simp
next
  case (life_timeout l s c s' c')
  then show ?case
    using error_logged [of fn "''DNS timeout''" "fst s" "snd s" c "fst s'" "snd s'" c']
    by (auto simp: in_order_def phase_snoc link_phase_def case_prod_unfold split: if_splits)
qed


definition quiet :: "unit handler" where
  "quiet ev sc = Some sc"

definition waiting_link :: link where
  "waiting_link = \<lparr>l_resolving = True, l_connecting = False, l_tls = True, l_tls_hs = True, l_draining = False,
     l_readable = False, l_writable = False\<rparr>"

definition lucky_turn :: turn_io where
  "lucky_turn = \<lparr>t_rset = True, t_wset = True, t_so_error = Some 0, t_hs = (1, 0), t_recv = ([], False), t_sent = (0, False),
     t_peer = ''1.2.3.4:443''\<rparr>"


section \<open>Opening a connection\<close>

text \<open>
  \<open>mg_connect\<close>: a socket, a connection, the host's address. The result: none for the null pointer, otherwise the
  connection, its port, and the query sent, if one was. \<open>None\<close>: without memory, and with errors logged, the null pointer is
  dereferenced.
\<close>

definition alloc_conn :: "allocs \<Rightarrow> (nat \<Rightarrow> u8) \<Rightarrow> mg_connection" where
  "alloc_conn h rnd =
     \<lparr>c_recv = \<lparr>io_buf = [], io_size = 0, io_len = 0\<rparr>, c_send = \<lparr>io_buf = [], io_size = 0, io_len = 0\<rparr>, c_is_client = True,
      c_is_websocket = False, c_is_closing = False, c_allocs = h, c_random = rnd\<rparr>"

definition new_link :: link where
  "new_link = \<lparr>l_resolving = False, l_connecting = False, l_tls = False, l_tls_hs = False, l_draining = False,
     l_readable = False, l_writable = False\<rparr>"

record connect_io =
  k_socket :: bool
  k_alloc :: bool
  k_logs :: bool
  k_dns_conn :: bool
  k_dns_alloc :: bool
  k_now :: u32
  k_rc :: int
  k_err :: int

definition mg_connect ::
  "'s handler \<Rightarrow> connect_io \<Rightarrow> allocs \<Rightarrow> (nat \<Rightarrow> u8) \<Rightarrow> nat \<Rightarrow> int \<Rightarrow> string \<Rightarrow> resolver \<times> 's \<Rightarrow>
   ((link \<times> 's \<times> mg_connection) \<times> u16 \<times> u8 list option) option option \<times> resolver" where
  "mg_connect fn k h rnd cid dnstimeout url rs =
     (case rs of (r, s) \<Rightarrow>
        if \<not> k_socket k then (Some None, r)
        else if \<not> k_alloc k then (if k_logs k then (None, r) else (Some None, r))
        else
          let (off, len) = mg_url_host url; c = alloc_conn h rnd; port = mg_url_port url
          in (case mg_resolve (k_dns_conn k) (k_dns_alloc k) (k_now k) r cid (drop off url) (unat len) dnstimeout of
                (r', Resolved_to ip) \<Rightarrow>
                  (map_option (\<lambda>lsc. Some (lsc, port, None)) (mg_connect_resolved fn (k_rc k) (k_err k) (new_link, s, c)), r')
              | (r', Resolve_error t) \<Rightarrow> (map_option (\<lambda>sc. Some ((new_link, sc), port, None)) (mg_error fn t (s, c)), r')
              | (r', Query_sent q) \<Rightarrow> (Some (Some ((new_link\<lparr>l_resolving := True\<rparr>, s, c), port, Some q)), r')))"

text \<open>For the exchange's address: port 443, and the connection waits for the answer to a query for the exchange's name.\<close>

lemma coinbase_query:
  assumes "k_socket k" "k_alloc k" "k_dns_conn k" "k_dns_alloc k"
  shows "\<exists>q r'. mg_connect fn k h rnd cid ms s_coinbase_url (r, s) =
      (Some (Some ((new_link\<lparr>l_resolving := True\<rparr>, s, alloc_conn h rnd), 443, Some q)), r') \<and>
    drop 12 q = qname feed_labels @ [0, 0, 1, 0, 1] \<and> map d_conn (r_pending r') = cid # (if r_open r then map d_conn (r_pending r) else [])"
proof -
  have d: "drop 6 s_coinbase_url = ''ws-feed.exchange.coinbase.com''" by (simp add: s_coinbase_url_def)
  have q: "drop 12 (mg_dns_send ''ws-feed.exchange.coinbase.com'' 29 txn) = qname feed_labels @ [0, 0, 1, 0, 1]" for txn
    by (simp add: feed_query dns_header_def)
  show ?thesis
    using assms by (simp add: mg_connect_def coinbase_address d mg_resolve_def feed_host(5,6) q Let_def)
qed

section \<open>Frames of a peer that did not upgrade\<close>

text \<open>
  An answer that is not even text closes the connection, but the loop over frames is entered all the same: the handler gets
  a message without \<open>MG_EV_WS_OPEN\<close>.
\<close>

lemma message_without_upgrade:
  "\<exists>c. mg_ws_cb (recording quiet) MG_EV_READ
      (((), []), idle_client\<lparr>c_recv := \<lparr>io_buf = [0x81, 1, 0x7b], io_size = 3, io_len = 3\<rparr>\<rparr>) =
    Some (((), [MG_EV_WS_MSG 2 1 0x81]), c) \<and> \<not> c_is_websocket c \<and> c_is_closing c"
proof -
  let ?b = "[0x81, 1, 0x7b] :: u8 list"
  let ?c = "\<lambda>n. idle_client\<lparr>c_recv := \<lparr>io_buf = ?b, io_size = 3, io_len = n\<rparr>, c_is_closing := True\<rparr>"
  have n: "mg_http_get_request_len ?b 3 = - 1" by code_simp
  have p: "ws_process ?b 3 = Some (3, \<lparr>ws_flags = 0x81, ws_header_len = 2, ws_data_len = 1\<rparr>, ?b)"
    "ws_process ?b 0 = Some (0, ws_msg_zero, ?b)"
    by (simp_all add: ws_process_def ws_lengths_def ws_msg_zero_def)
  have s1: "ws_step (recording quiet) (((), []), ?c 3) = Some (True, ((), [MG_EV_WS_MSG 2 1 0x81]), ?c 0)"
    by (simp add: ws_step_def p(1) ws_finish_def recording_def quiet_def mg_iobuf_delete_def store_def)
  have s2: "ws_step (recording quiet) (((), [MG_EV_WS_MSG 2 1 0x81]), ?c 0) = Some (False, ((), [MG_EV_WS_MSG 2 1 0x81]), ?c 0)"
    by (simp add: ws_step_def p(2))
  have "ws_loop (recording quiet) (((), []), ?c 3) = Some (((), [MG_EV_WS_MSG 2 1 0x81]), ?c 0)"
    by (subst ws_loop.simps, simp only: s1 option.case prod.case if_True,
        subst ws_loop.simps, simp only: s2 option.case prod.case if_False)
  then show ?thesis by (simp add: mg_ws_cb_def n idle_client_def)
qed

end
