(* ===== verification/Spec2Isabelle.thy ===== *)
theory Spec2Isabelle
  imports Fmma_Types Fmma_Bench Fmma_Stream Fmma_Device Fmma_Units
    Fmma_Wire Fmma_Http Fmma_Poll
begin

text \<open>
  FMMA, an FPGA market maker: verification development.

  \<^bold>\<open>The program.\<close> A program on the ARM core (HPS) of a Cyclone V receives ticker messages of an exchange over a
  websocket, converts them to fixed point and publishes them in a RAM it shares with the FPGA. A small CPU in the fabric
  runs a trading program that the host loads: it compares each quote with the one before and publishes a decision, buy
  or sell, in the same RAM. The host polls for decisions, checks them against its own risk limits and posts orders to a
  broker; fills are booked by the risk module, the software strategy and the CPU. A software copy of the trading program
  takes the CPU's place when there is no board. Around this are diagnostics, a latency harness, and a second, earlier
  architecture with its own stream program.

  \<^bold>\<open>Conventions.\<close> \<open>uint32_t\<close> and \<open>uint64_t\<close> are words and wrap; \<open>int32_t\<close> and \<open>int64_t\<close> are integers with the wrap of
  every operation written out (\<open>s32\<close>, \<open>s64\<close>); a struct is a record with the source's fields, a pointer that may be null an
  option, a C string a list of characters whose NUL is at its length. An error code is the C value; a loop that may not
  end gives \<open>None\<close>. The results of the operating system and of the network library (\<open>calloc\<close>, \<open>open\<close>, \<open>mmap\<close>, clocks,
  \<open>mg_*\<close> calls and events) are arguments. What host code does to the shared RAM is a list of stores and barriers in program
  order, so that any interleaving with the other side can be stated.

  \<^bold>\<open>Theories.\<close>

  \<^item> \<open>Fmma_Prelude\<close>: C integers, strings, formatting, shared lemmas. \<open>Fmma_Cstd\<close>: \<open>strtoul\<close> and its relatives.
  \<^item> \<open>Fmma_Fixed\<close> (\<open>src/fmma_fixed.c\<close>): decimal parsing, formatting and the price clamp. Parsing is exact, formatting is
    its inverse, the clamp of a parsed text is the clamp of the exact decimal at any length.
  \<^item> \<open>Fmma_Json\<close> (\<open>src/fmma_json.c\<close>): field access in flat objects reads rendered fields back.
  \<^item> \<open>Fmma_Protocol\<close>, \<open>Fmma_Program\<close> (\<open>fmma_protocol.h\<close>, \<open>fpga_program.h\<close>): the word map, accesses, the program image.
  \<^item> \<open>Fmma_Position\<close>: the locale \<open>position_keeper\<close>, the contract of whoever books fills, interpreted for strategy and risk
    module; \<open>two_keepers\<close> for their agreement.
  \<^item> \<open>Fmma_Strategy\<close> (\<open>src/fmma_strategy.c\<close>): the C strategy refines a machine on unbounded integers over all runs.
  \<^item> \<open>Fmma_Risk\<close> (\<open>src/fmma_risk.c\<close>): average-cost accounting against plain books, the loss limit is final, the verdict in
    plain integers.
  \<^item> \<open>Fmma_Stats\<close> (\<open>src/fmma_stats.c\<close>, \<open>fmma_time.h\<close>): histogram, percentiles, tick latencies.
  \<^item> \<open>Fmma_Seqlock\<close>: the locale \<open>seqlock_writer\<close> and what a reader may conclude. \<open>Fmma_Fpga\<close> (\<open>src/fmma_fpga.c\<close>):
    load, publish, fills, polls, read-back, close; the host protocol is such a writer; a partly written program cannot start.
  \<^item> \<open>Fmma_Config\<close> (\<open>src/fmma_config.c\<close>), \<open>Fmma_Platform\<close> (\<open>fmma_log.c\<close>, \<open>fmma_tls.c\<close>, \<open>fmma_socfpga.c\<close>, \<open>tools/msel.c\<close>):
    the command line, logging, TLS options, the check that the fabric is configured.
  \<^item> \<open>Fmma_Exec\<close> (\<open>src/fmma_exec.c\<close>): the table of working orders, sending, responses, status queries. Fills never outnumber
    orders; orders are spaced by the cooldown; a lost order blocks its slot for good.
  \<^item> \<open>Fmma_Feed\<close> (\<open>src/fmma_feed.c\<close>): messages to quotes, reconnection with backoff.
  \<^item> \<open>Fmma_App\<close>, \<open>Fmma_Loop\<close> (\<open>src/fmma_app.c\<close>, \<open>main.c\<close>): the handlers, the event loop and the program's life. The loop is
    decomposed into an inductive step relation; the locale \<open>app_invariant\<close> lifts an invariant of the steps to whole runs
    and is interpreted for the halt, for software mode, for the agreement of positions, for the position limit.
    \<open>Fmma_Types\<close> interprets it for the ranges of the C types.
  \<^item> \<open>Fmma_Bus\<close>: a device behind the window as a parameter, the host operations word access by word access in the state
    monad. \<open>Fmma_Probe\<close> (\<open>fmma_probe.c\<close>), \<open>Fmma_Selftest\<close> (\<open>fmma_selftest.c\<close>), \<open>Fmma_Bench\<close> (\<open>fmma_bench.c\<close>): the
    diagnostics on any device.
  \<^item> \<open>Fmma_Float\<close>, \<open>Fmma_Stream\<close> (\<open>NewArch/In-Memory v2\<close>): the second architecture's stream with its single-precision
    arithmetic, and its bring-up tests.
  \<^item> The network library that architecture patches and compiles in (\<open>NewArch/In-Memory v2/mongoose.c\<close>):
    \<open>Fmma_Iobuf\<close> (\<open>iobuf.c\<close>), byte queues under a failing allocator; \<open>Fmma_Ws\<close> (\<open>ws.c\<close>, \<open>sock.c\<close>), websocket frames both
    ways; \<open>Fmma_Wire\<close>, the locale \<open>ws_handler\<close>, in which any segmentation of a stream of frames gives the same messages, interpreted on
    \<open>coinbase_cb\<close>; \<open>Fmma_Http\<close> (\<open>http.c\<close>), message heads and lengths; \<open>Fmma_Connect\<close> (\<open>base64.c\<close>, \<open>url.c\<close>, \<open>ws.c\<close>), the upgrade
    request; \<open>Fmma_Dns\<close> (\<open>dns.c\<close>), queries, answers and who waits for them; \<open>Fmma_Poll\<close> (\<open>sock.c\<close>, \<open>tls.c\<close>), a connection's
    turns in the poll loop and the order of its events. Lengths are 32-bit, so what a hostile peer can make wrap is there to be shown.
  \<^item> \<open>Fmma_Isa\<close> (\<open>Code/ALUFinal\<close>, \<open>FSMTrial\<close>, \<open>disp\<close>, \<open>cpu_core.v\<close>): the CPU, one instruction at a time.
    \<open>Fmma_Firmware\<close>: the image disassembled and executed block by block. \<open>Fmma_Confined\<close>: an invariant of all its
    instructions under any stores of the host. \<open>Fmma_Fabric\<close>: what one pass of its loop computes. \<open>Fmma_Session\<close>: the idle
    loop under interleaved stores, and agreement with \<open>fmma_strategy.c\<close>. \<open>Fmma_Golden\<close>: host code and CPU in whole sessions;
    the fabric implements the C strategy. \<open>Fmma_Boot\<close>: the load, from a parked or a running CPU, to the first quote.
    \<open>Fmma_Device\<close>: the fabric interpreted as the device of the diagnostics, which thus hold beside a running CPU.
  \<^item> \<open>Fmma_Units\<close> (\<open>tests/test_units.c\<close>): the repository's unit tests, whose 63 checks all succeed on these definitions.

  \<^bold>\<open>How the parts meet.\<close> The decisions the application acts on come from \<open>fmma_fpga_poll_signal\<close> in \<open>Fmma_App\<close>, with the
  view of the RAM as an argument; \<open>Fmma_Golden\<close> and \<open>Fmma_Boot\<close> say which views a fabric that runs the image gives. The
  software mode uses \<open>fmma_strategy_on_quote\<close>, which the sessions show to be the same decisions, in the range in which the fabric's
  32-bit signed compare and the C code's 64-bit compare agree: bid plus ask plus twice the threshold below
  \<open>2 ^ 31\<close>. The limits are the source's: 8 orders, 24 latency buckets, 50 polls, 154 program words, all as in the code.

  \<^bold>\<open>Bounds.\<close> Loops over data are structural; the padding loop of the parser and the drain of the decision counter are
  partial and their return is proved under stated conditions. Instruction counts are upper bounds from the program text: a
  quote is decided within 87 instructions of its last store wherever the CPU was, a fill is booked within 40, a restart is complete
  within 236. Names in packets are read through at most six levels of pointers, the code's own limit, which is why reading them ends.

  \<^bold>\<open>Not modelled.\<close> The stock copy of mongoose under \<open>third_party\<close>, to which the FMMA program is linked: its events and
  results are arguments. Of the patched copy, what the stream program does not reach: the server side of HTTP, MQTT, SNTP, timers,
  hashes; listening and UDP sockets, the loop over several connections; the calls of sockets and of OpenSSL, whose results are arguments. The SDRAM calibration
  sequencer and the handoff files, generated for the preloader. The Verilog around the CPU (block RAM, bridge, display) and
  the clock-level states of its control machine: instructions are atomic here, except that host stores fall between any
  two. The assembler and simulators, in Python. At shutdown, the callbacks that \<open>mg_mgr_free\<close> runs on modules already freed, whose
  behaviour C leaves undefined.
\<close>

end
